(* ===== verification/Prelude.thy ===== *)
theory Prelude
  imports Main "HOL-Library.Word"
begin

text \<open>
  Shared ground of the development: the fixed-width types of
  \<^verbatim>\<open>kernel/include/types.hpp\<close>, the ways a kernel routine can stop
  (a call of \<^verbatim>\<open>Core::Panic\<close>, an access to an unmapped address, an index
  outside a C array, a loop that never leaves), the sum type that carries
  them, sequencing and counted loops over it, and the generic lemmas the components use.
\<close>

unbundle bit_operations_syntax

section \<open>Fixed-width types\<close>

type_synonym u8 = "8 word"
type_synonym u16 = "16 word"
type_synonym u32 = "32 word"
type_synonym u64 = "64 word"

text \<open>The kernel's own booleans are bytes (\<^verbatim>\<open>bl\<close>, \<^verbatim>\<open>ktrue\<close>, \<^verbatim>\<open>kfalse\<close>).\<close>

type_synonym bl = u8

definition ktrue :: bl where
  "ktrue = 1"

definition kfalse :: bl where
  "kfalse = 0"

definition to_bl :: "bool \<Rightarrow> bl" where
  "to_bl b = (if b then ktrue else kfalse)"

text \<open>A C condition on a value: anything but zero counts as true.\<close>

definition truthy :: "'a::len word \<Rightarrow> bool" where
  "truthy w \<longleftrightarrow> w \<noteq> 0"

lemma truthy_simps [simp]:
  "truthy ktrue" "\<not> truthy kfalse" "truthy (to_bl b) = b"
  by (simp_all add: truthy_def ktrue_def kfalse_def to_bl_def)

lemma ktrue_neq_kfalse [simp]: "ktrue \<noteq> kfalse" "kfalse \<noteq> ktrue"
  by (simp_all add: ktrue_def kfalse_def)

lemma to_bl_inject [simp]: "to_bl b = ktrue \<longleftrightarrow> b" "to_bl b = kfalse \<longleftrightarrow> \<not> b"
  by (simp_all add: to_bl_def)

section \<open>How a routine can stop\<close>

datatype stop =
  Panic string          \<comment> \<open>control went to Core::Panic with this message\<close>
| PageFault u64         \<comment> \<open>an access to an address that is not mapped\<close>
| OutOfBounds string    \<comment> \<open>an index outside the named C array\<close>
| Spins string          \<comment> \<open>the named loop is never left\<close>

type_synonym 'a res = "stop + 'a"

text \<open>Statement sequencing: the first stop ends the routine.\<close>

fun and_then :: "'a res \<Rightarrow> ('a \<Rightarrow> 'b res) \<Rightarrow> 'b res" where
  "and_then (Inl e) f = Inl e"
| "and_then (Inr x) f = f x"

lemma and_then_eq_Inr: "and_then r f = Inr y \<longleftrightarrow> (\<exists>x. r = Inr x \<and> f x = Inr y)"
  by (cases r) auto

lemma and_then_eq_Inl:
  "and_then r f = Inl e \<longleftrightarrow> r = Inl e \<or> (\<exists>x. r = Inr x \<and> f x = Inl e)"
  by (cases r) auto

lemma and_then_assoc: "and_then (and_then r f) g = and_then r (\<lambda>x. and_then (f x) g)"
  by (cases r) auto

lemma and_then_Inr [simp]: "and_then r Inr = r"
  by (cases r) auto

lemma and_then_cong [fundef_cong]:
  "r = r' \<Longrightarrow> (\<And>x. r' = Inr x \<Longrightarrow> f x = g x) \<Longrightarrow> and_then r f = and_then r' g"
  by (cases r') auto

text \<open>The \<^verbatim>\<open>assert\<close> macro of \<^verbatim>\<open>core.hpp\<close>: panic when the condition is false.\<close>

definition kassert :: "bool \<Rightarrow> string \<Rightarrow> unit res" where
  "kassert condition message = (if condition then Inr () else Inl (Panic message))"

lemma kassert_simps [simp]:
  "kassert True msg = Inr ()" "kassert False msg = Inl (Panic msg)"
  by (simp_all add: kassert_def)

section \<open>Counted loops\<close>

text \<open>
  A \<^verbatim>\<open>for\<close> loop whose bounds are fixed before it starts runs its body over the
  list of index values, threading the state, and ends at the first stop.
\<close>

fun for_each :: "('a \<Rightarrow> 's \<Rightarrow> 's res) \<Rightarrow> 'a list \<Rightarrow> 's \<Rightarrow> 's res" where
  "for_each f [] s = Inr s"
| "for_each f (x # xs) s = and_then (f x s) (for_each f xs)"

lemma for_each_Nil [simp]: "for_each f [] = Inr"
  by (simp add: fun_eq_iff)

lemma for_each_skip [simp]: "for_each (\<lambda>_. Inr) xs = Inr"
proof
  show "for_each (\<lambda>_. Inr) xs s = Inr s" for s :: 'a by (induction xs) simp_all
qed

lemma for_each_append:
  "for_each f (xs @ ys) s = and_then (for_each f xs s) (for_each f ys)"
  by (induction xs arbitrary: s) (simp_all add: and_then_assoc cong: and_then_cong)

lemma for_each_total:
  assumes "\<And>x s. x \<in> set xs \<Longrightarrow> I s \<Longrightarrow> \<exists>t. f x s = Inr t \<and> I t" and "I s"
  shows "\<exists>t. for_each f xs s = Inr t \<and> I t"
  using assms
proof (induction xs arbitrary: s)
  case Nil
  then show ?case by simp
next
  case (Cons x xs)
  from Cons.prems obtain t where t: "f x s = Inr t" "I t" by (meson list.set_intros(1))
  from Cons.IH [of t] Cons.prems(1) t(2) have "\<exists>u. for_each f xs t = Inr u \<and> I u" by simp
  with t(1) show ?case by simp
qed

lemma for_each_invariant:
  assumes "for_each f xs s = Inr t" and "I s"
    and "\<And>x s t. x \<in> set xs \<Longrightarrow> I s \<Longrightarrow> f x s = Inr t \<Longrightarrow> I t"
  shows "I t"
  using assms
proof (induction xs arbitrary: s)
  case Nil
  then show ?case by simp
next
  case (Cons x xs)
  from Cons.prems(1) obtain u where u: "f x s = Inr u" "for_each f xs u = Inr t"
    by (auto simp: and_then_eq_Inr)
  have "I u" using Cons.prems(2,3) u(1) by (meson list.set_intros(1))
  then show ?case using Cons.IH [OF u(2)] Cons.prems(3) by (meson list.set_intros(2))
qed

text \<open>Two bodies that agree on the states the loop can be in give the same loop.\<close>

lemma for_each_cong_inv:
  assumes "I s" and "\<And>x s. x \<in> set xs \<Longrightarrow> I s \<Longrightarrow> f x s = g x s"
    and "\<And>x s t. x \<in> set xs \<Longrightarrow> I s \<Longrightarrow> g x s = Inr t \<Longrightarrow> I t"
  shows "for_each f xs s = for_each g xs s"
  using assms
proof (induction xs arbitrary: s)
  case (Cons x xs)
  have "f x s = g x s" using Cons.prems by simp
  moreover have "for_each f xs t = for_each g xs t" if "g x s = Inr t" for t
    using Cons.IH [of t] Cons.prems that by (meson list.set_intros)
  ultimately show ?case by (cases "g x s") simp_all
qed simp

text \<open>A body that never stops makes the loop an ordinary fold.\<close>

lemma for_each_fold:
  "(\<And>x s. x \<in> set xs \<Longrightarrow> f x s = Inr (g x s)) \<Longrightarrow> for_each f xs s = Inr (fold g xs s)"
  by (induction xs arbitrary: s) simp_all

lemma for_each_cong [fundef_cong]:
  "xs = ys \<Longrightarrow> s = t \<Longrightarrow> (\<And>x u. x \<in> set ys \<Longrightarrow> f x u = g x u) \<Longrightarrow> for_each f xs s = for_each g ys t"
proof (induction ys arbitrary: xs s t)
  case (Cons y ys)
  then show ?case by (cases "g y t") auto
qed simp

lemma for_each_map: "for_each f (map g xs) s = for_each (\<lambda>x. f (g x)) xs s"
  by (induction xs arbitrary: s) (simp_all cong: and_then_cong)

text \<open>A loop inside a loop is one loop over the concatenated index lists.\<close>

lemma for_each_concat:
  "for_each (\<lambda>x. for_each f (g x)) xs s = for_each f (concat (map g xs)) s"
  by (induction xs arbitrary: s) (simp_all add: for_each_append cong: and_then_cong)

lemma for_each_product:
  "for_each (\<lambda>x. for_each (\<lambda>y. f x y) ys) xs s = for_each (\<lambda>(x, y). f x y) (List.product xs ys) s"
  by (induction xs arbitrary: s) (simp_all add: for_each_append for_each_map cong: and_then_cong)

text \<open>A body under a guard runs over the indices that pass it.\<close>

lemma for_each_filter:
  "for_each (\<lambda>x s. if P x then f x s else Inr s) xs s = for_each f (filter P xs) s"
  by (induction xs arbitrary: s) (simp_all cong: and_then_cong)

section \<open>Words\<close>

named_theorems word_nat \<comment> \<open>word operations read as natural numbers\<close>

lemmas [word_nat] =
  word_less_nat_alt word_le_nat_alt unat_div_distrib unat_mod_distrib

lemma word_eq_unatI: "unat a = unat b \<Longrightarrow> a = b"
  by (simp add: word_unat_eq_iff)

lemma unat_u8_lt [simp]: "unat (w :: u8) < 256"
  using unsigned_less [of w] by simp

lemma unat_u16_lt [simp]: "unat (w :: u16) < 65536"
  using unsigned_less [of w] by simp

lemma unat_u32_lt [simp]: "unat (w :: u32) < 4294967296"
  using unsigned_less [of w] by simp

lemma unat_u64_lt [simp]: "unat (w :: u64) < 18446744073709551616"
  using unsigned_less [of w] by simp

lemma unat_of_nat64: "n < 2 ^ 64 \<Longrightarrow> unat (of_nat n :: u64) = n"
  by (simp add: unat_of_nat take_bit_nat_eq_self)

lemma of_nat64_inject:
  "m < 2 ^ 64 \<Longrightarrow> n < 2 ^ 64 \<Longrightarrow> (of_nat m :: u64) = of_nat n \<longleftrightarrow> m = n"
  by (metis unat_of_nat64)

lemma unat_add64:
  "unat (a :: u64) + unat b < 2 ^ 64 \<Longrightarrow> unat (a + b) = unat a + unat b"
  by (simp add: unat_word_ariths)

lemma unat_add_of_nat64:
  "unat (a :: u64) + n < 2 ^ 64 \<Longrightarrow> unat (a + of_nat n) = unat a + n"
  by (simp add: unat_word_ariths unat_of_nat take_bit_nat_eq_self mod_add_right_eq)

lemma add_of_nat64_cancel:
  "m < 2 ^ 64 \<Longrightarrow> n < 2 ^ 64 \<Longrightarrow> (a :: u64) + of_nat m = a + of_nat n \<longleftrightarrow> m = n"
  by (simp add: of_nat64_inject)

lemma unat_Suc64: "(i :: u64) < n \<Longrightarrow> unat (i + 1) = Suc (unat i)"
proof -
  assume "i < n"
  then have "Suc (unat i) < 18446744073709551616"
    using unat_u64_lt [of n] by (simp add: word_less_nat_alt del: unat_u64_lt)
  then show ?thesis by (simp add: unat_word_ariths)
qed

section \<open>Messages\<close>

text \<open>
  Outside the console driver a logging call is the event of its kind, format string and
  numeric arguments.
\<close>

datatype log_kind = KInfo | KLog | KError | KOk

type_synonym log_event = "log_kind \<times> string \<times> u64 list"

end
