(* ===== verification/Machine_Memory.thy ===== *)
theory Machine_Memory
  imports Prelude
begin

text \<open>
  The byte memory the kernel's pointers reach: a partial map from 64-bit virtual
  addresses to bytes, where an address outside the map is one whose access
  faults. Loads and stores of 8, 32 and 64 bits are little endian, as on x86-64.
  The locale \<open>cell\<close> states what the components rely on about a
  load/store pair of one width; the three widths are its interpretations.
\<close>

type_synonym mem = "u64 \<Rightarrow> u8 option"

section \<open>Address regions\<close>

definition in_region :: "u64 \<Rightarrow> nat \<Rightarrow> u64 \<Rightarrow> bool" where
  "in_region a n x \<longleftrightarrow> unat (x - a) < n"

definition region :: "u64 \<Rightarrow> nat \<Rightarrow> u64 set" where
  "region a n = {x. in_region a n x}"

definition mapped :: "mem \<Rightarrow> u64 \<Rightarrow> nat \<Rightarrow> bool" where
  "mapped m a n \<longleftrightarrow> list_all (\<lambda>i. m (a + of_nat i) \<noteq> None) [0..<n]"

lemma in_region_offset:
  "n \<le> 2 ^ 64 \<Longrightarrow> in_region a n x \<longleftrightarrow> (\<exists>i < n. x = a + of_nat i)"
proof
  assume "in_region a n x"
  then have "unat (x - a) < n" "x = a + of_nat (unat (x - a))" by (simp_all add: in_region_def)
  then show "\<exists>i < n. x = a + of_nat i" by blast
next
  assume n: "n \<le> 2 ^ 64" and "\<exists>i < n. x = a + of_nat i"
  then obtain i where "i < n" "x = a + of_nat i" by blast
  with n show "in_region a n x" by (simp add: in_region_def unat_of_nat64)
qed

lemma in_region_add [simp]:
  "i < 2 ^ 64 \<Longrightarrow> in_region a n (a + of_nat i) \<longleftrightarrow> i < n"
  by (simp add: in_region_def unat_of_nat64)

lemma in_region_base [simp]: "in_region a n a \<longleftrightarrow> 0 < n"
  by (simp add: in_region_def)

lemma region_iff [simp]: "x \<in> region a n \<longleftrightarrow> in_region a n x"
  by (simp add: region_def)

lemma regions_apart:
  assumes "i + c \<le> j" and "j + d \<le> 2 ^ 64" and "in_region (a + of_nat i) c x"
  shows "\<not> in_region (a + of_nat j) d x"
proof
  assume "in_region (a + of_nat j) d x"
  then obtain l where l: "l < d" "x = a + of_nat j + of_nat l" using in_region_offset [of d "a + of_nat j" x] assms(2) by auto
  obtain k where k: "k < c" "x = a + of_nat i + of_nat k" using in_region_offset [of c "a + of_nat i" x] assms by auto
  have "(of_nat (i + k) :: u64) = of_nat (j + l)" using k(2) l(2) by (simp add: add.assoc)
  then have "unat (of_nat (i + k) :: u64) = unat (of_nat (j + l) :: u64)" by (rule arg_cong)
  then have "i + k = j + l" using k(1) l(1) assms(1,2) unat_of_nat64 [of "i + k"] unat_of_nat64 [of "j + l"] by (simp del: of_nat_add)
  then show False using k(1) assms(1) by simp
qed

lemma in_region_mono: "in_region a n x \<Longrightarrow> n \<le> k \<Longrightarrow> in_region a k x"
  by (simp add: in_region_def)

lemma in_region_Suc:
  "Suc n < 2 ^ 64 \<Longrightarrow> in_region a (Suc n) x \<longleftrightarrow> x = a \<or> in_region (a + 1) n x"
proof (cases "x = a")
  case True
  then show ?thesis by simp
next
  case False
  assume "Suc n < 2 ^ 64"
  have "unat (x - a) = Suc (unat (x - (a + 1)))"
    using False unat_minus_one [of "x - a"] by (simp add: unat_gt_0 diff_diff_eq)
  with False show ?thesis by (simp add: in_region_def)
qed

lemma mapped_iff: "mapped m a n \<longleftrightarrow> (\<forall>i < n. m (a + of_nat i) \<noteq> None)"
  by (auto simp: mapped_def list_all_iff)

lemma mapped_region: "n \<le> 2 ^ 64 \<Longrightarrow> mapped m a n \<longleftrightarrow> (\<forall>x. in_region a n x \<longrightarrow> m x \<noteq> None)"
  by (simp add: mapped_iff in_region_offset) blast

lemma mapped_0 [simp]: "mapped m a 0"
  by (simp add: mapped_def)

lemma mapped_Suc: "mapped m a (Suc n) \<longleftrightarrow> m a \<noteq> None \<and> mapped m (a + 1) n"
proof -
  have "(\<forall>i < Suc n. m (a + of_nat i) \<noteq> None) \<longleftrightarrow>
      m a \<noteq> None \<and> (\<forall>i < n. m (a + 1 + of_nat i) \<noteq> None)"
    unfolding All_less_Suc2 by (simp add: add.assoc)
  then show ?thesis by (simp only: mapped_iff)
qed

lemma mapped_dom: "dom m' = dom m \<Longrightarrow> mapped m' a n = mapped m a n"
  by (auto simp: mapped_iff dom_def set_eq_iff)

lemma mapped_mono: "mapped m a n \<Longrightarrow> k \<le> n \<Longrightarrow> mapped m a k"
  by (simp add: mapped_iff)

lemma mapped_join:
  assumes "mapped m a n" and "mapped m (a + of_nat n) k"
  shows "mapped m a (n + k)"
  unfolding mapped_iff
proof (intro allI impI)
  fix i assume i: "i < n + k"
  show "m (a + of_nat i) \<noteq> None"
  proof (cases "i < n")
    case False
    then have "i = n + (i - n)" "i - n < k" using i by simp_all
    then show ?thesis using assms(2) unfolding mapped_iff by (metis add.assoc of_nat_add)
  qed (use assms(1) in \<open>simp add: mapped_iff\<close>)
qed

lemma mapped_sub:
  "mapped m a n \<Longrightarrow> k + j \<le> n \<Longrightarrow> mapped m (a + of_nat k) j"
  by (auto simp: mapped_iff add.assoc simp flip: of_nat_add)

text \<open>A memory that is one zeroed region.\<close>

definition zeroed :: "u64 \<Rightarrow> nat \<Rightarrow> mem" where
  "zeroed a n = (\<lambda>x. if in_region a n x then Some 0 else None)"

lemma mapped_zeroed: "n \<le> 2 ^ 64 \<Longrightarrow> mapped (zeroed a n) a n"
  by (simp add: mapped_region zeroed_def)

section \<open>Bytes\<close>

fun load_bytes :: "mem \<Rightarrow> u64 \<Rightarrow> nat \<Rightarrow> u8 list res" where
  "load_bytes m a 0 = Inr []"
| "load_bytes m a (Suc n) =
     (case m a of None \<Rightarrow> Inl (PageFault a)
      | Some b \<Rightarrow> and_then (load_bytes m (a + 1) n) (\<lambda>bs. Inr (b # bs)))"

fun store_bytes :: "mem \<Rightarrow> u64 \<Rightarrow> u8 list \<Rightarrow> mem res" where
  "store_bytes m a [] = Inr m"
| "store_bytes m a (b # bs) =
     (case m a of None \<Rightarrow> Inl (PageFault a)
      | Some _ \<Rightarrow> store_bytes (m(a \<mapsto> b)) (a + 1) bs)"

definition put_bytes :: "mem \<Rightarrow> u64 \<Rightarrow> u8 list \<Rightarrow> mem" where
  "put_bytes m a bs =
     (\<lambda>x. if in_region a (length bs) x then Some (bs ! unat (x - a)) else m x)"

definition get_bytes :: "mem \<Rightarrow> u64 \<Rightarrow> nat \<Rightarrow> u8 list" where
  "get_bytes m a n = map (\<lambda>i. the (m (a + of_nat i))) [0..<n]"

lemma load_bytes_mapped: "mapped m a n \<Longrightarrow> load_bytes m a n = Inr (get_bytes m a n)"
proof (induction n arbitrary: a)
  case 0
  then show ?case by (simp add: get_bytes_def)
next
  case (Suc n)
  then obtain b where b: "m a = Some b" by (auto simp: mapped_Suc)
  have "get_bytes m a (Suc n) = b # get_bytes m (a + 1) n"
    unfolding get_bytes_def upt_conv_Cons [OF zero_less_Suc] map_Suc_upt [symmetric]
    by (simp add: b add.assoc)
  with Suc b show ?case by (simp add: mapped_Suc)
qed

lemma load_bytes_unmapped: "\<not> mapped m a n \<Longrightarrow> \<exists>x. load_bytes m a n = Inl (PageFault x)"
proof (induction n arbitrary: a)
  case 0
  then show ?case by simp
next
  case (Suc n)
  show ?case
  proof (cases "m a")
    case (Some b)
    with Suc.prems have "\<not> mapped m (a + 1) n" by (simp add: mapped_Suc)
    then obtain x where "load_bytes m (a + 1) n = Inl (PageFault x)" using Suc.IH by blast
    with Some show ?thesis by simp
  qed simp
qed

lemma load_bytes_eq_Inr: "load_bytes m a n = Inr bs \<longleftrightarrow> mapped m a n \<and> bs = get_bytes m a n"
  using load_bytes_mapped [of m a n] load_bytes_unmapped [of m a n] by fastforce

lemma length_get_bytes [simp]: "length (get_bytes m a n) = n"
  by (simp add: get_bytes_def)

lemma get_bytes_0 [simp]: "get_bytes m a 0 = []"
  by (simp add: get_bytes_def)

lemma nth_get_bytes [simp]: "i < n \<Longrightarrow> get_bytes m a n ! i = the (m (a + of_nat i))"
  by (simp add: get_bytes_def)

lemma store_bytes_mapped:
  "mapped m a (length bs) \<Longrightarrow> length bs < 2 ^ 64 \<Longrightarrow> store_bytes m a bs = Inr (put_bytes m a bs)"
proof (induction bs arbitrary: m a)
  case Nil
  then show ?case by (simp add: put_bytes_def in_region_def)
next
  case (Cons b bs)
  then have dom: "m a \<noteq> None" "mapped m (a + 1) (length bs)" by (simp_all add: mapped_Suc)
  have "mapped (m(a \<mapsto> b)) (a + 1) (length bs)" using dom(2) by (auto simp: mapped_iff)
  with Cons.IH Cons.prems(2) dom(1)
  have st: "store_bytes m a (b # bs) = Inr (put_bytes (m(a \<mapsto> b)) (a + 1) bs)" by auto
  have "put_bytes (m(a \<mapsto> b)) (a + 1) bs x = put_bytes m a (b # bs) x" for x
  proof (cases "x = a")
    case True
    have "\<not> in_region (a + 1) (length bs) a"
      using Cons.prems(2) by (simp add: in_region_def unsigned_minus_1_eq_mask mask_eq_exp_minus_1)
    with True show ?thesis by (simp add: put_bytes_def)
  next
    case False
    then have "unat (x - a) = Suc (unat (x - (a + 1)))"
      using unat_minus_one [of "x - a"] by (simp add: unat_gt_0 diff_diff_eq)
    with False Cons.prems(2) show ?thesis by (simp add: put_bytes_def in_region_def)
  qed
  then show ?case using st by (simp add: fun_eq_iff)
qed

lemma store_bytes_unmapped:
  "\<not> mapped m a (length bs) \<Longrightarrow> length bs < 2 ^ 64 \<Longrightarrow> \<exists>x. store_bytes m a bs = Inl (PageFault x)"
proof (induction bs arbitrary: m a)
  case Nil
  then show ?case by simp
next
  case (Cons b bs)
  show ?case
  proof (cases "m a")
    case (Some y)
    with Cons.prems have "\<not> mapped m (a + 1) (length bs)" by (simp add: mapped_Suc)
    moreover have "mapped (m(a \<mapsto> b)) (a + 1) (length bs) = mapped m (a + 1) (length bs)"
      using Some by (intro mapped_dom) auto
    ultimately show ?thesis using Cons.IH Cons.prems(2) Some by simp
  qed simp
qed

lemma store_bytes_eq_Inr:
  "length bs < 2 ^ 64 \<Longrightarrow>
   store_bytes m a bs = Inr m' \<longleftrightarrow> mapped m a (length bs) \<and> m' = put_bytes m a bs"
  using store_bytes_mapped [of m a bs] store_bytes_unmapped [of m a bs] by fastforce

lemma dom_put_bytes:
  "mapped m a (length bs) \<Longrightarrow> length bs < 2 ^ 64 \<Longrightarrow> dom (put_bytes m a bs) = dom m"
  by (auto simp: put_bytes_def dom_def mapped_region split: if_splits)

lemma get_put_bytes: "length bs < 2 ^ 64 \<Longrightarrow> get_bytes (put_bytes m a bs) a (length bs) = bs"
  by (rule nth_equalityI) (simp_all add: put_bytes_def unat_of_nat64)

section \<open>Little-endian values\<close>

fun le_join :: "u8 list \<Rightarrow> u64" where
  "le_join [] = 0"
| "le_join (b # bs) = ucast b OR push_bit 8 (le_join bs)"

fun le_split :: "nat \<Rightarrow> u64 \<Rightarrow> u8 list" where
  "le_split 0 w = []"
| "le_split (Suc n) w = ucast w # le_split n (drop_bit 8 w)"

lemma length_le_split [simp]: "length (le_split n w) = n"
  by (induction n arbitrary: w) simp_all

lemma le_join_split: "le_join (le_split n w) = take_bit (8 * n) w"
proof (induction n arbitrary: w)
  case 0
  then show ?case by simp
next
  case (Suc n)
  show ?case
    by (rule bit_word_eqI)
       (auto simp: Suc bit_or_iff bit_push_bit_iff bit_take_bit_iff bit_drop_bit_eq
          bit_ucast_iff bit_simps)
qed

definition load8 :: "mem \<Rightarrow> u64 \<Rightarrow> u8 res" where
  "load8 m a = (case m a of None \<Rightarrow> Inl (PageFault a) | Some b \<Rightarrow> Inr b)"

definition store8 :: "mem \<Rightarrow> u64 \<Rightarrow> u8 \<Rightarrow> mem res" where
  "store8 m a b = (case m a of None \<Rightarrow> Inl (PageFault a) | Some _ \<Rightarrow> Inr (m(a \<mapsto> b)))"

definition load32 :: "mem \<Rightarrow> u64 \<Rightarrow> u32 res" where
  "load32 m a = and_then (load_bytes m a 4) (\<lambda>bs. Inr (ucast (le_join bs)))"

definition store32 :: "mem \<Rightarrow> u64 \<Rightarrow> u32 \<Rightarrow> mem res" where
  "store32 m a v = store_bytes m a (le_split 4 (ucast v))"

definition load64 :: "mem \<Rightarrow> u64 \<Rightarrow> u64 res" where
  "load64 m a = and_then (load_bytes m a 8) (\<lambda>bs. Inr (le_join bs))"

definition store64 :: "mem \<Rightarrow> u64 \<Rightarrow> u64 \<Rightarrow> mem res" where
  "store64 m a v = store_bytes m a (le_split 8 v)"

section \<open>The contract of a load/store pair\<close>

text \<open>
  What a client of one access width relies on: a store to mapped bytes succeeds, is
  read back by the matching load, and changes nothing outside its own bytes; a load
  depends on those bytes only; an unmapped byte is a page fault and nothing else.
\<close>

locale cell =
  fixes ld :: "mem \<Rightarrow> u64 \<Rightarrow> 'v res"
    and st :: "mem \<Rightarrow> u64 \<Rightarrow> 'v \<Rightarrow> mem res"
    and width :: nat
  assumes width_pos: "0 < width"
    and width_small: "width \<le> 8"
    and st_mapped: "mapped m a width \<Longrightarrow> \<exists>m'. st m a v = Inr m'"
    and st_Inr_mapped: "st m a v = Inr m' \<Longrightarrow> mapped m a width"
    and st_dom: "st m a v = Inr m' \<Longrightarrow> dom m' = dom m"
    and st_frame: "st m a v = Inr m' \<Longrightarrow> \<not> in_region a width x \<Longrightarrow> m' x = m x"
    and ld_st: "st m a v = Inr m' \<Longrightarrow> ld m' a = Inr v"
    and ld_mapped: "mapped m a width \<Longrightarrow> \<exists>v. ld m a = Inr v"
    and ld_Inr_mapped: "ld m a = Inr v \<Longrightarrow> mapped m a width"
    and ld_cong: "(\<And>x. in_region a width x \<Longrightarrow> m' x = m x) \<Longrightarrow> ld m' a = ld m a"
begin

text \<open>Two accesses are apart when their bytes are.\<close>

definition apart :: "u64 \<Rightarrow> u64 \<Rightarrow> bool" where
  "apart a b \<longleftrightarrow> region a width \<inter> region b width = {}"

lemma ld_st_other:
  assumes "st m a v = Inr m'" and "apart a b"
  shows "ld m' b = ld m b"
proof (rule ld_cong)
  fix x assume "in_region b width x"
  then have "\<not> in_region a width x" using assms(2) by (auto simp: apart_def set_eq_iff)
  then show "m' x = m x" by (rule st_frame [OF assms(1)])
qed

text \<open>A read-modify-write of one cell is seen by the next load of that cell.\<close>

lemma read_modify_write:
  assumes "ld m a = Inr v"
  shows "\<exists>m'. st m a (f v) = Inr m' \<and> ld m' a = Inr (f v) \<and> dom m' = dom m"
  using st_mapped [OF ld_Inr_mapped [OF assms], of "f v"] ld_st st_dom by blast

text \<open>Stores to cells that are apart both last.\<close>

lemma two_stores:
  assumes "st m a v = Inr m1" and "st m1 b w = Inr m2" and "apart b a"
  shows "ld m2 a = Inr v" and "ld m2 b = Inr w"
  using ld_st [OF assms(1)] ld_st [OF assms(2)] ld_st_other [OF assms(2,3)] by simp_all

lemma st_keeps_mapped: "st m a v = Inr m' \<Longrightarrow> mapped m' b n = mapped m b n"
  by (intro mapped_dom st_dom)

end

lemma load8_eq_Inr: "load8 m a = Inr v \<longleftrightarrow> m a = Some v"
  by (simp add: load8_def split: option.split)

lemma store8_eq_Inr: "store8 m a v = Inr m' \<longleftrightarrow> m a \<noteq> None \<and> m' = m(a \<mapsto> v)"
  by (auto simp: store8_def split: option.split)

lemma mapped_1 [simp]: "mapped m a (Suc 0) \<longleftrightarrow> m a \<noteq> None"
  by (simp add: mapped_iff)

lemma in_region_1: "in_region a (Suc 0) x \<longleftrightarrow> x = a"
  using in_region_Suc [of 0 a x] by (simp add: in_region_def)

interpretation byte: cell load8 store8 1
proof unfold_locales
  show "load8 m' a = load8 m a" if "\<And>x. in_region a 1 x \<Longrightarrow> m' x = m x" for m m' :: mem and a
    using that [of a] by (simp add: load8_def)
qed (auto simp: load8_eq_Inr store8_eq_Inr in_region_1)

lemma load_bytes_cong:
  assumes "n < 2 ^ 64" and "\<And>x. in_region a n x \<Longrightarrow> m' x = m x"
  shows "load_bytes m' a n = load_bytes m a n"
  using assms
proof (induction n arbitrary: a)
  case 0
  then show ?case by simp
next
  case (Suc k)
  then have "m' a = m a" "load_bytes m' (a + 1) k = load_bytes m (a + 1) k"
    by (simp_all add: in_region_Suc)
  then show ?case by (simp split: option.split)
qed

lemma cell_of_bytes:
  fixes join :: "u8 list \<Rightarrow> 'v" and split :: "'v \<Rightarrow> u8 list"
  assumes w: "0 < w" "w \<le> 8"
    and len: "\<And>v. length (split v) = w" and inv: "\<And>v. join (split v) = v"
  shows "cell (\<lambda>m a. and_then (load_bytes m a w) (\<lambda>bs. Inr (join bs)))
              (\<lambda>m a v. store_bytes m a (split v)) w"
proof unfold_locales
  fix m m' :: mem and a x :: u64 and v :: 'v
  have st: "store_bytes m a (split v) = Inr m' \<longleftrightarrow> mapped m a w \<and> m' = put_bytes m a (split v)"
    using w len by (simp add: store_bytes_eq_Inr)
  show "\<exists>m'. store_bytes m a (split v) = Inr m'" if "mapped m a w"
    using that w len by (simp add: store_bytes_mapped)
  assume A: "store_bytes m a (split v) = Inr m'"
  with st have B: "mapped m a w" "m' = put_bytes m a (split v)" by simp_all
  show "mapped m a w" by fact
  show D: "dom m' = dom m" using B w len by (simp add: dom_put_bytes)
  show "m' x = m x" if "\<not> in_region a w x" using that B(2) len by (simp add: put_bytes_def)
  have "length (split v) < 2 ^ 64" using w len by simp
  then have "get_bytes m' a w = split v" using B(2) len get_put_bytes [of "split v" m a] by metis
  moreover have "mapped m' a w" using B(1) D mapped_dom by blast
  ultimately show "and_then (load_bytes m' a w) (\<lambda>bs. Inr (join bs)) = Inr v"
    by (simp add: load_bytes_mapped inv)
next
  fix m m' :: mem and a :: u64
  show "and_then (load_bytes m' a w) (\<lambda>bs. Inr (join bs)) =
      and_then (load_bytes m a w) (\<lambda>bs. Inr (join bs))"
    if "\<And>x. in_region a w x \<Longrightarrow> m' x = m x"
    using load_bytes_cong [of w a m' m] that w by simp
qed (auto simp: and_then_eq_Inr load_bytes_eq_Inr w)

interpretation dword: cell load32 store32 4
proof -
  have "load32 = (\<lambda>m a. and_then (load_bytes m a 4) (\<lambda>bs. Inr (ucast (le_join bs))))"
    "store32 = (\<lambda>m a v. store_bytes m a (le_split 4 (ucast v)))"
    by (simp_all add: fun_eq_iff load32_def store32_def)
  moreover have "ucast (le_join (le_split 4 (ucast v))) = v" for v :: u32
    unfolding le_join_split by (rule bit_word_eqI) (simp add: bit_simps)
  ultimately show "cell load32 store32 4"
    using cell_of_bytes [of 4 "\<lambda>v::u32. le_split 4 (ucast v)" "\<lambda>bs. ucast (le_join bs)"] by simp
qed

interpretation qword: cell load64 store64 8
proof -
  have "load64 = (\<lambda>m a. and_then (load_bytes m a 8) (\<lambda>bs. Inr (le_join bs)))"
    "store64 = (\<lambda>m a v. store_bytes m a (le_split 8 v))"
    by (simp_all add: fun_eq_iff load64_def store64_def)
  moreover have "le_join (le_split 8 v) = v" for v
    unfolding le_join_split by (rule bit_word_eqI) (simp add: bit_simps)
  ultimately show "cell load64 store64 8"
    using cell_of_bytes [of 8 "le_split 8" le_join] by simp
qed

section \<open>More mapped memory\<close>

text \<open>A load that succeeds gives the same value in a memory that maps more.\<close>

lemma mapped_le: "m \<subseteq>\<^sub>m m' \<Longrightarrow> mapped m a n \<Longrightarrow> mapped m' a n"
  by (fastforce simp: mapped_iff map_le_def dom_def)

lemma load_bytes_le: "m \<subseteq>\<^sub>m m' \<Longrightarrow> load_bytes m a n = Inr bs \<Longrightarrow> load_bytes m' a n = Inr bs"
proof (induction n arbitrary: a bs)
  case (Suc n)
  then obtain b cs where "m a = Some b" "load_bytes m (a + 1) n = Inr cs" "bs = b # cs"
    by (auto simp: and_then_eq_Inr split: option.splits)
  then show ?case using Suc.IH [of "a + 1" cs] Suc.prems(1) by (auto simp: map_le_def dom_def)
qed simp

lemma load_le:
  assumes "m \<subseteq>\<^sub>m m'"
  shows "load8 m a = Inr b \<Longrightarrow> load8 m' a = Inr b"
    and "load32 m a = Inr v \<Longrightarrow> load32 m' a = Inr v"
    and "load64 m a = Inr w \<Longrightarrow> load64 m' a = Inr w"
  using assms load_bytes_le [OF assms]
  by (auto simp: load8_eq_Inr load32_def load64_def and_then_eq_Inr map_le_def dom_def)

end
