(* ===== verification/Acpi.thy ===== *)
theory Acpi
  imports Machine_Memory
begin

text \<open>
  The ACPI tables in memory: the search of the XSDT for a table
  (\<^verbatim>\<open>acpi/init.cpp\<close>, structs in \<^verbatim>\<open>acpi/acpi.hpp\<close>) and the walk over the entries of the
  MADT that finds the I/O APIC (\<^verbatim>\<open>ParseMADT\<close> of \<^verbatim>\<open>apic/ioapic.cpp\<close>). Struct fields are read at
  their packed offsets. The theorems relate the search to the list of tables, the walk to the chain of entries,
  and say exactly when the walk never ends.
\<close>

section \<open>Finding a table\<close>

text \<open>\<^verbatim>\<open>sizeof(ACPIHeader)\<close>, and the offsets of \<^verbatim>\<open>xsdt_address\<close> in the RSDP and \<^verbatim>\<open>length\<close> in a header.\<close>

definition ACPIHeader_size :: u64 where
  "ACPIHeader_size = 36"

definition RSDP_xsdt_address :: u64 where
  "RSDP_xsdt_address = 24"

definition ACPIHeader_length :: u64 where
  "ACPIHeader_length = 4"

text \<open>The loop over the table pointers, with the number of entries left.\<close>

fun table_scan :: "mem \<Rightarrow> u64 \<Rightarrow> u64 \<Rightarrow> u64 \<Rightarrow> nat \<Rightarrow> nat \<Rightarrow> u64 res" where
  "table_scan m xsdt hhdm_offset sig i 0 = Inr 0"
| "table_scan m xsdt hhdm_offset sig i (Suc left) =
     and_then (load64 m (xsdt + ACPIHeader_size + of_nat i * 8)) (\<lambda>p.
       let table = p + hhdm_offset
       in and_then (load32 m table) (\<lambda>signature.
          and_then (load32 m sig) (\<lambda>wanted.
            if signature = wanted then Inr table
            else table_scan m xsdt hhdm_offset sig (Suc i) left)))"

definition GetTable :: "mem \<Rightarrow> u64 \<Rightarrow> u64 \<Rightarrow> u64 \<Rightarrow> u64 res" where
  "GetTable m rsdp hhdm_offset sig =
     and_then (load64 m (rsdp + RSDP_xsdt_address)) (\<lambda>xsdt_address.
       let xsdt = xsdt_address + hhdm_offset
       in and_then (load32 m (xsdt + ACPIHeader_length)) (\<lambda>len.
          let entries = (ucast len - ACPIHeader_size) div 8
          in table_scan m xsdt hhdm_offset sig 0 (unat entries)))"

section \<open>The MADT\<close>

text \<open>Offsets of \<^verbatim>\<open>entries\<close> in the MADT and of \<^verbatim>\<open>GlobalSystemInterruptBase\<close> in an I/O APIC entry.\<close>

definition MADT_entries :: u64 where
  "MADT_entries = 44"

definition MADTEntryIOAPIC_gsib :: u64 where
  "MADTEntryIOAPIC_gsib = 8"

text \<open>What the walk changes: the pointer \<^verbatim>\<open>IOAPICData\<close> and the messages.\<close>

record madt_state =
  IOAPICData :: u64
  madt_log :: "log_event list"

text \<open>The switch on the entry's type.\<close>

definition madt_case :: "mem \<Rightarrow> u64 \<Rightarrow> u8 \<Rightarrow> madt_state \<Rightarrow> madt_state res" where
  "madt_case m current_entry ty st =
     (if ty = 0 then Inr st
      else if ty = 1 then
        and_then (load32 m (current_entry + MADTEntryIOAPIC_gsib)) (\<lambda>gsib.
          if gsib = 0 then Inr (st\<lparr>IOAPICData := current_entry\<rparr>) else Inr st)
      else if ty = 2 then
        Inr (st\<lparr>madt_log := madt_log st @ [(KOk, ''Recived Interrupt Source Override!'', [])]\<rparr>)
      else Inr st)"

text \<open>The loop; None is a run that never ends.\<close>

partial_function (option) madt_loop :: "mem \<Rightarrow> u64 \<Rightarrow> u64 \<Rightarrow> madt_state \<Rightarrow> madt_state res option" where
  "madt_loop m madt_end current_entry st =
     (if current_entry < madt_end then
        (case and_then (load8 m current_entry) (\<lambda>ty.
              and_then (madt_case m current_entry ty st) (\<lambda>st.
              and_then (load8 m (current_entry + 1)) (\<lambda>len. Inr (len, st)))) of
           Inl e \<Rightarrow> Some (Inl e)
         | Inr r \<Rightarrow> madt_loop m madt_end (current_entry + ucast (fst r)) (snd r))
      else Some (Inr st))"

definition ParseMADT :: "mem \<Rightarrow> u64 \<Rightarrow> madt_state \<Rightarrow> madt_state res" where
  "ParseMADT m madt st =
     and_then (load32 m (madt + ACPIHeader_length)) (\<lambda>len.
       case madt_loop m (madt + ucast len) (madt + MADT_entries) st of
         None \<Rightarrow> Inl (Spins ''ParseMADT'') | Some r \<Rightarrow> r)"

section \<open>The search\<close>

text \<open>The XSDT at hand lists these tables, each with a readable signature.\<close>

definition xsdt_lists :: "mem \<Rightarrow> u64 \<Rightarrow> u64 \<Rightarrow> (u64 \<times> u32) list \<Rightarrow> bool" where
  "xsdt_lists m rsdp h tables \<longleftrightarrow> length tables < 2 ^ 28 \<and>
     (\<exists>xa. load64 m (rsdp + 24) = Inr xa \<and> load32 m (xa + h + 4) = Inr (of_nat (36 + length tables * 8)) \<and>
       (\<forall>i < length tables. load64 m (xa + h + 36 + of_nat i * 8) = Inr (fst (tables ! i)) \<and>
          load32 m (fst (tables ! i) + h) = Inr (snd (tables ! i))))"

lemma table_scan_find:
  assumes "load32 m sig = Inr s"
    and "\<And>j. j < length ts \<Longrightarrow> load64 m (x + 36 + of_nat (i + j) * 8) = Inr (fst (ts ! j)) \<and>
           load32 m (fst (ts ! j) + h) = Inr (snd (ts ! j))"
  shows "table_scan m x h sig i (length ts) =
    Inr (case find (\<lambda>t. snd t = s) ts of None \<Rightarrow> 0 | Some t \<Rightarrow> fst t + h)"
  using assms(2)
proof (induction ts arbitrary: i)
  case Nil
  then show ?case by simp
next
  case (Cons t ts)
  have t: "load64 m (x + 36 + of_nat i * 8) = Inr (fst t)" "load32 m (fst t + h) = Inr (snd t)"
    using Cons.prems [of 0] by simp_all
  have "table_scan m x h sig (Suc i) (length ts) =
      Inr (case find (\<lambda>t. snd t = s) ts of None \<Rightarrow> 0 | Some t \<Rightarrow> fst t + h)"
  proof (rule Cons.IH)
    fix j assume "j < length ts"
    then show "load64 m (x + 36 + of_nat (Suc i + j) * 8) = Inr (fst (ts ! j)) \<and>
        load32 m (fst (ts ! j) + h) = Inr (snd (ts ! j))"
      using Cons.prems [of "Suc j"] by simp
  qed
  then show ?case using t assms(1) by (simp add: ACPIHeader_size_def Let_def)
qed

lemma GetTable_find:
  assumes "xsdt_lists m rsdp h tables" and "load32 m sig = Inr s"
  shows "GetTable m rsdp h sig = Inr (case find (\<lambda>t. snd t = s) tables of None \<Rightarrow> 0 | Some t \<Rightarrow> fst t + h)"
proof -
  from assms(1) obtain xa where x: "length tables < 2 ^ 28" "load64 m (rsdp + 24) = Inr xa"
      "load32 m (xa + h + 4) = Inr (of_nat (36 + length tables * 8))"
      "\<forall>i < length tables. load64 m (xa + h + 36 + of_nat i * 8) = Inr (fst (tables ! i)) \<and>
          load32 m (fst (tables ! i) + h) = Inr (snd (tables ! i))"
    by (auto simp: xsdt_lists_def)
  have l: "length tables * 8 < 2 ^ 31" using x(1) by simp
  have "(ucast (of_nat (36 + length tables * 8) :: u32) :: u64) = of_nat (36 + length tables * 8)"
    by (rule word_eq_unatI) (use l in \<open>simp add: unsigned_ucast_eq unat_of_nat take_bit_nat_eq_self del: of_nat_add of_nat_mult\<close>)
  then have "ucast (of_nat (36 + length tables * 8) :: u32) - ACPIHeader_size = (of_nat (length tables * 8) :: u64)"
    by (simp add: ACPIHeader_size_def)
  moreover have "unat (of_nat (length tables * 8) div 8 :: u64) = length tables"
    using l by (simp add: unat_div_distrib unat_of_nat64 del: of_nat_mult)
  ultimately have e: "unat ((ucast (of_nat (36 + length tables * 8) :: u32) - ACPIHeader_size) div 8 :: u64) = length tables"
    by simp
  have "table_scan m (xa + h) h sig 0 (length tables) =
      Inr (case find (\<lambda>t. snd t = s) tables of None \<Rightarrow> 0 | Some t \<Rightarrow> fst t + h)"
    by (rule table_scan_find) (use assms(2) x(4) in auto)
  then show ?thesis using x(2,3) e
    by (simp add: GetTable_def RSDP_xsdt_address_def ACPIHeader_length_def Let_def del: of_nat_add of_nat_mult)
qed

text \<open>GetTable returns the first table of the XSDT whose four signature bytes equal the wanted ones,
  as an address in the direct map, and null when there is none.\<close>

lemma GetTable_first_match:
  assumes "xsdt_lists m rsdp h tables" and "load32 m sig = Inr s"
  shows "GetTable m rsdp h sig = Inr (case find (\<lambda>t. snd t = s) tables of None \<Rightarrow> 0 | Some t \<Rightarrow> fst t + h)"
  by (rule GetTable_find [OF assms])

text \<open>An XSDT with two tables, FACP and APIC, and a MADT with three entries, for the witnesses.\<close>

fun bytes_at :: "u64 \<Rightarrow> u8 list \<Rightarrow> (u64 \<times> u8) list" where
  "bytes_at a [] = []"
| "bytes_at a (b # bs) = (a, b) # bytes_at (a + 1) bs"

definition acpi_bytes :: "(u64 \<times> u8) list" where
  "acpi_bytes =
     bytes_at 0x100118 [0, 2, 0, 0, 0, 0, 0, 0] @ bytes_at 0x100204 [52, 0, 0, 0] @
     bytes_at 0x100224 [0, 3, 0, 0, 0, 0, 0, 0, 0, 4, 0, 0, 0, 0, 0, 0] @
     bytes_at 0x100300 [70, 65, 67, 80] @ bytes_at 0x100400 [65, 80, 73, 67] @ bytes_at 0x100500 [65, 80, 73, 67] @
     bytes_at 0x100404 [74, 0, 0, 0] @ bytes_at 0x100424 [0, 0, 0xE0, 0xFE, 1, 0, 0, 0] @
     bytes_at 0x10042C [0, 8, 0, 0, 0, 0, 0, 0] @
     bytes_at 0x100434 [1, 12, 2, 0, 0, 0, 0xC0, 0xFE, 0, 0, 0, 0] @
     bytes_at 0x100440 [2, 10, 0, 0, 2, 0, 0, 0, 0, 0]"

definition acpi_mem0 :: mem where
  "acpi_mem0 = map_of acpi_bytes"

lemma load_bytes_numeral:
  "load_bytes m a (numeral k) = (case m a of None \<Rightarrow> Inl (PageFault a)
     | Some b \<Rightarrow> and_then (load_bytes m (a + 1) (pred_numeral k)) (\<lambda>bs. Inr (b # bs)))"
  by (simp add: numeral_eq_Suc)

lemmas acpi_eval = acpi_mem0_def acpi_bytes_def load64_def load32_def load8_def load_bytes_numeral

lemma acpi_mem0_tables:
  "load64 acpi_mem0 0x100118 = Inr 0x200" "load32 acpi_mem0 0x100204 = Inr 52"
  "load64 acpi_mem0 0x100224 = Inr 0x300" "load64 acpi_mem0 0x10022C = Inr 0x400"
  "load32 acpi_mem0 0x100300 = Inr 0x50434146" "load32 acpi_mem0 0x100400 = Inr 0x43495041" "load32 acpi_mem0 0x100500 = Inr 0x43495041"
  by (simp_all add: acpi_eval)

lemma GetTable_first_match_witness: "GetTable acpi_mem0 0x100100 0x100000 0x100500 = Inr 0x100400"
proof -
  have "xsdt_lists acpi_mem0 0x100100 0x100000 [(0x300, 0x50434146), (0x400, 0x43495041)]"
    using acpi_mem0_tables by (auto simp: xsdt_lists_def less_Suc_eq)
  from GetTable_first_match [OF this, of "0x100500" "0x43495041"] show ?thesis
    using acpi_mem0_tables by simp
qed

section \<open>The walk\<close>

text \<open>The next entry's address, when entry \<open>a\<close> is inside the table and readable; what the entry does to the state.\<close>

definition madt_step :: "mem \<Rightarrow> u64 \<Rightarrow> u64 \<Rightarrow> u64 option" where
  "madt_step m e a =
     (if a < e then
        (case load8 m a of Inl _ \<Rightarrow> None
         | Inr ty \<Rightarrow> (case load8 m (a + 1) of Inl _ \<Rightarrow> None
           | Inr len \<Rightarrow> (case load32 m (a + 8) of Inl _ \<Rightarrow> (if ty = 1 then None else Some (a + ucast len))
              | Inr _ \<Rightarrow> Some (a + ucast len))))
      else None)"

definition is_ioapic0 :: "mem \<Rightarrow> u64 \<Rightarrow> bool" where
  "is_ioapic0 m a \<longleftrightarrow> load8 m a = Inr 1 \<and> load32 m (a + 8) = Inr 0"

definition is_override :: "mem \<Rightarrow> u64 \<Rightarrow> bool" where
  "is_override m a \<longleftrightarrow> load8 m a = Inr 2"

definition override_message :: log_event where
  "override_message = (KOk, ''Recived Interrupt Source Override!'', [])"

definition madt_apply :: "mem \<Rightarrow> u64 \<Rightarrow> madt_state \<Rightarrow> madt_state" where
  "madt_apply m a st =
     (if is_ioapic0 m a then st\<lparr>IOAPICData := a\<rparr>
      else if is_override m a then st\<lparr>madt_log := madt_log st @ [override_message]\<rparr> else st)"

lemma madt_loop_end: "\<not> a < e \<Longrightarrow> madt_loop m e a st = Some (Inr st)"
  by (simp add: madt_loop.simps)

lemma madt_loop_stop: "a < e \<Longrightarrow> madt_step m e a = None \<Longrightarrow> \<exists>err. madt_loop m e a st = Some (Inl err)"
  by (subst madt_loop.simps)
     (auto simp: madt_step_def madt_case_def MADTEntryIOAPIC_gsib_def and_then_eq_Inr split: sum.splits if_splits)

lemma madt_loop_step: "madt_step m e a = Some b \<Longrightarrow> madt_loop m e a st = madt_loop m e b (madt_apply m a st)"
  by (subst madt_loop.simps)
     (auto simp: madt_step_def madt_case_def madt_apply_def is_ioapic0_def is_override_def override_message_def
        MADTEntryIOAPIC_gsib_def split: sum.splits if_splits)

text \<open>The entries from \<open>a\<close> on, in order, up to the end of the table.\<close>

fun madt_chain :: "mem \<Rightarrow> u64 \<Rightarrow> u64 \<Rightarrow> u64 list \<Rightarrow> bool" where
  "madt_chain m e a [] \<longleftrightarrow> \<not> a < e"
| "madt_chain m e a (x # xs) \<longleftrightarrow> x = a \<and> (case madt_step m e a of None \<Rightarrow> False | Some b \<Rightarrow> madt_chain m e b xs)"

lemma madt_loop_chain: "madt_chain m e a as \<Longrightarrow> madt_loop m e a st = Some (Inr (fold (madt_apply m) as st))"
  by (induction "as" arbitrary: a st) (auto simp: madt_loop_end madt_loop_step split: option.splits)

lemma fold_madt_apply:
  "fold (madt_apply m) as st = \<lparr>IOAPICData = last (IOAPICData st # filter (is_ioapic0 m) as),
     madt_log = madt_log st @ replicate (length (filter (is_override m) as)) override_message\<rparr>"
proof (induction "as" arbitrary: st)
  case Nil
  then show ?case by simp
next
  case (Cons a "as")
  have "\<not> (is_ioapic0 m a \<and> is_override m a)" by (simp add: is_ioapic0_def is_override_def)
  then show ?case unfolding fold_simps comp_apply Cons by (auto simp: madt_apply_def)
qed

text \<open>C26: on a well-formed MADT the walk ends with \<open>IOAPICData\<close> at the last I/O APIC entry whose interrupt base is 0
  (unchanged when there is none) and one message per interrupt source override.\<close>

theorem ParseMADT_finds_ioapic:
  assumes "load32 m (madt + 4) = Inr len" and "madt_chain m (madt + ucast len) (madt + 44) as"
  shows "ParseMADT m madt st = Inr \<lparr>IOAPICData = last (IOAPICData st # filter (is_ioapic0 m) as),
    madt_log = madt_log st @ replicate (length (filter (is_override m) as)) override_message\<rparr>"
  using assms by (simp add: ParseMADT_def ACPIHeader_length_def MADT_entries_def madt_loop_chain fold_madt_apply)

lemma acpi_mem0_entries:
  "madt_step acpi_mem0 0x10044A 0x10042C = Some 0x100434" "madt_step acpi_mem0 0x10044A 0x100434 = Some 0x100440"
  "madt_step acpi_mem0 0x10044A 0x100440 = Some 0x10044A"
  by (simp_all add: madt_step_def acpi_eval)

lemma acpi_mem0_ioapics:
  "\<not> is_ioapic0 acpi_mem0 0x10042C" "is_ioapic0 acpi_mem0 0x100434" "\<not> is_ioapic0 acpi_mem0 0x100440"
  by (simp_all add: is_ioapic0_def acpi_eval)

lemma acpi_mem0_madt:
  "load32 acpi_mem0 0x100404 = Inr 74"
  "madt_chain acpi_mem0 0x10044A 0x10042C [0x10042C, 0x100434, 0x100440]"
  "filter (is_ioapic0 acpi_mem0) [0x10042C, 0x100434, 0x100440] = [0x100434]"
  "filter (is_override acpi_mem0) [0x10042C, 0x100434, 0x100440] = [0x100440]"
proof -
  show "load32 acpi_mem0 0x100404 = Inr 74" by (simp add: acpi_eval)
  show "madt_chain acpi_mem0 0x10044A 0x10042C [0x10042C, 0x100434, 0x100440]" using acpi_mem0_entries by simp
  have t: "\<not> is_override acpi_mem0 0x10042C" "\<not> is_override acpi_mem0 0x100434" "is_override acpi_mem0 0x100440"
    by (simp_all add: is_override_def acpi_eval)
  show "filter (is_ioapic0 acpi_mem0) [0x10042C, 0x100434, 0x100440] = [0x100434]"
    "filter (is_override acpi_mem0) [0x10042C, 0x100434, 0x100440] = [0x100440]"
    using t acpi_mem0_ioapics by simp_all
qed

theorem ParseMADT_finds_ioapic_witness:
  "ParseMADT acpi_mem0 0x100400 \<lparr>IOAPICData = 0, madt_log = []\<rparr> = Inr \<lparr>IOAPICData = 0x100434, madt_log = [override_message]\<rparr>"
  using ParseMADT_finds_ioapic [of acpi_mem0 "0x100400" 74 "[0x10042C, 0x100434, 0x100440]" "\<lparr>IOAPICData = 0, madt_log = []\<rparr>"]
    acpi_mem0_madt by (simp del: filter.simps madt_chain.simps)

text \<open>A chain and its I/O APICs are the same in a memory that maps more.\<close>

lemma madt_step_le: "m \<subseteq>\<^sub>m m' \<Longrightarrow> madt_step m e a = Some b \<Longrightarrow> madt_step m' e a = Some b"
  using load_le(1,2) [of m m'] by (auto simp: madt_step_def split: if_splits sum.splits)

lemma madt_step_types:
  assumes "m \<subseteq>\<^sub>m m'" and "madt_step m e a = Some b"
  shows "is_ioapic0 m' a = is_ioapic0 m a" and "is_override m' a = is_override m a"
proof -
  obtain ty where ty: "load8 m a = Inr ty" "ty = 1 \<Longrightarrow> \<exists>v. load32 m (a + 8) = Inr v"
    using assms(2) by (auto simp: madt_step_def split: if_splits sum.splits)
  then show "is_ioapic0 m' a = is_ioapic0 m a" "is_override m' a = is_override m a"
    using load_le(1,2) [OF assms(1)] by (fastforce simp: is_ioapic0_def is_override_def)+
qed

lemma madt_chain_le:
  "m \<subseteq>\<^sub>m m' \<Longrightarrow> madt_chain m e a as \<Longrightarrow>
    madt_chain m' e a as \<and> filter (is_ioapic0 m') as = filter (is_ioapic0 m) as \<and>
    filter (is_override m') as = filter (is_override m) as"
proof (induction "as" arbitrary: a)
  case (Cons x xs)
  then obtain b where b: "madt_step m e a = Some b" "madt_chain m e b xs" "x = a" by (auto split: option.splits)
  then show ?case
    using Cons.IH [OF Cons.prems(1) b(2)] madt_step_le [OF Cons.prems(1) b(1)] madt_step_types [OF Cons.prems(1) b(1)] by simp
qed simp

section \<open>When the walk never ends\<close>

definition madt_edge :: "mem \<Rightarrow> u64 \<Rightarrow> u64 \<Rightarrow> u64 \<Rightarrow> bool" where
  "madt_edge m e a b \<longleftrightarrow> madt_step m e a = Some b"

text \<open>One turn of the body on an entry that steps.\<close>

lemma madt_body_step:
  assumes "madt_step m e a = Some b"
  shows "\<exists>len. and_then (load8 m a) (\<lambda>ty. and_then (madt_case m a ty st) (\<lambda>st.
      and_then (load8 m (a + 1)) (\<lambda>len. Inr (len, st)))) = Inr (len, madt_apply m a st) \<and> a + ucast len = b \<and> a < e"
  using assms
  by (auto simp: madt_step_def madt_case_def madt_apply_def is_ioapic0_def is_override_def override_message_def
        MADTEntryIOAPIC_gsib_def split: sum.splits if_splits)

lemma madt_loop_self:
  assumes z: "madt_step m e z = Some z"
  shows "madt_loop m e z st = None"
proof -
  have "madt_step m e z = Some z \<longrightarrow> a \<noteq> z" if "madt_loop m e a st = Some r" for a st r
  proof (rule madt_loop.raw_induct [OF _ that], intro impI notI)
    fix loop m e a st r
    assume IH: "\<And>m e a st r. loop m e a st = Some r \<Longrightarrow> madt_step m e z = Some z \<longrightarrow> a \<noteq> z"
      and body: "(if a < e then case and_then (load8 m a) (\<lambda>ty. and_then (madt_case m a ty st) (\<lambda>st.
            and_then (load8 m (a + 1)) (\<lambda>len. Inr (len, st)))) of
          Inl err \<Rightarrow> Some (Inl err) | Inr r \<Rightarrow> loop m e (a + ucast (fst r)) (snd r) else Some (Inr st)) = Some r"
      and z: "madt_step m e z = Some z" and a: "a = z"
    from madt_body_step [OF z, of st] obtain len where
      "and_then (load8 m z) (\<lambda>ty. and_then (madt_case m z ty st) (\<lambda>st.
         and_then (load8 m (z + 1)) (\<lambda>len. Inr (len, st)))) = Inr (len, madt_apply m z st)" "z + ucast len = z" "z < e"
      by blast
    then have "loop m e z (madt_apply m z st) = Some r" using body a by (simp del: and_then.simps)
    then show False using IH z by blast
  qed
  then show ?thesis using z by (cases "madt_loop m e z st") auto
qed

lemma madt_loop_reach:
  assumes "(madt_edge m e)\<^sup>*\<^sup>* a z" and "madt_step m e z = Some z"
  shows "madt_loop m e a st = None"
  using assms(1)
proof (induction arbitrary: st rule: converse_rtranclp_induct)
  case base
  then show ?case by (rule madt_loop_self [OF assms(2)])
next
  case (step a b)
  then show ?case by (simp add: madt_edge_def madt_loop_step)
qed

lemma madt_step_forward:
  assumes "madt_step m e a = Some b" and "b \<noteq> a" and "unat e + 255 < 2 ^ 64"
  shows "unat a < unat b" and "a < e"
proof -
  from assms(1) obtain len :: u8 where b: "b = a + ucast len" and a: "a < e"
    by (auto simp: madt_step_def split: if_splits sum.splits)
  then show "a < e" by simp
  have u: "unat (ucast len :: u64) = unat len"
    using unat_u8_lt [of len] by (simp add: unsigned_ucast_eq take_bit_nat_eq_self del: unat_u8_lt)
  have "unat a < unat e" using a by (simp add: word_nat)
  moreover have "unat len < 256" by simp
  ultimately have "unat a + unat (ucast len :: u64) < 2 ^ 64" using assms(3) u by linarith
  then have "unat b = unat a + unat len" unfolding b using u by (simp add: unat_add64)
  moreover have "unat len \<noteq> 0" using assms(2) b by (auto simp: unat_eq_0)
  ultimately show "unat a < unat b" by simp
qed

lemma madt_loop_ends:
  assumes "unat e + 255 < 2 ^ 64" and "\<And>z. (madt_edge m e)\<^sup>*\<^sup>* a z \<Longrightarrow> madt_step m e z \<noteq> Some z"
  shows "madt_loop m e a st \<noteq> None"
  using assms(2)
proof (induction "unat e - unat a" arbitrary: a st rule: less_induct)
  case less
  show ?case
  proof (cases "madt_step m e a")
    case None
    then show ?thesis using madt_loop_stop [of a e m st] madt_loop_end [of a e m st] by (cases "a < e") auto
  next
    case (Some b)
    have "b \<noteq> a" using less.prems [of a] Some by auto
    note f = madt_step_forward [OF Some this assms(1)]
    have "unat a < unat e" using f(2) by (simp add: word_nat)
    then have "unat e - unat b < unat e - unat a" using f(1) by simp
    moreover have "madt_step m e z \<noteq> Some z" if "(madt_edge m e)\<^sup>*\<^sup>* b z" for z
      using less.prems [of z] that Some by (metis converse_rtranclp_into_rtranclp madt_edge_def)
    ultimately have "madt_loop m e b (madt_apply m a st) \<noteq> None" by (rule less.hyps)
    then show ?thesis using madt_loop_step [OF Some] by simp
  qed
qed

text \<open>C25: for a MADT that does not end in the last 255 bytes of the address space, ParseMADT fails to terminate exactly when
  following the entries' lengths reaches, inside the table, a readable entry of length 0; in every other
  case it returns or faults.\<close>

theorem ParseMADT_spins_iff:
  assumes "load32 m (madt + 4) = Inr len" and "unat (madt + ucast len) + 255 < 2 ^ 64"
  shows "(ParseMADT m madt st = Inl (Spins ''ParseMADT'') \<and> madt_loop m (madt + ucast len) (madt + 44) st = None) =
    (\<exists>z. (madt_edge m (madt + ucast len))\<^sup>*\<^sup>* (madt + 44) z \<and> madt_step m (madt + ucast len) z = Some z)"
proof
  assume "\<exists>z. (madt_edge m (madt + ucast len))\<^sup>*\<^sup>* (madt + 44) z \<and> madt_step m (madt + ucast len) z = Some z"
  then have "madt_loop m (madt + ucast len) (madt + 44) st = None" using madt_loop_reach by blast
  then show "ParseMADT m madt st = Inl (Spins ''ParseMADT'') \<and> madt_loop m (madt + ucast len) (madt + 44) st = None"
    using assms(1) by (simp add: ParseMADT_def ACPIHeader_length_def MADT_entries_def)
next
  assume "ParseMADT m madt st = Inl (Spins ''ParseMADT'') \<and> madt_loop m (madt + ucast len) (madt + 44) st = None"
  then show "\<exists>z. (madt_edge m (madt + ucast len))\<^sup>*\<^sup>* (madt + 44) z \<and> madt_step m (madt + ucast len) z = Some z"
    using madt_loop_ends [OF assms(2)] by blast
qed

text \<open>A MADT whose only entry has length 0.\<close>

definition madt_mem1 :: mem where
  "madt_mem1 = map_of (bytes_at 0x404 [60, 0, 0, 0] @ bytes_at 0x42C [5, 0, 0, 0, 0, 0, 0, 0, 0, 0, 0, 0])"

theorem ParseMADT_spins_iff_witness: "ParseMADT madt_mem1 0x400 \<lparr>IOAPICData = 0, madt_log = []\<rparr> = Inl (Spins ''ParseMADT'')"
proof -
  have l: "load32 madt_mem1 0x404 = Inr 60"
    by (simp add: madt_mem1_def load32_def load_bytes_numeral)
  have s: "madt_step madt_mem1 0x43C 0x42C = Some 0x42C"
    by (simp add: madt_mem1_def madt_step_def load8_def load32_def load_bytes_numeral)
  show ?thesis using ParseMADT_spins_iff [of madt_mem1 "0x400" 60 "\<lparr>IOAPICData = 0, madt_log = []\<rparr>"] l s by auto
qed

end
