(* ===== verification/Cpu.thy ===== *)
theory Cpu
  imports Machine_Memory
begin

text \<open>
  The processor state that the architecture code touches with inline assembly: model-specific
  registers, CPUID leaf 1, the descriptor-table registers, the segment selectors, the
  interrupt flag, and device registers that are mapped into memory. What a device answers to
  a read is a parameter that sees all writes made so far; writes are logged in order.
  Tables of numbered slots share the contract \<open>slots\<close>.
\<close>

section \<open>State\<close>

record cpu =
  cpuid1_ebx :: u32
  cpuid1_ecx :: u32
  msr :: "u32 \<Rightarrow> u64"
  msr_log :: "(u32 \<times> u64) list"
  gdtr :: "u16 \<times> u64"
  idtr :: "u16 \<times> u64"
  cs_sel :: u16
  data_sel :: u16
  interrupts_on :: bool
  cr3 :: u64
  mmio_in :: "(u64 \<times> u32) list \<Rightarrow> u64 \<Rightarrow> u32"
  mmio_log :: "(u64 \<times> u32) list"

definition IA32_GS_BASE :: u32 where
  "IA32_GS_BASE = 0xC0000101"

section \<open>Instructions\<close>

text \<open>\<^verbatim>\<open>wrmsr\<close> with the value in edx:eax, \<^verbatim>\<open>rdmsr\<close> into them.\<close>

definition wrmsr :: "u32 \<Rightarrow> u32 \<Rightarrow> u32 \<Rightarrow> cpu \<Rightarrow> cpu" where
  "wrmsr ecx eax edx c =
     (let v = push_bit 32 (ucast edx) OR ucast eax
      in c\<lparr>msr := (msr c)(ecx := v), msr_log := msr_log c @ [(ecx, v)]\<rparr>)"

definition rdmsr :: "u32 \<Rightarrow> cpu \<Rightarrow> u32 \<times> u32" where
  "rdmsr ecx c = (ucast (msr c ecx), ucast (drop_bit 32 (msr c ecx)))"

definition mmio_write :: "u64 \<Rightarrow> u32 \<Rightarrow> cpu \<Rightarrow> cpu" where
  "mmio_write a v c = c\<lparr>mmio_log := mmio_log c @ [(a, v)]\<rparr>"

definition mmio_read :: "u64 \<Rightarrow> cpu \<Rightarrow> u32" where
  "mmio_read a c = mmio_in c (mmio_log c) a"

definition sti :: "cpu \<Rightarrow> cpu" where
  "sti c = c\<lparr>interrupts_on := True\<rparr>"

definition cli :: "cpu \<Rightarrow> cpu" where
  "cli c = c\<lparr>interrupts_on := False\<rparr>"

lemma wrmsr_simps [simp]:
  "msr (wrmsr r lo hi c) = (msr c)(r := push_bit 32 (ucast hi) OR ucast lo)"
  "msr_log (wrmsr r lo hi c) = msr_log c @ [(r, push_bit 32 (ucast hi) OR ucast lo)]"
  "mmio_log (wrmsr r lo hi c) = mmio_log c" "interrupts_on (wrmsr r lo hi c) = interrupts_on c"
  "cr3 (wrmsr r lo hi c) = cr3 c" "mmio_in (wrmsr r lo hi c) = mmio_in c"
  "cpuid1_ecx (wrmsr r lo hi c) = cpuid1_ecx c" "cpuid1_ebx (wrmsr r lo hi c) = cpuid1_ebx c"
  "idtr (wrmsr r lo hi c) = idtr c" "gdtr (wrmsr r lo hi c) = gdtr c" "cs_sel (wrmsr r lo hi c) = cs_sel c"
  by (simp_all add: wrmsr_def Let_def)

lemma mmio_write_simps [simp]:
  "mmio_log (mmio_write a v c) = mmio_log c @ [(a, v)]" "msr (mmio_write a v c) = msr c"
  "msr_log (mmio_write a v c) = msr_log c" "interrupts_on (mmio_write a v c) = interrupts_on c"
  "cr3 (mmio_write a v c) = cr3 c" "mmio_in (mmio_write a v c) = mmio_in c"
  "cpuid1_ecx (mmio_write a v c) = cpuid1_ecx c" "cpuid1_ebx (mmio_write a v c) = cpuid1_ebx c"
  "idtr (mmio_write a v c) = idtr c" "gdtr (mmio_write a v c) = gdtr c" "cs_sel (mmio_write a v c) = cs_sel c"
  by (simp_all add: mmio_write_def)

text \<open>A 64-bit value split into its halves and written with \<^verbatim>\<open>wrmsr\<close> arrives whole.\<close>

lemma join_halves: "push_bit 32 (ucast (ucast (drop_bit 32 a) :: u32)) OR ucast (ucast a :: u32) = (a :: u64)"
  by (rule bit_word_eqI) (auto simp: bit_simps)

text \<open>A processor for the witnesses: no interrupts, an identity page-table base, an x2APIC, quiet devices.\<close>

definition cpu0 :: cpu where
  "cpu0 = \<lparr>cpuid1_ebx = 0x03000000, cpuid1_ecx = 0x200000, msr = (\<lambda>_. 0), msr_log = [], gdtr = (0, 0), idtr = (0, 0),
     cs_sel = 0, data_sel = 0, interrupts_on = False, cr3 = 0, mmio_in = (\<lambda>_ _. 0), mmio_log = []\<rparr>"

section \<open>Tables of numbered slots\<close>

text \<open>
  A table has \<open>n\<close> slots; storing a valid \<open>v\<close> in slot \<open>i\<close> makes the slot read as \<open>enc v\<close> and
  keeps every other slot.
\<close>

locale slots =
  fixes n :: nat and put :: "nat \<Rightarrow> 'v \<Rightarrow> 't \<Rightarrow> 't res" and get :: "'t \<Rightarrow> nat \<Rightarrow> 'e" and enc :: "'v \<Rightarrow> 'e"
    and ok :: "'t \<Rightarrow> bool" and valid :: "'v \<Rightarrow> bool"
  assumes put_ok: "ok t \<Longrightarrow> i < n \<Longrightarrow> valid v \<Longrightarrow> \<exists>t'. put i v t = Inr t' \<and> ok t' \<and> get t' i = enc v \<and>
    (\<forall>j. j \<noteq> i \<longrightarrow> get t' j = get t j)"
begin

text \<open>A loop over distinct slots fills exactly those.\<close>

lemma fill:
  assumes "ok t" and "distinct is" and "\<forall>i \<in> set is. i < n \<and> valid (f i)"
  shows "\<exists>t'. for_each (\<lambda>i. put i (f i)) is t = Inr t' \<and> ok t' \<and>
    (\<forall>i. get t' i = (if i \<in> set is then enc (f i) else get t i))"
  using assms
proof (induction "is" arbitrary: t)
  case Nil
  then show ?case by simp
next
  case (Cons i "is")
  have "i < n" "valid (f i)" using Cons.prems(3) by simp_all
  from put_ok [OF Cons.prems(1) this] obtain u where
    u: "put i (f i) t = Inr u" "ok u" "get u i = enc (f i)" "\<forall>j. j \<noteq> i \<longrightarrow> get u j = get t j" by blast
  obtain t' where t': "for_each (\<lambda>i. put i (f i)) is u = Inr t'" "ok t'"
      "\<forall>j. get t' j = (if j \<in> set is then enc (f j) else get u j)"
    using Cons.IH [OF u(2)] Cons.prems(2,3) by auto
  have "\<forall>j. get t' j = (if j \<in> set (i # is) then enc (f j) else get t j)"
    using t'(3) u(3,4) Cons.prems(2) by (auto split: if_splits)
  then show ?case using u(1) t'(1,2) by auto
qed

end

end
