(* ===== verification/Serial.thy ===== *)
theory Serial
  imports Prelude
begin

text \<open>
  Port input and output (\<^verbatim>\<open>io/ports.asm\<close>, \<^verbatim>\<open>io/ports.hpp\<close>) and the serial driver
  (\<^verbatim>\<open>kernel/arch/x86_64/console/serial.cpp\<close>). The device side of the ports is a
  parameter: what a read of a port returns at each moment. Writes are logged in order.
\<close>

section \<open>Ports\<close>

record ports =
  port_in :: "nat \<Rightarrow> u16 \<Rightarrow> u8"
  port_now :: nat
  port_log :: "(u16 \<times> u8) list"

definition inb :: "u16 \<Rightarrow> ports \<Rightarrow> u8 \<times> ports" where
  "inb port s = (port_in s (port_now s) port, s\<lparr>port_now := Suc (port_now s)\<rparr>)"

definition outb :: "u16 \<Rightarrow> u8 \<Rightarrow> ports \<Rightarrow> ports" where
  "outb port val s = s\<lparr>port_now := Suc (port_now s), port_log := port_log s @ [(port, val)]\<rparr>"

text \<open>The 16-bit accesses, which no code of the kernel calls, with the device's answers and the log of their own width.\<close>

record wide_ports = ports +
  port_in16 :: "nat \<Rightarrow> u16 \<Rightarrow> u16"
  port_log16 :: "(u16 \<times> u16) list"

definition inw :: "u16 \<Rightarrow> wide_ports \<Rightarrow> u16 \<times> wide_ports" where
  "inw port s = (port_in16 s (port_now s) port, s\<lparr>port_now := Suc (port_now s)\<rparr>)"

definition outw :: "u16 \<Rightarrow> u16 \<Rightarrow> wide_ports \<Rightarrow> wide_ports" where
  "outw port val s = s\<lparr>port_now := Suc (port_now s), port_log16 := port_log16 s @ [(port, val)]\<rparr>"

text \<open>C string literals as bytes.\<close>

definition cstr :: "string \<Rightarrow> u8 list" where
  "cstr s = map of_char s"

lemma cstr_simps [simp]:
  "cstr [] = []" "cstr (c # s) = of_char c # cstr s" "cstr (s @ t) = cstr s @ cstr t"
  by (simp_all add: cstr_def)

section \<open>The driver\<close>

definition COM1 :: u16 where
  "COM1 = 0x3F8"

text \<open>The wait for the transmitter: None when it never becomes ready.\<close>

partial_function (option) serial_wait :: "ports \<Rightarrow> ports option" where
  "serial_wait s =
     (let (status, s') = inb (COM1 + 5) s
      in if status AND 0x20 = 0 then serial_wait s' else Some s')"

definition Serial_PrintChar :: "u8 \<Rightarrow> ports \<Rightarrow> ports res" where
  "Serial_PrintChar c s =
     (case serial_wait s of None \<Rightarrow> Inl (Spins ''Serial::PrintChar'') | Some s \<Rightarrow> Inr (outb COM1 c s))"

definition SerialPrintString :: "u8 list \<Rightarrow> ports \<Rightarrow> ports res" where
  "SerialPrintString str = for_each Serial_PrintChar str"

definition Serial_Init :: "ports \<Rightarrow> ports res" where
  "Serial_Init s =
     (let s = outb (COM1 + 1) 0 s;
          (b, s) = inb (COM1 + 3) s;
          s = outb (COM1 + 3) (b OR 0x80) s;
          s = outb (COM1 + 0) 0x03 s;
          s = outb (COM1 + 1) 0x00 s;
          (b, s) = inb (COM1 + 3) s;
          s = outb (COM1 + 3) (b AND NOT 0x80) s;
          s = outb (COM1 + 3) 0x03 s;
          s = outb (COM1 + 2) 0xC7 s;
          s = outb (COM1 + 2) 0x08 s
      in SerialPrintString ([27] @ cstr ''[2J'' @ [27] @ cstr ''[H'') s)"

section \<open>What the driver sends\<close>

text \<open>The transmitter is ready at moment \<open>t\<close>; it becomes ready again and again.\<close>

definition uart_ready :: "ports \<Rightarrow> nat \<Rightarrow> bool" where
  "uart_ready s t \<longleftrightarrow> port_in s t (COM1 + 5) AND 0x20 \<noteq> 0"

definition uart_alive :: "ports \<Rightarrow> bool" where
  "uart_alive s \<longleftrightarrow> (\<forall>n. \<exists>t. n \<le> t \<and> uart_ready s t)"

text \<open>What has been sent to the data port.\<close>

definition sent :: "ports \<Rightarrow> u8 list" where
  "sent s = map snd (filter (\<lambda>(p, _). p = COM1) (port_log s))"

lemma sent_outb: "sent (outb p v s) = sent s @ (if p = COM1 then [v] else [])"
  by (simp add: sent_def outb_def)

lemma sent_now [simp]: "sent (s\<lparr>port_now := t\<rparr>) = sent s"
  by (simp add: sent_def)

lemma uart_alive_cong: "port_in s' = port_in s \<Longrightarrow> uart_alive s' = uart_alive s"
  by (simp add: uart_alive_def uart_ready_def)

lemma inb_simps [simp]:
  "port_in (snd (inb p s)) = port_in s" "port_log (snd (inb p s)) = port_log s"
  by (simp_all add: inb_def)

lemma outb_simps [simp]:
  "port_in (outb p v s) = port_in s" "port_log (outb p v s) = port_log s @ [(p, v)]"
  by (simp_all add: outb_def)

lemma serial_wait_step:
  "serial_wait s = (if uart_ready s (port_now s) then Some (s\<lparr>port_now := Suc (port_now s)\<rparr>)
     else serial_wait (s\<lparr>port_now := Suc (port_now s)\<rparr>))"
  by (subst serial_wait.simps) (simp add: inb_def uart_ready_def)

text \<open>
  A busy wait on a status port: it looks once per moment and ends at the first moment the device
  is ready, if there is one.
\<close>

locale polling =
  fixes wait :: "ports \<Rightarrow> ports option" and ready :: "ports \<Rightarrow> nat \<Rightarrow> bool"
  assumes step: "wait s = (if ready s (port_now s) then Some (s\<lparr>port_now := Suc (port_now s)\<rparr>)
      else wait (s\<lparr>port_now := Suc (port_now s)\<rparr>))"
    and ready_now: "ready (s\<lparr>port_now := n\<rparr>) t = ready s t"
    and sound: "wait s = Some s' \<Longrightarrow> \<exists>t \<ge> port_now s. ready s t"
begin

lemma ends:
  "port_now s \<le> t \<Longrightarrow> ready s t \<Longrightarrow> \<exists>n. port_now s < n \<and> wait s = Some (s\<lparr>port_now := n\<rparr>)"
proof (induction "t - port_now s" arbitrary: s)
  case 0
  then have "t = port_now s" by simp
  then show ?case using 0 step [of s] by auto
next
  case (Suc k)
  show ?case
  proof (cases "ready s (port_now s)")
    case False
    let ?s = "s\<lparr>port_now := Suc (port_now s)\<rparr>"
    have "port_now s \<noteq> t" using False Suc.prems(2) by auto
    then have "\<exists>n. port_now ?s < n \<and> wait ?s = Some (?s\<lparr>port_now := n\<rparr>)"
      using Suc.hyps(2) Suc.prems by (intro Suc.hyps(1)) (auto simp: ready_now)
    then obtain n where "Suc (port_now s) < n" "wait ?s = Some (?s\<lparr>port_now := n\<rparr>)" by auto
    then show ?thesis using False step [of s] by (intro exI [of _ n]) simp
  qed (use step [of s] in auto)
qed

text \<open>The wait returns exactly when the device becomes ready at some moment from now on.\<close>

lemma ends_iff: "(\<exists>n. wait s = Some (s\<lparr>port_now := n\<rparr>)) \<longleftrightarrow> (\<exists>t \<ge> port_now s. ready s t)"
  using ends [of s] sound [of s] by blast

lemma spins_iff: "wait s = None \<longleftrightarrow> \<not> (\<exists>t \<ge> port_now s. ready s t)"
  using ends [of s] sound [of s] by (cases "wait s") fastforce+

end

lemma serial_wait_SomeD:
  assumes "serial_wait s = Some s'"
  shows "\<exists>t \<ge> port_now s. uart_ready s t"
  by (rule serial_wait.raw_induct [OF _ assms])
     (fastforce simp: Let_def inb_def uart_ready_def split: if_splits dest: Suc_leD)

interpretation serial: polling serial_wait uart_ready
  by unfold_locales (rule serial_wait_step, simp add: uart_ready_def, drule serial_wait_SomeD, blast)

lemma Serial_PrintChar_alive:
  assumes "uart_alive s"
  shows "\<exists>n. Serial_PrintChar c s = Inr (outb COM1 c (s\<lparr>port_now := n\<rparr>))"
proof -
  obtain t where "port_now s \<le> t" "uart_ready s t" using assms by (auto simp: uart_alive_def)
  from serial.ends [OF this] show ?thesis by (auto simp: Serial_PrintChar_def)
qed

lemma SerialPrintString_alive:
  "uart_alive s \<Longrightarrow> \<exists>s'. SerialPrintString str s = Inr s' \<and> port_in s' = port_in s \<and>
    port_log s' = port_log s @ map (Pair COM1) str"
proof (induction str arbitrary: s)
  case Nil
  then show ?case by (simp add: SerialPrintString_def)
next
  case (Cons c str)
  obtain n where n: "Serial_PrintChar c s = Inr (outb COM1 c (s\<lparr>port_now := n\<rparr>))"
    using Serial_PrintChar_alive [OF Cons.prems] by blast
  let ?s = "outb COM1 c (s\<lparr>port_now := n\<rparr>)"
  have "uart_alive ?s" using Cons.prems uart_alive_cong [of ?s s] by simp
  from Cons.IH [OF this] n show ?case by (auto simp: SerialPrintString_def)
qed

section \<open>Properties\<close>

text \<open>C33: Serial::PrintChar returns exactly when the transmitter becomes ready at some later
  moment; it then has sent the one character and nothing else. Otherwise it spins.\<close>

theorem Serial_PrintChar_returns_iff_ready:
  "(\<exists>s'. Serial_PrintChar c s = Inr s' \<and> port_log s' = port_log s @ [(COM1, c)]) =
     (\<exists>t. port_now s \<le> t \<and> uart_ready s t) \<and>
   (Serial_PrintChar c s = Inl (Spins ''Serial::PrintChar'')) =
     (\<not> (\<exists>t. port_now s \<le> t \<and> uart_ready s t))"
proof (cases "serial_wait s")
  case None
  then have "\<not> (\<exists>t. port_now s \<le> t \<and> uart_ready s t)" using serial.spins_iff [of s] by blast
  then show ?thesis using None by (simp add: Serial_PrintChar_def)
next
  case (Some s')
  from serial_wait_SomeD [OF this] have t: "\<exists>t. port_now s \<le> t \<and> uart_ready s t" by blast
  then obtain n where "serial_wait s = Some (s\<lparr>port_now := n\<rparr>)" using serial.ends by blast
  then show ?thesis using t by (simp add: Serial_PrintChar_def)
qed


text \<open>With a transmitter that becomes ready again and again, Serial::Init ends; the divisor
  latch is open for the two divisor bytes only, and after the line, FIFO and modem settings the
  clear-screen sequence goes to the data port.\<close>

lemma Serial_Init_sequence:
  assumes "uart_alive s"
  shows "\<exists>s' b b'. Serial_Init s = Inr s' \<and> port_in s' = port_in s \<and> port_log s' = port_log s @
    [(COM1 + 1, 0), (COM1 + 3, b OR 0x80), (COM1, 3), (COM1 + 1, 0), (COM1 + 3, b' AND NOT 0x80),
     (COM1 + 3, 3), (COM1 + 2, 0xC7), (COM1 + 2, 8)] @ map (Pair COM1) [27, 91, 50, 74, 27, 91, 72]"
proof -
  have fin: "\<exists>s'. SerialPrintString str t = Inr s' \<and> port_in s' = port_in s \<and>
      port_log s' = port_log t @ map (Pair COM1) str" if "port_in t = port_in s" for t str
    using SerialPrintString_alive [of t str] assms uart_alive_cong [OF that] that by simp
  define t where "t = s\<lparr>port_now := port_now s + 10, port_log := port_log s @
    [(COM1 + 1, 0), (COM1 + 3, port_in s (Suc (port_now s)) (COM1 + 3) OR 0x80), (COM1, 3), (COM1 + 1, 0),
     (COM1 + 3, port_in s (port_now s + 5) (COM1 + 3) AND NOT 0x80), (COM1 + 3, 3), (COM1 + 2, 0xC7),
     (COM1 + 2, 8)]\<rparr>"
  have "Serial_Init s = SerialPrintString [27, 91, 50, 74, 27, 91, 72] t"
    by (simp add: Serial_Init_def Let_def inb_def outb_def t_def numeral_eq_Suc)
  moreover have "port_in t = port_in s" by (simp add: t_def)
  ultimately show ?thesis using fin [of t] by (fastforce simp: t_def)
qed

text \<open>A transmitter that is ready at every third moment.\<close>

definition slow_uart :: ports where
  "slow_uart = \<lparr>port_in = (\<lambda>t p. if t mod 3 = 0 then 0x20 else 0), port_now = 1, port_log = []\<rparr>"

lemma slow_uart_alive: "uart_alive slow_uart"
  unfolding uart_alive_def
proof
  fix n
  show "\<exists>t. n \<le> t \<and> uart_ready slow_uart t"
    by (rule exI [of _ "3 * n"]) (simp add: uart_ready_def slow_uart_def)
qed

lemma Serial_Init_sequence_witness:
  "\<exists>s'. Serial_Init slow_uart = Inr s' \<and> length (port_log s') = 15"
  using Serial_Init_sequence [OF slow_uart_alive] by (auto simp: slow_uart_def)

end
