(* ===== verification/Utils.thy ===== *)
theory Utils
  imports Machine_Memory
begin

text \<open>
  \<^verbatim>\<open>kernel/include/utils.hpp\<close> and \<^verbatim>\<open>kernel/math.cpp\<close>: the byte routines
  memset and memcpy, the string comparison the mount table and the module search
  use, the two-dimensional vector and the clamp.
\<close>

record Vector2 =
  vx :: u64
  vy :: u64

section \<open>memset and memcpy\<close>

definition memset :: "mem \<Rightarrow> u64 \<Rightarrow> u32 \<Rightarrow> u64 \<Rightarrow> (u64 \<times> mem) res" where
  "memset m dest ch count =
     and_then (for_each (\<lambda>i m. store8 m (dest + of_nat i) (ucast ch)) [0..<unat count] m)
       (\<lambda>m. Inr (dest, m))"

definition memcpy :: "mem \<Rightarrow> u64 \<Rightarrow> u64 \<Rightarrow> u64 \<Rightarrow> (u64 \<times> mem) res" where
  "memcpy m dest src n =
     and_then
       (for_each (\<lambda>i m. and_then (load8 m (src + of_nat i)) (store8 m (dest + of_nat i)))
          [0..<unat n] m)
       (\<lambda>m. Inr (dest, m))"

lemma put_bytes_Nil [simp]: "put_bytes m a [] = m"
  by (simp add: put_bytes_def in_region_def)

lemma put_bytes_snoc:
  assumes "length bs < 2 ^ 64"
  shows "put_bytes m a (bs @ [b]) = (put_bytes m a bs)(a + of_nat (length bs) \<mapsto> b)"
proof
  fix x
  show "put_bytes m a (bs @ [b]) x = ((put_bytes m a bs)(a + of_nat (length bs) \<mapsto> b)) x"
  proof (cases "x = a + of_nat (length bs)")
    case True
    with assms show ?thesis by (simp add: put_bytes_def unat_of_nat64)
  next
    case False
    moreover have "x = a + of_nat (unat (x - a))" by simp
    ultimately have "unat (x - a) \<noteq> length bs" by metis
    with False show ?thesis by (auto simp: put_bytes_def in_region_def nth_append)
  qed
qed

lemma fill_loop:
  assumes "mapped m a n" and "n < 2 ^ 64"
  shows "for_each (\<lambda>i m. store8 m (a + of_nat i) b) [0..<n] m = Inr (put_bytes m a (replicate n b))"
  using assms
proof (induction n)
  case 0
  then show ?case by simp
next
  case (Suc n)
  let ?m = "put_bytes m a (replicate n b)"
  have "mapped m a n" using Suc.prems(1) by (rule mapped_mono) simp
  then have IH: "for_each (\<lambda>i m. store8 m (a + of_nat i) b) [0..<n] m = Inr ?m"
    using Suc by simp
  have "?m (a + of_nat n) \<noteq> None"
    using Suc.prems by (simp add: put_bytes_def mapped_iff)
  then have "store8 ?m (a + of_nat n) b = Inr (?m(a + of_nat n \<mapsto> b))"
    by (simp add: store8_eq_Inr)
  moreover have "?m(a + of_nat n \<mapsto> b) = put_bytes m a (replicate (Suc n) b)"
    using Suc.prems(2) put_bytes_snoc [of "replicate n b" m a b]
    by (simp add: replicate_append_same)
  ultimately show ?case using IH by (simp add: for_each_append)
qed

lemma memset_result:
  assumes "mapped m dest (unat count)"
  shows "memset m dest ch count = Inr (dest, put_bytes m dest (replicate (unat count) (ucast ch)))"
  using fill_loop [OF assms, of "ucast ch"] by (simp add: memset_def)

lemma copy_loop:
  assumes "mapped m src n" and "mapped m dest n" and "n < 2 ^ 64"
    and "region src n \<inter> region dest n = {}"
  shows "for_each (\<lambda>i m. and_then (load8 m (src + of_nat i)) (store8 m (dest + of_nat i))) [0..<n] m
       = Inr (put_bytes m dest (get_bytes m src n))"
  using assms
proof (induction n)
  case 0
  then show ?case by simp
next
  case (Suc n)
  let ?body = "\<lambda>i m. and_then (load8 m (src + of_nat i)) (store8 m (dest + of_nat i))"
  let ?m = "put_bytes m dest (get_bytes m src n)"
  let ?b = "the (m (src + of_nat n))"
  have sub: "region src n \<inter> region dest n = {}"
    using Suc.prems(4) by (auto simp: in_region_def set_eq_iff less_Suc_eq)
  have IH: "for_each ?body [0..<n] m = Inr ?m"
    by (rule Suc.IH) (use Suc.prems sub in \<open>auto intro: mapped_mono\<close>)
  have "src + of_nat n \<in> region src (Suc n)" using Suc.prems(3) by simp
  then have "src + of_nat n \<notin> region dest (Suc n)" using Suc.prems(4) by blast
  then have "\<not> in_region dest n (src + of_nat n)"
    using in_region_mono [of dest n _ "Suc n"] by auto
  then have "?m (src + of_nat n) = Some ?b"
    using Suc.prems(1) by (auto simp: put_bytes_def mapped_iff)
  then have ld: "load8 ?m (src + of_nat n) = Inr ?b" by (simp add: load8_eq_Inr)
  have "?m (dest + of_nat n) \<noteq> None"
    using Suc.prems by (simp add: put_bytes_def mapped_iff)
  then have st: "store8 ?m (dest + of_nat n) ?b = Inr (?m(dest + of_nat n \<mapsto> ?b))"
    by (simp add: store8_eq_Inr)
  have "?m(dest + of_nat n \<mapsto> ?b) = put_bytes m dest (get_bytes m src (Suc n))"
    using Suc.prems(3) put_bytes_snoc [of "get_bytes m src n" m dest ?b]
    by (simp add: get_bytes_def)
  with IH ld st show ?case by (simp add: for_each_append)
qed

lemma memcpy_result:
  assumes "mapped m src (unat n)" and "mapped m dest (unat n)"
    and "region src (unat n) \<inter> region dest (unat n) = {}"
  shows "memcpy m dest src n = Inr (dest, put_bytes m dest (get_bytes m src (unat n)))"
  using copy_loop [OF assms(1,2) _ assms(3)] by (simp add: memcpy_def)

section \<open>strcmp\<close>

text \<open>
  The loop of strcmp has no bound of its own; it is left at the first difference or at
  the end of \<open>s1\<close>. None is a run that never leaves it.
\<close>

partial_function (option) strcmp_loop :: "mem \<Rightarrow> u64 \<Rightarrow> u64 \<Rightarrow> bl res option" where
  "strcmp_loop m s1 s2 =
     (case load8 m s1 of Inl e \<Rightarrow> Some (Inl e)
      | Inr c1 \<Rightarrow>
        (case load8 m s2 of Inl e \<Rightarrow> Some (Inl e)
         | Inr c2 \<Rightarrow>
           if c1 \<noteq> 0 \<and> c1 = c2 then strcmp_loop m (s1 + 1) (s2 + 1)
           else Some (Inr (to_bl (c1 = c2)))))"

definition strcmp :: "mem \<Rightarrow> u64 \<Rightarrow> u64 \<Rightarrow> bl res" where
  "strcmp m s1 s2 = (case strcmp_loop m s1 s2 of None \<Rightarrow> Inl (Spins ''strcmp'') | Some r \<Rightarrow> r)"

text \<open>The bytes at an address are a NUL-terminated string.\<close>

fun cstring_at :: "mem \<Rightarrow> u64 \<Rightarrow> u8 list \<Rightarrow> bool" where
  "cstring_at m p [] \<longleftrightarrow> m p = Some 0"
| "cstring_at m p (c # cs) \<longleftrightarrow> c \<noteq> 0 \<and> m p = Some c \<and> cstring_at m (p + 1) cs"

lemma cstring_at_first: "cstring_at m p s \<Longrightarrow> \<exists>c. m p = Some c"
  by (cases s) auto

lemma cstring_at_le: "m \<subseteq>\<^sub>m m' \<Longrightarrow> cstring_at m p s \<Longrightarrow> cstring_at m' p s"
  by (induction s arbitrary: p) (auto simp: map_le_def dom_def)

lemma strcmp_loop_result:
  "cstring_at m p s \<Longrightarrow> cstring_at m q t \<Longrightarrow> strcmp_loop m p q = Some (Inr (to_bl (s = t)))"
proof (induction s arbitrary: p q t)
  case Nil
  then show ?case by (cases t) (simp_all add: strcmp_loop.simps [of m p q] load8_def)
next
  case (Cons c s)
  show ?case
  proof (cases t)
    case Nil
    with Cons.prems show ?thesis by (simp add: strcmp_loop.simps [of m p q] load8_def)
  next
    case (Cons d t')
    with Cons.prems Cons.IH [of "p + 1" "q + 1" t'] show ?thesis
      by (simp add: strcmp_loop.simps [of m p q] load8_def)
  qed
qed

lemma strcmp_result:
  "cstring_at m p s \<Longrightarrow> cstring_at m q t \<Longrightarrow> strcmp m p q = Inr (to_bl (s = t))"
  by (simp add: strcmp_def strcmp_loop_result)

text \<open>The first byte behind the second pointer is always read.\<close>

lemma strcmp_second_unmapped:
  "m p \<noteq> None \<Longrightarrow> m q = None \<Longrightarrow> strcmp m p q = Inl (PageFault q)"
  by (auto simp: strcmp_def strcmp_loop.simps [of m p q] load8_def)

lemma strcmp_first_unmapped: "m p = None \<Longrightarrow> strcmp m p q = Inl (PageFault p)"
  by (simp add: strcmp_def strcmp_loop.simps [of m p q] load8_def)

section \<open>Clamp\<close>

definition Clamp :: "u64 \<Rightarrow> u64 \<Rightarrow> u64 \<Rightarrow> u64" where
  "Clamp mn mx val = (if val > mx then mx else if val < mn then mn else val)"

lemma Clamp_range: "mn \<le> mx \<Longrightarrow> mn \<le> Clamp mn mx v \<and> Clamp mn mx v \<le> mx"
  by (auto simp: Clamp_def)

lemma Clamp_id: "mn \<le> v \<Longrightarrow> v \<le> mx \<Longrightarrow> Clamp mn mx v = v"
  by (auto simp: Clamp_def)

lemma Clamp_0: "Clamp 0 mx v = min v mx"
  by (auto simp: Clamp_def min_def)

section \<open>Properties\<close>

text \<open>Strcmp on two NUL-terminated strings ends, returns true exactly when they are equal byte
  for byte, and faults nowhere.\<close>

lemma strcmp_decides_equality:
  assumes "cstring_at m s1 xs" and "cstring_at m s2 ys"
  shows "strcmp m s1 s2 = Inr (to_bl (xs = ys))"
  by (rule strcmp_result [OF assms])

lemma strcmp_decides_equality_witness:
  "strcmp (map_of [(1, 102), (2, 115), (3, 0), (8, 102), (9, 0)]) 1 8 = Inr kfalse"
  using strcmp_decides_equality [of "map_of [(1, 102), (2, 115), (3, 0), (8, 102), (9, 0)]" 1 "[102, 115]" 8 "[102]"]
  by (simp add: to_bl_def)

text \<open>Memcpy between disjoint mapped ranges returns the destination, leaves the source bytes
  in it and every other byte as it was.\<close>

lemma memcpy_copies:
  assumes "mapped m src (unat n)" and "mapped m dest (unat n)"
    and "region src (unat n) \<inter> region dest (unat n) = {}"
  shows "\<exists>m'. memcpy m dest src n = Inr (dest, m') \<and>
    (\<forall>i < unat n. m' (dest + of_nat i) = m (src + of_nat i)) \<and>
    (\<forall>x. \<not> in_region dest (unat n) x \<longrightarrow> m' x = m x)"
proof -
  have lt: "i < 2 ^ 64" if "i < unat n" for i
    using that unat_u64_lt [of n] by (simp del: unat_u64_lt)
  let ?m = "put_bytes m dest (get_bytes m src (unat n))"
  have "?m (dest + of_nat i) = m (src + of_nat i)" if "i < unat n" for i
  proof -
    have "m (src + of_nat i) \<noteq> None" using assms(1) that by (simp add: mapped_iff)
    then show ?thesis using that lt [OF that] by (auto simp: put_bytes_def unat_of_nat64)
  qed
  moreover have "?m x = m x" if "\<not> in_region dest (unat n) x" for x
    using that by (simp add: put_bytes_def)
  ultimately show ?thesis using memcpy_result [OF assms] by blast
qed

lemma memcpy_copies_witness:
  "\<exists>m'. memcpy (map_of [(1, 7), (2, 9), (16, 0), (17, 0)]) 16 1 2 = Inr (16, m') \<and> m' 16 = Some 7 \<and> m' 17 = Some 9"
proof -
  let ?m = "map_of [(1, 7), (2, 9), (16, 0), (17, 0)] :: mem"
  have two: "\<And>P. (\<forall>i < (2 :: nat). P i) \<longleftrightarrow> P 0 \<and> P 1" by (auto simp: numeral_2_eq_2 All_less_Suc)
  have "mapped ?m 1 (unat (2 :: u64))" "mapped ?m 16 (unat (2 :: u64))" by (simp_all add: mapped_iff two)
  moreover have "region 1 (unat (2 :: u64)) \<inter> region 16 (unat (2 :: u64)) = {}"
    using in_region_Suc [of 1 1] in_region_Suc [of 1 16]
    by (auto simp: in_region_1 numeral_2_eq_2 [symmetric])
  ultimately show ?thesis using memcpy_copies [of ?m 1 2 16] by (auto simp: two)
qed

end
