(* ===== verification/Pmm.thy ===== *)
theory Pmm
  imports Utils
begin

text \<open>
  The physical memory manager, \<^verbatim>\<open>kernel/arch/x86_64/mem/pmm.cpp\<close>: one bit per
  4 KiB page in a bitmap that lives in memory, set for a page that is taken.
  \<^verbatim>\<open>Init\<close> builds the bitmap from Limine's memory map, \<^verbatim>\<open>AllocatePage\<close> hands
  out the lowest free page. What Init leaves free is stated against the pages that hold a byte of an entry, of which the code misses
  some. The locale \<open>bit_table\<close> is the contract of the bit operations the two are
  written with, the locale \<open>page_source\<close> the contract of the allocator towards the
  page tables and the heap.
\<close>

section \<open>State and memory map\<close>

text \<open>An entry of the memory map Limine hands over (\<^verbatim>\<open>limine.h\<close>).\<close>

record memmap_entry =
  base :: u64
  length_of :: u64
  type_of :: u64

definition LIMINE_MEMMAP_USABLE :: u64 where
  "LIMINE_MEMMAP_USABLE = 0"

definition usable :: "memmap_entry \<Rightarrow> bool" where
  "usable e \<longleftrightarrow> type_of e = LIMINE_MEMMAP_USABLE"

text \<open>The globals of pmm.cpp; the bits themselves are in memory at \<open>bitmap\<close>.\<close>

record pmm =
  bitmap :: u64
  total_pages :: u64
  bitmap_size :: u64

section \<open>The bitmap\<close>

definition SetBit :: "pmm \<Rightarrow> u64 \<Rightarrow> mem \<Rightarrow> mem res" where
  "SetBit s page_idx m =
     and_then (load8 m (bitmap s + page_idx div 8)) (\<lambda>b.
       store8 m (bitmap s + page_idx div 8) (b OR push_bit (unat (page_idx mod 8)) 1))"

definition ClearBit :: "pmm \<Rightarrow> u64 \<Rightarrow> mem \<Rightarrow> mem res" where
  "ClearBit s page_idx m =
     and_then (load8 m (bitmap s + page_idx div 8)) (\<lambda>b.
       store8 m (bitmap s + page_idx div 8) (b AND NOT (push_bit (unat (page_idx mod 8)) 1)))"

definition TestBit :: "pmm \<Rightarrow> u64 \<Rightarrow> mem \<Rightarrow> bl res" where
  "TestBit s page_idx m =
     and_then (load8 m (bitmap s + page_idx div 8)) (\<lambda>b.
       Inr (b AND push_bit (unat (page_idx mod 8)) 1))"

text \<open>The page's bit as the specification reads it.\<close>

definition page_used :: "pmm \<Rightarrow> mem \<Rightarrow> u64 \<Rightarrow> bool" where
  "page_used s m i = bit (the (m (bitmap s + i div 8))) (unat (i mod 8))"

text \<open>The first \<open>n\<close> bytes of the bitmap are mapped; other memory is as in \<open>m0\<close>.\<close>

definition bitmap_ok :: "pmm \<Rightarrow> nat \<Rightarrow> mem \<Rightarrow> mem \<Rightarrow> bool" where
  "bitmap_ok s n m0 m \<longleftrightarrow>
     mapped m (bitmap s) n \<and> dom m = dom m0 \<and> (\<forall>x. \<not> in_region (bitmap s) n x \<longrightarrow> m x = m0 x)"

definition in_bitmap :: "nat \<Rightarrow> u64 \<Rightarrow> bool" where
  "in_bitmap n i \<longleftrightarrow> unat i div 8 < n"

lemma unat_div8: "unat (i div 8 :: u64) = unat i div 8"
  by (simp add: unat_div_distrib)

lemma unat_mod8: "unat (i mod 8 :: u64) = unat i mod 8"
  by (simp add: unat_mod_distrib)

lemma unat_mod8_less: "unat (i mod 8 :: u64) < 8"
  by (simp add: unat_mod8)

lemma bitmap_byte_in_region: "in_bitmap n i \<Longrightarrow> in_region (bitmap s) n (bitmap s + i div 8)"
  by (simp add: in_region_def in_bitmap_def unat_div8)

lemma bitmap_byte_mapped:
  assumes "mapped m (bitmap s) n" and "in_bitmap n i"
  shows "m (bitmap s + i div 8) \<noteq> None"
proof -
  have "bitmap s + i div 8 = bitmap s + of_nat (unat (i div 8))" by simp
  with assms show ?thesis by (metis mapped_iff in_bitmap_def unat_div8)
qed

lemma same_page_iff: "(i :: u64) = j \<longleftrightarrow> i div 8 = j div 8 \<and> unat (i mod 8) = unat (j mod 8)"
  by (metis div_mult_mod_eq word_eq_unatI)

lemma bit_mask8: "k < 8 \<Longrightarrow> bit (push_bit j (1 :: u8)) k \<longleftrightarrow> k = j"
  by (auto simp: bit_exp_iff)

lemma page_used_upd:
  "page_used s (m(bitmap s + i div 8 \<mapsto> new)) j \<longleftrightarrow>
    (if j div 8 = i div 8 then bit new (unat (j mod 8)) else page_used s m j)"
  by (simp add: page_used_def)

lemma page_used_same_byte:
  "m (bitmap s + i div 8) = Some old \<Longrightarrow> j div 8 = i div 8 \<Longrightarrow>
   page_used s m j \<longleftrightarrow> bit old (unat (j mod 8))"
  by (simp add: page_used_def)

lemma SetBit_result:
  assumes "bitmap_ok s n m0 m" and "in_bitmap n i"
  shows "\<exists>m'. SetBit s i m = Inr m' \<and> bitmap_ok s n m0 m' \<and>
    (\<forall>j. page_used s m' j \<longleftrightarrow> j = i \<or> page_used s m j)"
proof -
  let ?b = "bitmap s + i div 8"
  obtain old where old: "m ?b = Some old"
    using bitmap_byte_mapped assms unfolding bitmap_ok_def by blast
  let ?m' = "m(?b \<mapsto> old OR push_bit (unat (i mod 8)) 1)"
  have "SetBit s i m = Inr ?m'" by (simp add: SetBit_def load8_def store8_def old)
  moreover have "bitmap_ok s n m0 ?m'"
    using assms bitmap_byte_in_region [OF assms(2), of s] old
    by (auto simp: bitmap_ok_def mapped_iff)
  moreover have "page_used s ?m' j \<longleftrightarrow> j = i \<or> page_used s m j" for j
    using bit_mask8 [OF unat_mod8_less [of j], of "unat (i mod 8)"] page_used_same_byte [of m s i old j, OF old]
    by (simp add: page_used_upd bit_or_iff same_page_iff [of j i] del: push_bit_of_1) blast
  ultimately show ?thesis by blast
qed

lemma ClearBit_result:
  assumes "bitmap_ok s n m0 m" and "in_bitmap n i"
  shows "\<exists>m'. ClearBit s i m = Inr m' \<and> bitmap_ok s n m0 m' \<and>
    (\<forall>j. page_used s m' j \<longleftrightarrow> j \<noteq> i \<and> page_used s m j)"
proof -
  let ?b = "bitmap s + i div 8"
  obtain old where old: "m ?b = Some old"
    using bitmap_byte_mapped assms unfolding bitmap_ok_def by blast
  let ?m' = "m(?b \<mapsto> old AND NOT (push_bit (unat (i mod 8)) 1))"
  have "ClearBit s i m = Inr ?m'" by (simp add: ClearBit_def load8_def store8_def old)
  moreover have "bitmap_ok s n m0 ?m'"
    using assms bitmap_byte_in_region [OF assms(2), of s] old
    by (auto simp: bitmap_ok_def mapped_iff)
  moreover have "page_used s ?m' j \<longleftrightarrow> j \<noteq> i \<and> page_used s m j" for j
    using bit_mask8 [OF unat_mod8_less [of j], of "unat (i mod 8)"] page_used_same_byte [of m s i old j, OF old]
      unat_mod8_less [of j]
    by (simp add: page_used_upd bit_and_iff bit_not_iff same_page_iff [of j i] del: push_bit_of_1)
       blast
  ultimately show ?thesis by blast
qed

lemma TestBit_result:
  assumes "bitmap_ok s n m0 m" and "in_bitmap n i"
  shows "\<exists>b. TestBit s i m = Inr b \<and> (truthy b \<longleftrightarrow> page_used s m i)"
proof -
  obtain old where old: "m (bitmap s + i div 8) = Some old"
    using bitmap_byte_mapped assms unfolding bitmap_ok_def by blast
  have "old AND push_bit k 1 \<noteq> 0 \<longleftrightarrow> bit old k" if "k < 8" for k
  proof -
    have "bit (old AND push_bit k 1) j \<longleftrightarrow> bit old k \<and> j = k" for j
      using that by (auto simp: bit_and_iff bit_exp_iff)
    then show ?thesis by (metis bit_0_eq bot_apply bot_bool_def bit_word_eqI)
  qed
  then show ?thesis using unat_mod8_less [of i]
    by (simp add: TestBit_def load8_def old page_used_def truthy_def)
qed

section \<open>The contract of the bit operations\<close>

text \<open>
  A table of marks: \<open>mark\<close> and \<open>clear\<close> change exactly one index and
  keep the table well formed. What whole loops of marks and clears do follows once and for all.
\<close>

locale bit_table =
  fixes mark clear :: "'i \<Rightarrow> 't \<Rightarrow> 't res"
    and marked :: "'t \<Rightarrow> 'i \<Rightarrow> bool"
    and ok :: "'t \<Rightarrow> bool"
    and index :: "'i \<Rightarrow> bool"
  assumes mark_ok: "ok t \<Longrightarrow> index i \<Longrightarrow>
      \<exists>t'. mark i t = Inr t' \<and> ok t' \<and> (\<forall>j. marked t' j \<longleftrightarrow> j = i \<or> marked t j)"
    and clear_ok: "ok t \<Longrightarrow> index i \<Longrightarrow>
      \<exists>t'. clear i t = Inr t' \<and> ok t' \<and> (\<forall>j. marked t' j \<longleftrightarrow> j \<noteq> i \<and> marked t j)"
begin

lemma mark_all:
  assumes "ok t" and "\<forall>i \<in> set is. index i"
  shows "\<exists>t'. for_each mark is t = Inr t' \<and> ok t' \<and>
    (\<forall>j. marked t' j \<longleftrightarrow> j \<in> set is \<or> marked t j)"
  using assms
proof (induction "is" arbitrary: t)
  case Nil
  then show ?case by simp
next
  case (Cons i "is")
  then obtain u where u: "mark i t = Inr u" "ok u" "\<forall>j. marked u j \<longleftrightarrow> j = i \<or> marked t j"
    using mark_ok [of t i] by auto
  with Cons.IH [OF u(2)] Cons.prems(2) show ?case by auto
qed

lemma clear_all:
  assumes "ok t" and "\<forall>i \<in> set is. index i"
  shows "\<exists>t'. for_each clear is t = Inr t' \<and> ok t' \<and>
    (\<forall>j. marked t' j \<longleftrightarrow> j \<notin> set is \<and> marked t j)"
  using assms
proof (induction "is" arbitrary: t)
  case Nil
  then show ?case by simp
next
  case (Cons i "is")
  then obtain u where u: "clear i t = Inr u" "ok u" "\<forall>j. marked u j \<longleftrightarrow> j \<noteq> i \<and> marked t j"
    using clear_ok [of t i] by auto
  with Cons.IH [OF u(2)] Cons.prems(2) show ?case by auto
qed

end

interpretation bits: bit_table "SetBit s" "ClearBit s" "page_used s" "bitmap_ok s n m0" "in_bitmap n"
  for s n m0
  by unfold_locales (rule SetBit_result ClearBit_result; assumption)+

section \<open>Init\<close>

text \<open>The top of usable physical memory.\<close>

definition highest_usable :: "memmap_entry list \<Rightarrow> u64" where
  "highest_usable entries =
     fold (\<lambda>e highest_address.
         if usable e then
           let top = base e + length_of e
           in if top > highest_address then top else highest_address
         else highest_address)
       entries 0"

text \<open>The first usable region that can hold the bitmap, or 0 when there is none.\<close>

fun bitmap_region :: "memmap_entry list \<Rightarrow> u64 \<Rightarrow> u64" where
  "bitmap_region [] bytes = 0"
| "bitmap_region (e # es) bytes =
     (if usable e \<and> length_of e \<ge> bytes \<and> base e > 0 then base e else bitmap_region es bytes)"

text \<open>The loops of \<^verbatim>\<open>Init\<close>, in their order.\<close>

definition free_usable :: "pmm \<Rightarrow> memmap_entry list \<Rightarrow> mem \<Rightarrow> mem res" where
  "free_usable s entries =
     for_each (\<lambda>e m.
         if usable e then
           for_each (\<lambda>p. ClearBit s (base e div 4096 + of_nat p)) [0..<unat (length_of e div 4096)] m
         else Inr m)
       entries"

definition lock_bitmap :: "pmm \<Rightarrow> u64 \<Rightarrow> mem \<Rightarrow> mem res" where
  "lock_bitmap s bitmap_phys_addr =
     for_each (\<lambda>p. SetBit s (bitmap_phys_addr div 4096 + of_nat p))
       [0..<unat ((bitmap_size s + 4095) div 4096)]"

definition lock_low_memory :: "pmm \<Rightarrow> mem \<Rightarrow> mem res" where
  "lock_low_memory s = for_each (\<lambda>page. SetBit s (of_nat page)) [0..<256]"

definition lock_reserved :: "pmm \<Rightarrow> memmap_entry list \<Rightarrow> mem \<Rightarrow> mem res" where
  "lock_reserved s entries =
     for_each (\<lambda>e m.
         if \<not> usable e then
           for_each (\<lambda>p m.
               if base e div 4096 + of_nat p < total_pages s
               then SetBit s (base e div 4096 + of_nat p) m else Inr m)
             [0..<unat ((length_of e + 4095) div 4096)] m
         else Inr m)
       entries"

definition pmm_globals :: "memmap_entry list \<Rightarrow> u64 \<Rightarrow> pmm" where
  "pmm_globals entries HHDMOffset =
     (let total = highest_usable entries div 4096; bytes = total div 8
      in \<lparr>bitmap = bitmap_region entries bytes + HHDMOffset, total_pages = total,
          bitmap_size = bytes\<rparr>)"

definition pmm_Init :: "memmap_entry list \<Rightarrow> u64 \<Rightarrow> mem \<Rightarrow> (pmm \<times> mem) res" where
  "pmm_Init entries HHDMOffset m =
     (let s = pmm_globals entries HHDMOffset;
          bitmap_phys_addr = bitmap_region entries (bitmap_size s)
      in and_then (memset m (bitmap s) 0xFF (bitmap_size s)) (\<lambda>(_, m).
         and_then (free_usable s entries m) (\<lambda>m.
         and_then (SetBit s 0 m) (\<lambda>m.
         and_then (lock_bitmap s bitmap_phys_addr m) (\<lambda>m.
         and_then (lock_low_memory s m) (\<lambda>m.
         and_then (lock_reserved s entries m) (\<lambda>m.
         Inr (s, m))))))))"

section \<open>AllocatePage\<close>

function alloc_scan :: "pmm \<Rightarrow> u64 \<Rightarrow> mem \<Rightarrow> (u64 \<times> mem) res" where
  "alloc_scan s i m =
     (if i < total_pages s then
        and_then (TestBit s i m) (\<lambda>b.
          if \<not> truthy b then and_then (SetBit s i m) (\<lambda>m'. Inr (i * 4096, m'))
          else alloc_scan s (i + 1) m)
      else Inl (Panic ''PMM: Tried to allocate memory but none was left''))"
  by pat_completeness auto
termination
proof (relation "measure (\<lambda>(s, i, m). unat (total_pages s) - unat i)")
  fix s i m x
  assume "i < total_pages s"
  then have "unat (i + 1) = Suc (unat i)" by (rule unat_Suc64)
  then show "((s, i + 1, m), s, i, m) \<in> measure (\<lambda>(s, i, m). unat (total_pages s) - unat i)"
    using \<open>i < total_pages s\<close> by (simp add: word_less_nat_alt)
qed simp

declare alloc_scan.simps [simp del]

definition AllocatePage :: "pmm \<Rightarrow> mem \<Rightarrow> (u64 \<times> mem) res" where
  "AllocatePage s m = alloc_scan s 0 m"

section \<open>What AllocatePage does\<close>

lemma u64_next: "(i :: u64) < n \<Longrightarrow> i \<le> j \<Longrightarrow> j \<noteq> i \<Longrightarrow> i + 1 \<le> j"
  using unat_Suc64 [of i n] by (simp add: word_le_nat_alt word_less_nat_alt word_unat_eq_iff)

lemma u64_next_lower: "(i :: u64) < n \<Longrightarrow> i + 1 \<le> j \<Longrightarrow> i < j"
  using unat_Suc64 [of i n] by (simp add: word_le_nat_alt word_less_nat_alt)

definition lowest_free :: "pmm \<Rightarrow> mem \<Rightarrow> u64 \<Rightarrow> u64 \<Rightarrow> bool" where
  "lowest_free s m i k \<longleftrightarrow>
     i \<le> k \<and> k < total_pages s \<and> \<not> page_used s m k \<and> (\<forall>j. i \<le> j \<and> j < k \<longrightarrow> page_used s m j)"

definition takes_page :: "pmm \<Rightarrow> nat \<Rightarrow> mem \<Rightarrow> mem \<Rightarrow> u64 \<Rightarrow> mem \<Rightarrow> bool" where
  "takes_page s n m0 m k m' \<longleftrightarrow>
     bitmap_ok s n m0 m' \<and> (\<forall>j. page_used s m' j \<longleftrightarrow> j = k \<or> page_used s m j)"

lemma alloc_scan_result:
  assumes "bitmap_ok s n m0 m" and "unat (total_pages s) \<le> 8 * n"
  shows "(\<exists>k m'. lowest_free s m i k \<and> alloc_scan s i m = Inr (k * 4096, m') \<and>
            takes_page s n m0 m k m') \<or>
         (\<forall>j. i \<le> j \<and> j < total_pages s \<longrightarrow> page_used s m j) \<and>
         alloc_scan s i m = Inl (Panic ''PMM: Tried to allocate memory but none was left'')"
  using assms
proof (induction s i m rule: alloc_scan.induct)
  case (1 s i m)
  show ?case
  proof (cases "i < total_pages s")
    case False
    then show ?thesis by (auto simp: alloc_scan.simps [of s i m])
  next
    case True
    then have idx: "in_bitmap n i"
      using "1.prems"(2) by (auto simp: in_bitmap_def word_less_nat_alt)
    obtain b where b: "TestBit s i m = Inr b" "truthy b \<longleftrightarrow> page_used s m i"
      using TestBit_result [OF "1.prems"(1) idx] by blast
    show ?thesis
    proof (cases "page_used s m i")
      case False
      obtain m' where m': "SetBit s i m = Inr m'" "takes_page s n m0 m i m'"
        using SetBit_result [OF "1.prems"(1) idx] unfolding takes_page_def by blast
      have "lowest_free s m i i" using True False by (auto simp: lowest_free_def)
      moreover have "alloc_scan s i m = Inr (i * 4096, m')"
        using True False b m'(1) by (simp add: alloc_scan.simps [of s i m])
      ultimately show ?thesis using m'(2) by blast
    next
      case used: True
      have step: "alloc_scan s i m = alloc_scan s (i + 1) m"
        using True used b by (simp add: alloc_scan.simps [of s i m])
      have lift: "lowest_free s m i k" if "lowest_free s m (i + 1) k" for k
        using that used True u64_next [OF True] u64_next_lower [OF True]
        unfolding lowest_free_def by (metis less_imp_le)
      have all: "page_used s m j"
        if "\<forall>j. i + 1 \<le> j \<and> j < total_pages s \<longrightarrow> page_used s m j" "i \<le> j" "j < total_pages s"
        for j using that used u64_next [OF True] by metis
      have "truthy b" using b(2) used by simp
      from "1.IH" [OF True b(1)] this "1.prems" show ?thesis unfolding step using lift all by blast
    qed
  qed
qed

lemma AllocatePage_result:
  assumes "bitmap_ok s n m0 m" and "unat (total_pages s) \<le> 8 * n"
  shows "(\<exists>k m'. lowest_free s m 0 k \<and> AllocatePage s m = Inr (k * 4096, m') \<and>
            takes_page s n m0 m k m') \<or>
         (\<forall>j < total_pages s. page_used s m j) \<and>
         AllocatePage s m = Inl (Panic ''PMM: Tried to allocate memory but none was left'')"
  using alloc_scan_result [OF assms, of 0] by (simp add: AllocatePage_def)

section \<open>The contract of the allocator\<close>

text \<open>
  What the page tables and the heap rely on: a page that is handed out was free, is
  free no longer, and no other page changes its state; while a page is free the
  allocator succeeds, and it panics when none is.
\<close>

fun alloc_many :: "('m \<Rightarrow> (u64 \<times> 'm) res) \<Rightarrow> nat \<Rightarrow> 'm \<Rightarrow> (u64 list \<times> 'm) res" where
  "alloc_many alloc 0 m = Inr ([], m)"
| "alloc_many alloc (Suc n) m =
     and_then (alloc m) (\<lambda>(f, m).
       and_then (alloc_many alloc n m) (\<lambda>(fs, m). Inr (f # fs, m)))"

locale page_source =
  fixes alloc :: "'m \<Rightarrow> (u64 \<times> 'm) res"
    and free :: "'m \<Rightarrow> u64 set"
    and ok :: "'m \<Rightarrow> bool"
  assumes alloc_takes: "ok m \<Longrightarrow> alloc m = Inr (f, m') \<Longrightarrow>
      f \<in> free m \<and> ok m' \<and> free m' = free m - {f}"
    and alloc_some: "ok m \<Longrightarrow> free m \<noteq> {} \<Longrightarrow> \<exists>f m'. alloc m = Inr (f, m')"
    and alloc_none: "ok m \<Longrightarrow> free m = {} \<Longrightarrow> \<exists>msg. alloc m = Inl (Panic msg)"
    and finite_free: "finite (free m)"
begin

lemma alloc_many_takes:
  assumes "ok m" and "alloc_many alloc n m = Inr (fs, m')"
  shows "length fs = n \<and> distinct fs \<and> set fs \<subseteq> free m \<and> ok m' \<and> free m' = free m - set fs"
  using assms
proof (induction n arbitrary: m fs)
  case 0
  then show ?case by simp
next
  case (Suc n)
  then obtain f m1 fs' where f: "alloc m = Inr (f, m1)"
    and fs': "alloc_many alloc n m1 = Inr (fs', m')" "fs = f # fs'"
    by (auto simp: and_then_eq_Inr)
  have t: "f \<in> free m" "ok m1" "free m1 = free m - {f}" using alloc_takes [OF Suc.prems(1) f] by auto
  show ?case using Suc.IH [OF t(2) fs'(1)] t fs'(2) by auto
qed

lemma alloc_many_succeeds:
  assumes "ok m" and "n \<le> card (free m)"
  shows "\<exists>fs m'. alloc_many alloc n m = Inr (fs, m')"
  using assms
proof (induction n arbitrary: m)
  case 0
  then show ?case by simp
next
  case (Suc n)
  then have "free m \<noteq> {}" by auto
  then obtain f m1 where f: "alloc m = Inr (f, m1)" using alloc_some [OF Suc.prems(1)] by blast
  have t: "f \<in> free m" "ok m1" "free m1 = free m - {f}" using alloc_takes [OF Suc.prems(1) f] by auto
  then have "n \<le> card (free m1)" using Suc.prems(2) finite_free by simp
  then obtain fs m' where "alloc_many alloc n m1 = Inr (fs, m')" using Suc.IH [OF t(2)] by blast
  with f show ?case by simp
qed

end

text \<open>The free frames of the model, by physical address.\<close>

definition free_frames :: "pmm \<Rightarrow> mem \<Rightarrow> u64 set" where
  "free_frames s m = {i * 4096 | i. i < total_pages s \<and> \<not> page_used s m i}"

definition pmm_ok :: "pmm \<Rightarrow> nat \<Rightarrow> mem \<Rightarrow> mem \<Rightarrow> bool" where
  "pmm_ok s n m0 m \<longleftrightarrow>
     bitmap_ok s n m0 m \<and> unat (total_pages s) \<le> 8 * n \<and> unat (total_pages s) \<le> 2 ^ 52"

lemma frame_inject:
  fixes i j t :: u64
  assumes "i < t" "j < t" "unat t \<le> 2 ^ 52" "i * 4096 = j * 4096"
  shows "i = j"
proof -
  have "unat (i * 4096) = unat i * 4096" "unat (j * 4096) = unat j * 4096"
    using assms(1-3) by (simp_all add: unat_word_ariths word_less_nat_alt)
  then have "unat i * 4096 = unat j * 4096" using assms(4) by metis
  then show ?thesis by (simp add: word_unat_eq_iff)
qed

interpretation pages: page_source "AllocatePage s" "free_frames s" "pmm_ok s n m0" for s n m0
proof unfold_locales
  fix m m' f
  assume ok: "pmm_ok s n m0 m"
  then have b: "bitmap_ok s n m0 m" "unat (total_pages s) \<le> 8 * n" "unat (total_pages s) \<le> 2 ^ 52"
    by (simp_all add: pmm_ok_def)
  show "free_frames s m \<noteq> {} \<Longrightarrow> \<exists>f m'. AllocatePage s m = Inr (f, m')"
    using AllocatePage_result [OF b(1,2)] by (auto simp: free_frames_def)
  show "free_frames s m = {} \<Longrightarrow> \<exists>msg. AllocatePage s m = Inl (Panic msg)"
    using AllocatePage_result [OF b(1,2)] by (auto simp: free_frames_def lowest_free_def)
  assume a: "AllocatePage s m = Inr (f, m')"
  then obtain k where k: "lowest_free s m 0 k" "f = k * 4096" "takes_page s n m0 m k m'"
    using AllocatePage_result [OF b(1,2)] by auto
  have "free_frames s m' = free_frames s m - {f}"
  proof (rule set_eqI)
    fix x
    show "x \<in> free_frames s m' \<longleftrightarrow> x \<in> free_frames s m - {f}"
      using k frame_inject [of _ "total_pages s" k, OF _ _ b(3)]
      by (auto simp: free_frames_def takes_page_def lowest_free_def)
  qed
  then show "f \<in> free_frames s m \<and> pmm_ok s n m0 m' \<and> free_frames s m' = free_frames s m - {f}"
    using k b by (auto simp: free_frames_def pmm_ok_def takes_page_def lowest_free_def)
next
  fix m
  have "free_frames s m \<subseteq> (\<lambda>i. i * 4096) ` UNIV" by (auto simp: free_frames_def)
  then show "finite (free_frames s m)" by (rule finite_subset) simp
qed

text \<open>The allocator's invariant on its own, and its frame: only the bitmap's bytes matter.\<close>

definition pmm_inv :: "pmm \<Rightarrow> nat \<Rightarrow> mem \<Rightarrow> bool" where
  "pmm_inv s n m \<longleftrightarrow> pmm_ok s n m m"

lemma pmm_ok_inv: "pmm_ok s n m0 m \<Longrightarrow> pmm_inv s n m"
  by (simp add: pmm_inv_def pmm_ok_def bitmap_ok_def)

lemma pmm_inv_frame:
  assumes inv: "pmm_inv s n m" and dom: "dom m' = dom m"
    and eq: "\<And>x. in_region (bitmap s) n x \<Longrightarrow> m' x = m x"
  shows "pmm_inv s n m'" and "free_frames s m' = free_frames s m"
proof -
  show "pmm_inv s n m'"
    using inv mapped_dom [OF dom] by (simp add: pmm_inv_def pmm_ok_def bitmap_ok_def)
  have "page_used s m' i = page_used s m i" if "i < total_pages s" for i
  proof -
    have "in_bitmap n i"
      using inv that by (auto simp: pmm_inv_def pmm_ok_def in_bitmap_def word_less_nat_alt)
    then show ?thesis using eq [OF bitmap_byte_in_region] by (simp add: page_used_def)
  qed
  then show "free_frames s m' = free_frames s m" by (auto simp: free_frames_def)
qed

lemma AllocatePage_frame:
  assumes "pmm_inv s n m" and "AllocatePage s m = Inr (f, m')"
  shows "pmm_inv s n m'" and "f \<in> free_frames s m" and "free_frames s m' = free_frames s m - {f}"
    and "dom m' = dom m" and "\<not> in_region (bitmap s) n x \<Longrightarrow> m' x = m x"
proof -
  have ok: "pmm_ok s n m m" using assms(1) by (simp add: pmm_inv_def)
  show "f \<in> free_frames s m" "free_frames s m' = free_frames s m - {f}"
    using pages.alloc_takes [OF ok assms(2)] by auto
  have ok': "pmm_ok s n m m'" using pages.alloc_takes [OF ok assms(2)] by blast
  then show "pmm_inv s n m'" by (rule pmm_ok_inv)
  show "dom m' = dom m" "\<not> in_region (bitmap s) n x \<Longrightarrow> m' x = m x"
    using ok' by (auto simp: pmm_ok_def bitmap_ok_def)
qed

lemma AllocatePage_some: "pmm_inv s n m \<Longrightarrow> free_frames s m \<noteq> {} \<Longrightarrow> \<exists>f m'. AllocatePage s m = Inr (f, m')"
  unfolding pmm_inv_def by (rule pages.alloc_some)

section \<open>What Init leaves in the bitmap\<close>

text \<open>
  The page sets of the memory map, in plain arithmetic. What Limine documents: entries
  do not wrap around, and usable entries are whole pages.
\<close>

definition memmap_ok :: "memmap_entry list \<Rightarrow> bool" where
  "memmap_ok entries \<longleftrightarrow>
     list_all (\<lambda>e. unat (base e) + unat (length_of e) + 4095 < 2 ^ 64 \<and>
       (usable e \<longrightarrow> 4096 dvd unat (base e) \<and> 4096 dvd unat (length_of e))) entries"

definition pages_from :: "nat \<Rightarrow> nat \<Rightarrow> u64 \<Rightarrow> bool" where
  "pages_from start count j \<longleftrightarrow> start \<le> unat j \<and> unat j < start + count"

definition usable_page :: "memmap_entry list \<Rightarrow> u64 \<Rightarrow> bool" where
  "usable_page entries j \<longleftrightarrow>
     list_ex (\<lambda>e. usable e \<and> pages_from (unat (base e) div 4096) (unat (length_of e) div 4096) j) entries"

text \<open>
  An entry touches the pages that hold one of its bytes, whatever its alignment. \<^verbatim>\<open>Init\<close> does not count them: it locks
  as many pages as the length alone has, from the page of the base on. When the entry starts so far behind a page boundary
  that it reaches one page more, that last page is missed.
\<close>

definition touches :: "memmap_entry \<Rightarrow> u64 \<Rightarrow> bool" where
  "touches e j \<longleftrightarrow> 0 < unat (length_of e) \<and> unat (base e) div 4096 \<le> unat j \<and>
     unat j \<le> (unat (base e) + unat (length_of e) - 1) div 4096"

definition missed :: "memmap_entry \<Rightarrow> u64 \<Rightarrow> bool" where
  "missed e j \<longleftrightarrow> unat j = (unat (base e) + unat (length_of e) - 1) div 4096 \<and>
     4096 \<le> unat (base e) mod 4096 + (unat (length_of e) - 1) mod 4096"

definition reserved_page :: "memmap_entry list \<Rightarrow> u64 \<Rightarrow> bool" where
  "reserved_page entries j \<longleftrightarrow> list_ex (\<lambda>e. \<not> usable e \<and> touches e j) entries"

definition locked_page :: "memmap_entry list \<Rightarrow> u64 \<Rightarrow> bool" where
  "locked_page entries j \<longleftrightarrow> list_ex (\<lambda>e. \<not> usable e \<and> touches e j \<and> \<not> missed e j) entries"

lemma counted_pages:
  "pages_from (unat (base e) div 4096) ((unat (length_of e) + 4095) div 4096) j \<longleftrightarrow> touches e j \<and> \<not> missed e j"
proof (cases "unat (length_of e)")
  case 0
  then show ?thesis by (simp add: pages_from_def touches_def)
next
  case (Suc l)
  let ?b = "unat (base e)"
  let ?carry = "if 4096 \<le> ?b mod 4096 + l mod 4096 then 1 else 0 :: nat"
  have "(?b + l) div 4096 = ?b div 4096 + l div 4096 + (?b mod 4096 + l mod 4096) div 4096" by (rule div_add1_eq)
  moreover have "(?b mod 4096 + l mod 4096) div 4096 = ?carry"
  proof -
    have "?b mod 4096 < 4096" "l mod 4096 < 4096" by simp_all
    then show ?thesis by (auto simp: div_nat_eqI)
  qed
  ultimately have "(?b + l) div 4096 = ?b div 4096 + l div 4096 + ?carry" by simp
  moreover have "(Suc l + 4095) div 4096 = l div 4096 + 1" by simp
  ultimately show ?thesis using Suc by (auto simp: pages_from_def touches_def missed_def)
qed

text \<open>What Limine documents besides: a usable entry shares no byte with an entry of another type.\<close>

definition usable_apart :: "memmap_entry list \<Rightarrow> bool" where
  "usable_apart entries \<longleftrightarrow>
     list_all (\<lambda>e. list_all (\<lambda>r. usable e \<and> \<not> usable r \<longrightarrow>
       unat (base e) + unat (length_of e) \<le> unat (base r) \<or> unat (base r) + unat (length_of r) \<le> unat (base e)) entries) entries"

lemma usable_not_reserved:
  assumes "memmap_ok es" and "usable_apart es" and "usable_page es j"
  shows "\<not> reserved_page es j"
proof
  assume "reserved_page es j"
  then obtain r where r: "r \<in> set es" "\<not> usable r" "touches r j" by (auto simp: reserved_page_def list_ex_iff)
  obtain e where e: "e \<in> set es" "usable e" "pages_from (unat (base e) div 4096) (unat (length_of e) div 4096) j"
    using assms(3) by (auto simp: usable_page_def list_ex_iff)
  have apart: "unat (base e) + unat (length_of e) \<le> unat (base r) \<or> unat (base r) + unat (length_of r) \<le> unat (base e)"
    using assms(2) e(1,2) r(1,2) unfolding usable_apart_def list_all_iff by blast
  obtain a l where al: "unat (base e) = 4096 * a" "unat (length_of e) = 4096 * l"
    using assms(1) e(1,2) by (auto simp: memmap_ok_def list_all_iff elim!: dvdE)
  have "a \<le> unat j" "unat j < a + l" using e(3) unfolding al by (simp_all add: pages_from_def)
  moreover have "0 < unat (length_of r)" "unat (base r) div 4096 \<le> unat j"
      "unat j \<le> (unat (base r) + unat (length_of r) - 1) div 4096"
    using r(3) by (simp_all add: touches_def)
  ultimately show False using apart unfolding al by linarith
qed

definition bitmap_page :: "pmm \<Rightarrow> u64 \<Rightarrow> u64 \<Rightarrow> bool" where
  "bitmap_page s phys j \<longleftrightarrow>
     pages_from (unat phys div 4096) ((unat (bitmap_size s) + 4095) div 4096) j"

lemma in_index_list:
  fixes start j :: u64
  assumes "unat start + c < 2 ^ 64"
  shows "j \<in> (\<lambda>p. start + of_nat p) ` set [0..<c] \<longleftrightarrow> pages_from (unat start) c j"
proof
  assume "j \<in> (\<lambda>p. start + of_nat p) ` set [0..<c]"
  then obtain p where "p < c" "j = start + of_nat p" by auto
  with assms show "pages_from (unat start) c j" by (simp add: pages_from_def unat_add_of_nat64)
next
  assume a: "pages_from (unat start) c j"
  then have "j = start + of_nat (unat j - unat start)"
    by (simp add: pages_from_def of_nat_diff)
  moreover have "unat j - unat start < c" using a by (auto simp: pages_from_def)
  ultimately show "j \<in> (\<lambda>p. start + of_nat p) ` set [0..<c]" by (metis atLeastLessThan_iff image_eqI le0 set_upt)
qed

lemma unat_div4096: "unat (a div 4096 :: u64) = unat a div 4096"
  by (simp add: unat_div_distrib)

lemma highest_usable_fold:
  fixes hi :: u64
  shows "hi \<le> fold (\<lambda>e highest_address.
         if usable e then
           let top = base e + length_of e
           in if top > highest_address then top else highest_address
         else highest_address) es hi \<and>
    (\<forall>e \<in> set es. usable e \<longrightarrow> base e + length_of e \<le> fold (\<lambda>e highest_address.
         if usable e then
           let top = base e + length_of e
           in if top > highest_address then top else highest_address
         else highest_address) es hi)"
proof (induction es arbitrary: hi)
  case Nil
  then show ?case by simp
next
  case (Cons e es)
  show ?case using Cons.IH [of "base e + length_of e"] Cons.IH [of hi]
    by (auto simp: Let_def)
qed

lemma highest_usable_ge:
  "e \<in> set es \<Longrightarrow> usable e \<Longrightarrow> base e + length_of e \<le> highest_usable es"
  using highest_usable_fold [where es = es and hi = 0] unfolding highest_usable_def by blast

lemma bitmap_region_found:
  "bitmap_region es b \<noteq> 0 \<Longrightarrow>
   \<exists>e \<in> set es. usable e \<and> b \<le> length_of e \<and> bitmap_region es b = base e"
  by (induction es) (auto split: if_splits)

lemma pmm_globals_sel [simp]:
  "total_pages (pmm_globals es h) = highest_usable es div 4096"
  "bitmap_size (pmm_globals es h) = highest_usable es div 4096 div 8"
  "bitmap (pmm_globals es h) = bitmap_region es (highest_usable es div 4096 div 8) + h"
  by (simp_all add: pmm_globals_def Let_def)

lemma usable_page_below_top:
  assumes "memmap_ok es" "e \<in> set es" "usable e"
  shows "unat (base e) div 4096 + unat (length_of e) div 4096 \<le> unat (highest_usable es) div 4096"
proof -
  have w: "unat (base e) + unat (length_of e) < 2 ^ 64"
    using assms by (auto simp: memmap_ok_def list_all_iff)
  have "unat (base e) + unat (length_of e) \<le> unat (highest_usable es)"
    using highest_usable_ge [OF assms(2,3)] unat_add64 [OF w] by (simp add: word_le_nat_alt)
  then show ?thesis
    using div_le_mono [of "unat (base e) + unat (length_of e)" "unat (highest_usable es)" 4096]
      div_add1_eq [of "unat (base e)" "unat (length_of e)" 4096] by linarith
qed

text \<open>The indices each loop of \<^verbatim>\<open>Init\<close> visits.\<close>

definition entry_pages :: "memmap_entry \<Rightarrow> u64 \<Rightarrow> u64 list" where
  "entry_pages e count = map (\<lambda>p. base e div 4096 + of_nat p) [0..<unat count]"

lemma in_entry_pages:
  assumes "unat (base e) div 4096 + unat count < 2 ^ 64"
  shows "j \<in> set (entry_pages e count) \<longleftrightarrow> pages_from (unat (base e) div 4096) (unat count) j"
  using in_index_list [of "base e div 4096" "unat count" j] assms
  by (simp add: entry_pages_def unat_div4096)

lemma free_usable_list:
  "free_usable s es m =
   for_each (ClearBit s) (concat (map (\<lambda>e. if usable e then entry_pages e (length_of e div 4096) else []) es)) m"
proof -
  have "(if usable e then
           for_each (\<lambda>p. ClearBit s (base e div 4096 + of_nat p)) [0..<unat (length_of e div 4096)] m
         else Inr m) =
    for_each (ClearBit s) (if usable e then entry_pages e (length_of e div 4096) else []) m" for e m
    by (simp add: entry_pages_def for_each_map)
  then show ?thesis unfolding free_usable_def by (simp add: for_each_concat)
qed

lemma lock_reserved_list:
  "lock_reserved s es m =
   for_each (SetBit s) (concat (map (\<lambda>e. if \<not> usable e
       then filter (\<lambda>i. i < total_pages s) (entry_pages e ((length_of e + 4095) div 4096)) else []) es)) m"
proof -
  have inner: "for_each (\<lambda>p m. if base e div 4096 + of_nat p < total_pages s
               then SetBit s (base e div 4096 + of_nat p) m else Inr m) ps m =
     for_each (SetBit s) (filter (\<lambda>i. i < total_pages s) (map (\<lambda>p. base e div 4096 + of_nat p) ps)) m"
    for e ps m
    using for_each_map [of "\<lambda>i m. if i < total_pages s then SetBit s i m else Inr m"
        "\<lambda>p. base e div 4096 + of_nat p" ps m] for_each_filter [of "\<lambda>i. i < total_pages s" "SetBit s"]
    by simp
  then have "(if \<not> usable e then
           for_each (\<lambda>p m. if base e div 4096 + of_nat p < total_pages s
               then SetBit s (base e div 4096 + of_nat p) m else Inr m)
             [0..<unat ((length_of e + 4095) div 4096)] m
         else Inr m) =
      for_each (SetBit s) (if \<not> usable e
       then filter (\<lambda>i. i < total_pages s) (entry_pages e ((length_of e + 4095) div 4096)) else []) m"
    for e m by (cases "usable e") (simp_all only: inner entry_pages_def if_True if_False
        simp_thms for_each.simps)
  then show ?thesis unfolding lock_reserved_def by (simp add: for_each_concat)
qed

text \<open>Each loop stays inside the bitmap, and its indices are the pages meant.\<close>

definition bitmap_bytes :: "pmm \<Rightarrow> nat" where
  "bitmap_bytes s = (unat (total_pages s) + 7) div 8"

lemma below_total_in_bitmap: "i < total_pages s \<Longrightarrow> in_bitmap (bitmap_bytes s) i"
  unfolding in_bitmap_def bitmap_bytes_def word_less_nat_alt by linarith

lemma usable_indices:
  assumes "memmap_ok es"
  defines "is \<equiv> concat (map (\<lambda>e. if usable e then entry_pages e (length_of e div 4096) else []) es)"
  shows "j \<in> set is \<longleftrightarrow> usable_page es j"
    and "\<forall>i \<in> set is. in_bitmap (bitmap_bytes (pmm_globals es h)) i"
proof -
  have e: "j \<in> set (entry_pages e (length_of e div 4096)) \<longleftrightarrow>
      pages_from (unat (base e) div 4096) (unat (length_of e) div 4096) j" if "e \<in> set es" for e j
  proof -
    have "unat (base e) + unat (length_of e) + 4095 < 2 ^ 64"
      using that assms(1) by (simp add: memmap_ok_def list_all_iff)
    then have "unat (base e) div 4096 + unat (length_of e div 4096) < 2 ^ 64"
      unfolding unat_div4096 by linarith
    then show ?thesis using in_entry_pages [of e "length_of e div 4096"]
      by (simp add: unat_div4096)
  qed
  show "j \<in> set is \<longleftrightarrow> usable_page es j"
    by (auto simp: is_def usable_page_def list_ex_iff e)
  show "\<forall>i \<in> set is. in_bitmap (bitmap_bytes (pmm_globals es h)) i"
  proof
    fix i assume "i \<in> set is"
    then obtain e where "e \<in> set es" "usable e"
      "pages_from (unat (base e) div 4096) (unat (length_of e) div 4096) i"
      by (auto simp: is_def e split: if_splits)
    then have "unat i < unat (highest_usable es) div 4096"
      using usable_page_below_top [OF assms(1)] by (fastforce simp: pages_from_def)
    then show "in_bitmap (bitmap_bytes (pmm_globals es h)) i"
      by (intro below_total_in_bitmap) (simp add: word_less_nat_alt unat_div4096)
  qed
qed

lemma reserved_indices:
  fixes s :: pmm
  assumes "memmap_ok es"
  defines "is \<equiv> concat (map (\<lambda>e. if \<not> usable e
       then filter (\<lambda>i. i < total_pages s) (entry_pages e ((length_of e + 4095) div 4096)) else []) es)"
  shows "j \<in> set is \<longleftrightarrow> locked_page es j \<and> j < total_pages s"
    and "\<forall>i \<in> set is. in_bitmap (bitmap_bytes s) i"
proof -
  have e: "j \<in> set (entry_pages e ((length_of e + 4095) div 4096)) \<longleftrightarrow>
      pages_from (unat (base e) div 4096) ((unat (length_of e) + 4095) div 4096) j"
    if "e \<in> set es" for e j
  proof -
    have w: "unat (base e) + unat (length_of e) + 4095 < 2 ^ 64"
      using that assms(1) by (simp add: memmap_ok_def list_all_iff)
    then have "unat (length_of e + 4095) = unat (length_of e) + 4095"
      using unat_add64 [of "length_of e" 4095] by simp
    then show ?thesis using w in_entry_pages [of e "(length_of e + 4095) div 4096" j]
      by (simp add: unat_div4096)
  qed
  show m: "j \<in> set is \<longleftrightarrow> locked_page es j \<and> j < total_pages s" for j
    by (auto simp: is_def locked_page_def list_ex_iff e counted_pages)
  show "\<forall>i \<in> set is. in_bitmap (bitmap_bytes s) i" using m below_total_in_bitmap by blast
qed

definition bitmap_indices :: "pmm \<Rightarrow> u64 \<Rightarrow> u64 list" where
  "bitmap_indices s phys =
     map (\<lambda>p. phys div 4096 + of_nat p) [0..<unat ((bitmap_size s + 4095) div 4096)]"

lemma bitmap_indices_pages:
  assumes ok: "memmap_ok es" and found: "bitmap_region es (bitmap_size s) \<noteq> 0"
    and s: "s = pmm_globals es h"
  defines "phys \<equiv> bitmap_region es (bitmap_size s)"
  shows "j \<in> set (bitmap_indices s phys) \<longleftrightarrow> bitmap_page s phys j"
    and "\<forall>i \<in> set (bitmap_indices s phys). in_bitmap (bitmap_bytes s) i"
proof -
  obtain e where e: "e \<in> set es" "usable e" "bitmap_size s \<le> length_of e" "phys = base e"
    using bitmap_region_found [OF found] unfolding phys_def by blast
  have w: "unat (base e) + unat (length_of e) + 4095 < 2 ^ 64" "4096 dvd unat (length_of e)"
    using e ok by (simp_all add: memmap_ok_def list_all_iff)
  have le: "unat (bitmap_size s) \<le> unat (length_of e)" using e(3) by (simp add: word_le_nat_alt)
  have "unat (bitmap_size s + 4095) = unat (bitmap_size s) + 4095"
    using w le unat_add64 [of "bitmap_size s" 4095] by simp
  then have c: "unat ((bitmap_size s + 4095) div 4096) = (unat (bitmap_size s) + 4095) div 4096"
    by (simp add: unat_div4096)
  have fit: "(unat (bitmap_size s) + 4095) div 4096 \<le> unat (length_of e) div 4096"
  proof -
    obtain q where q: "unat (length_of e) = 4096 * q" using w(2) by blast
    then show ?thesis using le by simp
  qed
  have m: "j \<in> set (bitmap_indices s phys) \<longleftrightarrow> bitmap_page s phys j" for j
    using in_index_list [of "phys div 4096" "(unat (bitmap_size s) + 4095) div 4096" j] w le e(4) c
    by (simp add: bitmap_indices_def bitmap_page_def unat_div4096)
  then show "j \<in> set (bitmap_indices s phys) \<longleftrightarrow> bitmap_page s phys j" .
  show "\<forall>i \<in> set (bitmap_indices s phys). in_bitmap (bitmap_bytes s) i"
  proof
    fix i assume "i \<in> set (bitmap_indices s phys)"
    then have "unat i < unat phys div 4096 + (unat (bitmap_size s) + 4095) div 4096"
      by (simp add: m bitmap_page_def pages_from_def)
    also have "\<dots> \<le> unat (highest_usable es) div 4096"
      using usable_page_below_top [OF ok e(1,2)] fit e(4) by simp
    finally have "i < total_pages s" by (simp add: s word_less_nat_alt unat_div4096)
    then show "in_bitmap (bitmap_bytes s) i" by (rule below_total_in_bitmap)
  qed
qed

lemma memset_bitmap:
  assumes "mapped m (bitmap s) n" and "unat (bitmap_size s) \<le> n" and "n \<le> 2 ^ 63"
  shows "\<exists>m'. memset m (bitmap s) 0xFF (bitmap_size s) = Inr (bitmap s, m') \<and> bitmap_ok s n m m' \<and>
    (\<forall>j. unat j div 8 < unat (bitmap_size s) \<longrightarrow> page_used s m' j) \<and>
    (\<forall>j. unat (bitmap_size s) \<le> unat j div 8 \<longrightarrow> page_used s m' j = page_used s m j)"
proof -
  let ?k = "unat (bitmap_size s)"
  let ?m' = "put_bytes m (bitmap s) (replicate ?k 0xFF)"
  have mp: "mapped m (bitmap s) ?k" using assms(1,2) by (rule mapped_mono)
  have d: "dom ?m' = dom m" using mp dom_put_bytes [of m "bitmap s" "replicate ?k 0xFF"] by simp
  have "memset m (bitmap s) 0xFF (bitmap_size s) = Inr (bitmap s, ?m')"
    using memset_result [OF mp, of "0xFF"] by simp
  moreover have "bitmap_ok s n m ?m'"
    unfolding bitmap_ok_def
    using assms(1,2) d mapped_dom [OF d] by (auto simp: put_bytes_def in_region_def)
  moreover have "page_used s ?m' j" if "unat j div 8 < ?k" for j
  proof -
    have "?m' (bitmap s + j div 8) = Some 0xFF"
      using that by (simp add: put_bytes_def in_region_def unat_div8)
    moreover have "bit (0xFF :: u8) k" if "k < 8" for k
    proof -
      have "(0xFF :: u8) = - 1" by simp
      then show ?thesis using that by (simp only: bit_minus_1_iff) simp
    qed
    ultimately show ?thesis using unat_mod8_less by (simp add: page_used_def)
  qed
  moreover have "page_used s ?m' j = page_used s m j" if "?k \<le> unat j div 8" for j
    using that by (simp add: page_used_def put_bytes_def in_region_def unat_div8)
  ultimately show ?thesis by blast
qed

text \<open>
  The pages that \<^verbatim>\<open>Init\<close> frees, and those that are free after it. Its default lock covers \<open>total_pages / 8\<close>
  bytes, rounded down; the bits of the up to seven pages behind them are as they were in memory (\<open>stale_free\<close>) unless a
  loop writes them.
\<close>

definition allocatable :: "memmap_entry list \<Rightarrow> pmm \<Rightarrow> u64 \<Rightarrow> bool" where
  "allocatable es s j \<longleftrightarrow>
     usable_page es j \<and> 256 \<le> unat j \<and> \<not> locked_page es j \<and>
     \<not> bitmap_page s (bitmap_region es (bitmap_size s)) j"

definition stale_free :: "pmm \<Rightarrow> mem \<Rightarrow> u64 \<Rightarrow> bool" where
  "stale_free s m j \<longleftrightarrow> unat (bitmap_size s) \<le> unat j div 8 \<and> \<not> page_used s m j"

definition free_after_Init :: "memmap_entry list \<Rightarrow> pmm \<Rightarrow> mem \<Rightarrow> u64 \<Rightarrow> bool" where
  "free_after_Init es s m j \<longleftrightarrow>
     (usable_page es j \<or> stale_free s m j) \<and> 256 \<le> unat j \<and> \<not> locked_page es j \<and>
     \<not> bitmap_page s (bitmap_region es (bitmap_size s)) j"

text \<open>When no stale bit frees a page, these are the same pages.\<close>

definition tail_ok :: "memmap_entry list \<Rightarrow> pmm \<Rightarrow> mem \<Rightarrow> bool" where
  "tail_ok es s m \<longleftrightarrow> (\<forall>j < total_pages s. stale_free s m j \<longrightarrow> usable_page es j)"

lemma tail_ok_free: "tail_ok es s m \<Longrightarrow> j < total_pages s \<Longrightarrow> free_after_Init es s m j \<longleftrightarrow> allocatable es s j"
  by (auto simp: tail_ok_def free_after_Init_def allocatable_def)

lemma low_indices: "j \<in> set (map of_nat [0..<256]) \<longleftrightarrow> unat (j :: u64) < 256"
  using in_index_list [of 0 256 j] by (simp add: pages_from_def)

lemma pmm_Init_chain:
  assumes ok: "memmap_ok es" and found: "bitmap_region es (bitmap_size s) \<noteq> 0"
    and low: "256 \<le> unat (total_pages s)"
    and map: "mapped m (bitmap s) (bitmap_bytes s)"
    and s: "s = pmm_globals es h"
  shows "\<exists>m'. pmm_Init es h m = Inr (s, m') \<and> bitmap_ok s (bitmap_bytes s) m m' \<and>
    (\<forall>j < total_pages s. page_used s m' j \<longleftrightarrow> \<not> free_after_Init es s m j)"
proof -
  let ?n = "bitmap_bytes s" and ?phys = "bitmap_region es (bitmap_size s)"
  have size: "unat (bitmap_size s) = unat (total_pages s) div 8" by (simp add: s unat_div8)
  have n: "unat (bitmap_size s) \<le> ?n" "?n \<le> 2 ^ 63" "0 < ?n"
  proof -
    have "(t + 7) div 8 \<le> 2 ^ 63" if "t < 18446744073709551616" for t :: nat
      using that by simp
    then show "?n \<le> 2 ^ 63" using unat_u64_lt unfolding bitmap_bytes_def by blast
  qed (use low in \<open>simp_all add: size bitmap_bytes_def\<close>)
  obtain m1 where m1: "memset m (bitmap s) 0xFF (bitmap_size s) = Inr (bitmap s, m1)"
      "bitmap_ok s ?n m m1" "\<forall>j. unat j div 8 < unat (bitmap_size s) \<longrightarrow> page_used s m1 j"
      "\<forall>j. unat (bitmap_size s) \<le> unat j div 8 \<longrightarrow> page_used s m1 j = page_used s m j"
    using memset_bitmap [OF map n(1,2)] by blast
  obtain m2 where m2: "free_usable s es m1 = Inr m2" "bitmap_ok s ?n m m2"
      "\<forall>j. page_used s m2 j \<longleftrightarrow> \<not> usable_page es j \<and> page_used s m1 j"
    using bits.clear_all [OF m1(2) usable_indices(2) [OF ok, of h, folded s]]
    unfolding free_usable_list usable_indices(1) [OF ok] by blast
  have i0: "in_bitmap ?n 0" using n(3) by (simp add: in_bitmap_def)
  obtain m3 where m3: "SetBit s 0 m2 = Inr m3" "bitmap_ok s ?n m m3"
      "\<forall>j. page_used s m3 j \<longleftrightarrow> j = 0 \<or> page_used s m2 j"
    using SetBit_result [OF m2(2) i0] by blast
  obtain m4 where m4: "lock_bitmap s ?phys m3 = Inr m4" "bitmap_ok s ?n m m4"
      "\<forall>j. page_used s m4 j \<longleftrightarrow> bitmap_page s ?phys j \<or> page_used s m3 j"
    using bits.mark_all [OF m3(2) bitmap_indices_pages(2) [OF ok found s]]
    unfolding bitmap_indices_pages(1) [OF ok found s]
    unfolding lock_bitmap_def bitmap_indices_def for_each_map by blast
  have low_idx: "\<forall>i \<in> set (map of_nat [0..<256]). in_bitmap ?n i"
    using low low_indices below_total_in_bitmap by (fastforce simp: word_less_nat_alt)
  obtain m5 where m5: "lock_low_memory s m4 = Inr m5" "bitmap_ok s ?n m m5"
      "\<forall>j. page_used s m5 j \<longleftrightarrow> unat j < 256 \<or> page_used s m4 j"
    using bits.mark_all [OF m4(2) low_idx]
    unfolding low_indices lock_low_memory_def for_each_map by blast
  obtain m6 where m6: "lock_reserved s es m5 = Inr m6" "bitmap_ok s ?n m m6"
      "\<forall>j. page_used s m6 j \<longleftrightarrow> locked_page es j \<and> j < total_pages s \<or> page_used s m5 j"
    using bits.mark_all [OF m5(2) reserved_indices(2) [OF ok, of s]]
    unfolding lock_reserved_list reserved_indices(1) [OF ok] by blast
  have "pmm_Init es h m = Inr (s, m6)"
    unfolding pmm_Init_def Let_def s [symmetric] using m1(1) m2(1) m3(1) m4(1) m5(1) m6(1) by simp
  moreover have "page_used s m6 j \<longleftrightarrow> \<not> free_after_Init es s m j" if "j < total_pages s" for j
  proof -
    have "page_used s m1 j \<longleftrightarrow> \<not> stale_free s m j"
      using m1(3,4) unfolding stale_free_def by (metis not_less)
    then show ?thesis using that m2(3) m3(3) m4(3) m5(3) m6(3) by (auto simp: free_after_Init_def)
  qed
  ultimately show ?thesis using m6(2) by blast
qed

lemma total_pages_bound: "unat (total_pages (pmm_globals es h)) \<le> 2 ^ 52"
  using unat_u64_lt [of "highest_usable es"] by (simp add: unat_div4096 del: unat_u64_lt)

lemma pmm_Init_ok:
  assumes "memmap_ok es" and "bitmap_region es (bitmap_size s) \<noteq> 0" and "256 \<le> unat (total_pages s)"
    and "mapped m (bitmap s) (bitmap_bytes s)" and s: "s = pmm_globals es h"
    and i: "pmm_Init es h m = Inr (s, m')"
  shows "pmm_ok s (bitmap_bytes s) m m'"
    and "free_frames s m' = {j * 4096 | j. j < total_pages s \<and> free_after_Init es s m j}"
    and "tail_ok es s m \<Longrightarrow> free_frames s m' = {j * 4096 | j. j < total_pages s \<and> allocatable es s j}"
proof -
  from pmm_Init_chain [OF assms(1-5)] i
  have b: "bitmap_ok s (bitmap_bytes s) m m'"
    and u: "j < total_pages s \<Longrightarrow> page_used s m' j \<longleftrightarrow> \<not> free_after_Init es s m j" for j by auto
  have "unat (total_pages s) \<le> 8 * bitmap_bytes s" by (simp add: bitmap_bytes_def)
  then show "pmm_ok s (bitmap_bytes s) m m'"
    using b total_pages_bound [of es h, folded s] by (simp add: pmm_ok_def)
  show f: "free_frames s m' = {j * 4096 | j. j < total_pages s \<and> free_after_Init es s m j}"
    using u unfolding free_frames_def by blast
  show "tail_ok es s m \<Longrightarrow> free_frames s m' = {j * 4096 | j. j < total_pages s \<and> allocatable es s j}"
    unfolding f using tail_ok_free by blast
qed

lemma tail_ok_le:
  assumes "tail_ok es s m" and "mapped m (bitmap s) (bitmap_bytes s)" and "m \<subseteq>\<^sub>m m'"
  shows "tail_ok es s m'"
proof -
  have "page_used s m' j = page_used s m j" if "j < total_pages s" for j
    using bitmap_byte_mapped [OF assms(2) below_total_in_bitmap [OF that]] assms(3)
    by (auto simp: page_used_def map_le_def dom_def)
  then show ?thesis using assms(1) by (auto simp: tail_ok_def stale_free_def)
qed

text \<open>The pages that \<^verbatim>\<open>Init\<close> locks for the bitmap hold all its bytes, the one that the rounded-down size leaves out too.\<close>

definition bitmap_inside :: "pmm \<Rightarrow> bool" where
  "bitmap_inside s \<longleftrightarrow> bitmap_bytes s \<le> 4096 * ((unat (bitmap_size s) + 4095) div 4096)"

lemma whole_bytes_inside: "8 dvd unat (total_pages s) \<Longrightarrow> bitmap_size s = total_pages s div 8 \<Longrightarrow> bitmap_inside s"
  by (auto simp: bitmap_inside_def bitmap_bytes_def unat_div8 dvd_def)

lemma whole_bytes_tail_ok: "8 dvd unat (total_pages s) \<Longrightarrow> bitmap_size s = total_pages s div 8 \<Longrightarrow> tail_ok es s m"
  by (auto simp: tail_ok_def stale_free_def unat_div8 word_less_nat_alt dvd_def)

section \<open>Properties\<close>

text \<open>A small machine: 2 MiB of memory with a hole, the higher-half map of the bitmap only.\<close>

definition demo_map :: "memmap_entry list" where
  "demo_map =
     [\<lparr>base = 0, length_of = 0x1000, type_of = 1\<rparr>,
      \<lparr>base = 0x100000, length_of = 0x80000, type_of = 0\<rparr>,
      \<lparr>base = 0x180000, length_of = 0x800, type_of = 7\<rparr>,
      \<lparr>base = 0x181000, length_of = 0x7F000, type_of = 0\<rparr>]"

definition demo_hhdm :: u64 where
  "demo_hhdm = 0xFFFF800000000000"

definition demo_pmm :: pmm where
  "demo_pmm = pmm_globals demo_map demo_hhdm"

lemma demo_pmm_simps [simp]:
  "bitmap demo_pmm = 0xFFFF800000100000" "total_pages demo_pmm = 512" "bitmap_size demo_pmm = 64"
  by (simp_all add: demo_pmm_def demo_map_def demo_hhdm_def pmm_globals_def highest_usable_def
      usable_def LIMINE_MEMMAP_USABLE_def Let_def)

lemma demo_map_ok: "memmap_ok demo_map"
  by (simp add: memmap_ok_def demo_map_def usable_def LIMINE_MEMMAP_USABLE_def)

lemma demo_region: "bitmap_region demo_map 64 = 0x100000"
  by (simp add: demo_map_def usable_def LIMINE_MEMMAP_USABLE_def)

lemma demo_bytes: "bitmap_bytes demo_pmm = 64"
  by (simp add: bitmap_bytes_def)

definition tiny_pmm :: pmm where
  "tiny_pmm = \<lparr>bitmap = 0x1000, total_pages = 16, bitmap_size = 2\<rparr>"

definition tiny_mem :: mem where
  "tiny_mem = [0x1000 \<mapsto> 0xFF, 0x1001 \<mapsto> 0xF5]"

lemma tiny_ok: "pmm_ok tiny_pmm 2 tiny_mem tiny_mem"
proof -
  have "mapped tiny_mem 0x1000 2"
    by (simp only: numeral_2_eq_2 mapped_Suc) (simp add: tiny_mem_def)
  then show ?thesis by (simp add: pmm_ok_def bitmap_ok_def tiny_pmm_def)
qed

text \<open>A map with a page count that is no multiple of 8, and with a reserved entry that starts in the middle of one page,
  ends in the middle of the next and lies over a usable page.\<close>

definition skewed_map :: "memmap_entry list" where
  "skewed_map =
     [\<lparr>base = 0x100000, length_of = 0x80000, type_of = 0\<rparr>,
      \<lparr>base = 0x180800, length_of = 0x1000, type_of = 7\<rparr>,
      \<lparr>base = 0x180000, length_of = 0x82000, type_of = 0\<rparr>]"

definition skewed_pmm :: pmm where
  "skewed_pmm = pmm_globals skewed_map demo_hhdm"

lemma skewed_pmm_simps [simp]:
  "bitmap skewed_pmm = 0xFFFF800000100000" "total_pages skewed_pmm = 514" "bitmap_size skewed_pmm = 64"
  by (simp_all add: skewed_pmm_def skewed_map_def demo_hhdm_def pmm_globals_def highest_usable_def
      usable_def LIMINE_MEMMAP_USABLE_def Let_def)

lemma skewed_map_ok: "memmap_ok skewed_map" "bitmap_region skewed_map 64 = 0x100000" "bitmap_bytes skewed_pmm = 65"
  by (simp_all add: memmap_ok_def skewed_map_def usable_def LIMINE_MEMMAP_USABLE_def bitmap_bytes_def)



text \<open>C14: AllocatePage returns the address of the lowest free page, marks that page
  and no other, and changes no byte outside the bitmap.\<close>

theorem AllocatePage_lowest:
  assumes "pmm_ok s n m0 m" and "j < total_pages s" and "\<not> page_used s m j"
  shows "\<exists>k m'. AllocatePage s m = Inr (k * 4096, m') \<and> k \<le> j \<and> \<not> page_used s m k \<and>
    (\<forall>i < k. page_used s m i) \<and> (\<forall>i. page_used s m' i \<longleftrightarrow> i = k \<or> page_used s m i) \<and>
    (\<forall>x. \<not> in_region (bitmap s) n x \<longrightarrow> m' x = m x)"
proof -
  have ok: "bitmap_ok s n m0 m" "unat (total_pages s) \<le> 8 * n"
    using assms(1) by (simp_all add: pmm_ok_def)
  with AllocatePage_result [OF ok] assms(2,3) obtain k m' where
    k: "lowest_free s m 0 k" "AllocatePage s m = Inr (k * 4096, m')" "takes_page s n m0 m k m'"
    by blast
  have "k \<le> j" using k(1) assms(3) unfolding lowest_free_def
    by (metis linorder_not_le word_zero_le)
  moreover have "m' x = m x" if "\<not> in_region (bitmap s) n x" for x
    using that ok(1) k(3) by (simp add: bitmap_ok_def takes_page_def)
  ultimately show ?thesis using k by (auto simp: lowest_free_def takes_page_def)
qed

theorem AllocatePage_lowest_witness:
  "\<exists>m'. AllocatePage tiny_pmm tiny_mem = Inr (9 * 4096, m') \<and> page_used tiny_pmm m' 9 \<and>
    \<not> page_used tiny_pmm m' 11"
proof -
  have u: "\<not> page_used tiny_pmm tiny_mem 9" "page_used tiny_pmm tiny_mem 8" "\<not> page_used tiny_pmm tiny_mem 11"
    by (simp_all add: page_used_def tiny_pmm_def tiny_mem_def bit_iff_odd)
  obtain k m' where k: "AllocatePage tiny_pmm tiny_mem = Inr (k * 4096, m')" "k \<le> 9"
      "\<not> page_used tiny_pmm tiny_mem k" "\<forall>i. page_used tiny_pmm m' i \<longleftrightarrow> i = k \<or> page_used tiny_pmm tiny_mem i"
    using AllocatePage_lowest [OF tiny_ok, of 9] u by (auto simp: tiny_pmm_def)
  have "page_used tiny_pmm tiny_mem j" if "j < 9" for j
  proof -
    have "unat j < 9" using that by (simp add: word_less_nat_alt)
    then have "j \<in> {0, 1, 2, 3, 4, 5, 6, 7, 8}"
      by (auto simp: word_unat_eq_iff)
    then show ?thesis by (auto simp: page_used_def tiny_pmm_def tiny_mem_def bit_iff_odd)
  qed
  then have "k = 9" using k(2,3) by (metis order.not_eq_order_implies_strict)
  with k u show ?thesis by auto
qed

text \<open>C34: AllocatePage panics, with its own message, exactly when no page is free.\<close>

theorem AllocatePage_exhausted:
  assumes "pmm_ok s n m0 m"
  shows "AllocatePage s m = Inl (Panic ''PMM: Tried to allocate memory but none was left'') \<longleftrightarrow>
    (\<forall>i < total_pages s. page_used s m i)"
  using AllocatePage_result [of s n m0 m] assms
  by (auto simp: pmm_ok_def lowest_free_def)

theorem AllocatePage_exhausted_witness:
  "AllocatePage (tiny_pmm\<lparr>total_pages := 8\<rparr>) tiny_mem =
     Inl (Panic ''PMM: Tried to allocate memory but none was left'')"
proof -
  have "pmm_ok (tiny_pmm\<lparr>total_pages := 8\<rparr>) 2 tiny_mem tiny_mem"
    using tiny_ok by (simp add: pmm_ok_def bitmap_ok_def)
  moreover have "page_used (tiny_pmm\<lparr>total_pages := 8\<rparr>) tiny_mem i" if "i < 8" for i
  proof -
    have "unat i < 8" using that by (simp add: word_less_nat_alt)
    then have "i \<in> {0, 1, 2, 3, 4, 5, 6, 7}" by (auto simp: word_unat_eq_iff)
    then show ?thesis by (auto simp: page_used_def tiny_pmm_def tiny_mem_def bit_iff_odd)
  qed
  ultimately show ?thesis using AllocatePage_exhausted by simp
qed

text \<open>The pages a system may hand out: whole usable pages at or above 1 MiB with no byte of a non-usable entry and
  outside the bitmap.\<close>

definition safe_page :: "memmap_entry list \<Rightarrow> pmm \<Rightarrow> u64 \<Rightarrow> bool" where
  "safe_page es s j \<longleftrightarrow> j < total_pages s \<and> usable_page es j \<and> 256 \<le> unat j \<and> \<not> reserved_page es j \<and>
     \<not> bitmap_page s (bitmap_region es (bitmap_size s)) j"

lemma allocatable_safe:
  "memmap_ok es \<Longrightarrow> usable_apart es \<Longrightarrow> j < total_pages s \<and> allocatable es s j \<longleftrightarrow> safe_page es s j"
  using usable_not_reserved [of es j]
  by (auto simp: allocatable_def safe_page_def locked_page_def reserved_page_def list_ex_iff)


text \<open>A map with an unaligned reserved entry beside its usable ones, whose last two pages, behind the rounded-down bitmap size,
  are usable.\<close>

definition tailed_map :: "memmap_entry list" where
  "tailed_map =
     [\<lparr>base = 0x100000, length_of = 0x80000, type_of = 0\<rparr>,
      \<lparr>base = 0x180800, length_of = 0x1000, type_of = 7\<rparr>,
      \<lparr>base = 0x182000, length_of = 0x80000, type_of = 0\<rparr>]"

definition tailed_pmm :: pmm where
  "tailed_pmm = pmm_globals tailed_map demo_hhdm"

lemma tailed_pmm_simps [simp]:
  "bitmap tailed_pmm = 0xFFFF800000100000" "total_pages tailed_pmm = 514" "bitmap_size tailed_pmm = 64"
  by (simp_all add: tailed_pmm_def tailed_map_def demo_hhdm_def pmm_globals_def highest_usable_def
      usable_def LIMINE_MEMMAP_USABLE_def Let_def)

lemma tailed_map_ok: "memmap_ok tailed_map" "usable_apart tailed_map" "bitmap_region tailed_map 64 = 0x100000"
  "bitmap_bytes tailed_pmm = 65"
  by (simp_all add: memmap_ok_def usable_apart_def bitmap_bytes_def tailed_map_def usable_def LIMINE_MEMMAP_USABLE_def)

lemma tailed_tail: "j < 514 \<Longrightarrow> 64 \<le> unat j div 8 \<Longrightarrow> usable_page tailed_map j"
  by (simp add: usable_page_def pages_from_def tailed_map_def usable_def LIMINE_MEMMAP_USABLE_def word_less_nat_alt; linarith)


text \<open>The bitmap is sized \<open>total_pages / 8\<close> rounded down, so when the page count is no
  multiple of 8 the last page's bit is in the byte just after the bitmap: the bit
  operations reach past its end, and fault where that byte is not mapped.\<close>

lemma last_page_outside_bitmap:
  assumes "unat (total_pages s) mod 8 \<noteq> 0" and "bitmap_size s = total_pages s div 8"
    and "m (bitmap s + bitmap_size s) = None"
  shows "total_pages s - 1 < total_pages s \<and>
    SetBit s (total_pages s - 1) m = Inl (PageFault (bitmap s + bitmap_size s)) \<and>
    TestBit s (total_pages s - 1) m = Inl (PageFault (bitmap s + bitmap_size s))"
proof -
  have pos: "0 < unat (total_pages s)" using assms(1) by (cases "unat (total_pages s)") auto
  then have u: "unat (total_pages s - 1) = unat (total_pages s) - 1"
    by (simp add: unat_minus_one unat_gt_0 [symmetric])
  then have "total_pages s - 1 < total_pages s" using pos by (simp add: word_less_nat_alt)
  moreover have "(t - 1) div 8 = t div 8" if "t mod 8 \<noteq> 0" for t :: nat
    using that by (cases t) (auto simp: div_Suc mod_Suc split: if_splits)
  ultimately have "total_pages s - 1 < total_pages s" "(unat (total_pages s) - 1) div 8 = unat (total_pages s) div 8"
    using assms(1) by blast+
  moreover then have "(total_pages s - 1) div 8 = bitmap_size s"
    using u assms(2) by (simp add: word_unat_eq_iff unat_div8)
  ultimately show ?thesis
    using assms(3) by (simp add: SetBit_def TestBit_def load8_def)
qed

lemma last_page_outside_bitmap_witness:
  "TestBit (tiny_pmm\<lparr>total_pages := 17\<rparr>) 16 tiny_mem = Inl (PageFault 0x1002)"
  using last_page_outside_bitmap [of "tiny_pmm\<lparr>total_pages := 17\<rparr>" tiny_mem]
  by (simp add: tiny_pmm_def tiny_mem_def)

end
