(* ===== verification/Vmm.thy ===== *)
theory Vmm
  imports Pmm
begin

text \<open>
  The virtual memory manager, \<^verbatim>\<open>kernel/arch/x86_64/mem/vmm.cpp\<close>: four-level
  x86-64 page tables that live in memory and are reached through the higher-half direct
  map. The specification side is the walk the processor makes
  over the same bytes; the theorem is that MapPage changes the walk of the mapped page and
  of no other, and keeps the tables a tree of distinct frames.
\<close>

section \<open>Entries and tables\<close>

type_synonym pt_entry = u64

definition PTE_PRESENT :: u64 where
  "PTE_PRESENT = push_bit 0 1"

definition PTE_WRITABLE :: u64 where
  "PTE_WRITABLE = push_bit 1 1"

definition PTE_USER :: u64 where
  "PTE_USER = push_bit 2 1"

definition PTE_ADDRESS :: u64 where
  "PTE_ADDRESS = 0x000FFFFFFFFFF000"

definition present :: "pt_entry \<Rightarrow> bool" where
  "present e \<longleftrightarrow> e AND PTE_PRESENT \<noteq> 0"

section \<open>The code\<close>

text \<open>Writing 4096 zero bytes to the new table.\<close>

definition zero_page :: "u64 \<Rightarrow> mem \<Rightarrow> mem res" where
  "zero_page new_table_virt = for_each (\<lambda>i m. store8 m (new_table_virt + of_nat i) 0) [0..<4096]"

definition GetNextTable :: "pmm \<Rightarrow> u64 \<Rightarrow> u64 \<Rightarrow> u64 \<Rightarrow> mem \<Rightarrow> (u64 \<times> mem) res" where
  "GetNextTable s current_table index hhdm_offset m =
     and_then (load64 m (current_table + index * 8)) (\<lambda>e.
       if \<not> present e then
         and_then (AllocatePage s m) (\<lambda>(new_table_phys, m).
           if new_table_phys = 0 then Inr (0, m)
           else
             and_then (zero_page (new_table_phys + hhdm_offset) m) (\<lambda>m.
             and_then (store64 m (current_table + index * 8)
                         (new_table_phys OR PTE_PRESENT OR PTE_WRITABLE)) (\<lambda>m.
             and_then (load64 m (current_table + index * 8)) (\<lambda>e.
               Inr ((e AND PTE_ADDRESS) + hhdm_offset, m)))))
       else Inr ((e AND PTE_ADDRESS) + hhdm_offset, m))"

definition pml4_idx :: "u64 \<Rightarrow> u64" where
  "pml4_idx virt_addr = drop_bit 39 virt_addr AND 0x1FF"

definition pdpt_idx :: "u64 \<Rightarrow> u64" where
  "pdpt_idx virt_addr = drop_bit 30 virt_addr AND 0x1FF"

definition pd_idx :: "u64 \<Rightarrow> u64" where
  "pd_idx virt_addr = drop_bit 21 virt_addr AND 0x1FF"

definition pt_idx :: "u64 \<Rightarrow> u64" where
  "pt_idx virt_addr = drop_bit 12 virt_addr AND 0x1FF"

text \<open>The four table indices of an address, which also tag its cached translation.\<close>

definition path :: "u64 \<Rightarrow> nat list" where
  "path va = [unat (pml4_idx va), unat (pdpt_idx va), unat (pd_idx va), unat (pt_idx va)]"

text \<open>Memory and the translations the processor has cached.\<close>

record paging =
  pmem :: mem
  ptlb :: "nat list \<Rightarrow> pt_entry option"

definition invlpg :: "u64 \<Rightarrow> paging \<Rightarrow> paging" where
  "invlpg va st = st\<lparr>ptlb := (ptlb st)(path va := None)\<rparr>"

definition MapPage :: "pmm \<Rightarrow> u64 \<Rightarrow> u64 \<Rightarrow> u64 \<Rightarrow> u64 \<Rightarrow> u64 \<Rightarrow> paging \<Rightarrow> paging res" where
  "MapPage s pml4_virt virt_addr phys_addr flags hhdm_offset st =
     and_then (GetNextTable s pml4_virt (pml4_idx virt_addr) hhdm_offset (pmem st)) (\<lambda>(pdpt, m).
     and_then (GetNextTable s pdpt (pdpt_idx virt_addr) hhdm_offset m) (\<lambda>(pd, m).
     and_then (GetNextTable s pd (pd_idx virt_addr) hhdm_offset m) (\<lambda>(pt, m).
     and_then (store64 m (pt + pt_idx virt_addr * 8)
                 ((phys_addr AND PTE_ADDRESS) OR flags OR PTE_PRESENT)) (\<lambda>m.
     Inr (invlpg virt_addr (st\<lparr>pmem := m\<rparr>))))))"

section \<open>The processor's walk\<close>

text \<open>
  What the processor reads (Intel SDM vol. 3A, 4.5): entry \<open>i\<close> of the table at \<open>t\<close>. A clear
  present bit ends the walk; a set page-size bit above the last level maps a
  large page. \<open>walk\<close> gives the levels left and the entry that maps the page.
\<close>

definition entry :: "mem \<Rightarrow> u64 \<Rightarrow> nat \<Rightarrow> pt_entry" where
  "entry m t i = (case load64 m (t + of_nat i * 8) of Inl _ \<Rightarrow> 0 | Inr e \<Rightarrow> e)"

definition page_size :: "pt_entry \<Rightarrow> bool" where
  "page_size e \<longleftrightarrow> bit e 7"

fun walk :: "mem \<Rightarrow> u64 \<Rightarrow> u64 \<Rightarrow> nat list \<Rightarrow> (nat \<times> pt_entry) option" where
  "walk m h t [] = None"
| "walk m h t (i # is) =
     (let e = entry m t i
      in if \<not> present e then None
         else if is = [] \<or> page_size e then Some (length is, e)
         else walk m h ((e AND PTE_ADDRESS) + h) is)"

text \<open>The table reached from the root by a list of indices.\<close>

definition child :: "mem \<Rightarrow> u64 \<Rightarrow> u64 option \<Rightarrow> nat \<Rightarrow> u64 option" where
  "child m h t i =
     (case t of None \<Rightarrow> None
      | Some t \<Rightarrow>
        (let e = entry m t i
         in if present e \<and> \<not> page_size e then Some ((e AND PTE_ADDRESS) + h) else None))"

definition node :: "mem \<Rightarrow> u64 \<Rightarrow> u64 \<Rightarrow> nat list \<Rightarrow> u64 option" where
  "node m h r p = foldl (child m h) (Some r) p"

lemma node_Nil [simp]: "node m h r [] = Some r"
  by (simp add: node_def)

lemma node_snoc [simp]: "node m h r (p @ [i]) = child m h (node m h r p) i"
  by (simp add: node_def)

lemma child_None [simp]: "child m h None i = None"
  by (simp add: child_def)

lemma node_append_None: "node m h r p = None \<Longrightarrow> node m h r (p @ q) = None"
  by (induction q rule: rev_induct) (simp_all flip: append_assoc)

text \<open>Index lists that address a table (at most three indices, each below 512).\<close>

definition table_path :: "nat list \<Rightarrow> bool" where
  "table_path p \<longleftrightarrow> length p \<le> 3 \<and> (\<forall>i \<in> set p. i < 512)"

lemma table_path_snoc:
  "table_path (p @ [i]) \<longleftrightarrow> table_path p \<and> length p \<le> 2 \<and> i < 512"
  by (auto simp: table_path_def)

section \<open>Pages as address regions\<close>

definition page_aligned :: "u64 \<Rightarrow> bool" where
  "page_aligned a \<longleftrightarrow> 4096 dvd unat a"

lemma page_aligned_no_wrap: "page_aligned a \<Longrightarrow> unat a + 4096 \<le> 2 ^ 64"
proof -
  assume "page_aligned a"
  then obtain k where "unat a = 4096 * k" by (auto simp: page_aligned_def)
  then show ?thesis using unat_u64_lt [of a] by (simp del: unat_u64_lt)
qed

lemma unat_page_offset: "page_aligned a \<Longrightarrow> k < 4096 \<Longrightarrow> unat (a + of_nat k) = unat a + k"
  using page_aligned_no_wrap [of a] by (intro unat_add_of_nat64) simp

lemma in_page_iff:
  assumes "page_aligned a"
  shows "in_region a 4096 x \<longleftrightarrow> unat x div 4096 = unat a div 4096"
proof -
  obtain k where k: "unat a = 4096 * k" using assms by (auto simp: page_aligned_def)
  show ?thesis
  proof
    assume "in_region a 4096 x"
    then obtain i where "i < 4096" "x = a + of_nat i" using in_region_offset [of 4096 a x] by auto
    then show "unat x div 4096 = unat a div 4096" using k assms by (simp add: unat_page_offset)
  next
    assume "unat x div 4096 = unat a div 4096"
    then have "unat x div 4096 * 4096 = unat a" using k by simp
    then have "unat x = unat a + unat x mod 4096"
      using div_mult_mod_eq [of "unat x" 4096] by linarith
    moreover have "unat (a + of_nat (unat x mod 4096)) = unat a + unat x mod 4096"
      using assms by (simp add: unat_page_offset)
    ultimately have "a + of_nat (unat x mod 4096) = x" by (metis word_unat_eq_iff)
    moreover have "unat x mod 4096 < 4096" by simp
    ultimately have "\<exists>i < 4096. x = a + of_nat i" by metis
    then show "in_region a 4096 x" by (subst in_region_offset) simp_all
  qed
qed

lemma pages_disjoint:
  assumes "page_aligned a" "page_aligned b" "a \<noteq> b"
  shows "region a 4096 \<inter> region b 4096 = {}"
proof -
  have "unat a div 4096 \<noteq> unat b div 4096"
    using assms by (metis dvd_div_eq_iff page_aligned_def word_unat_eq_iff)
  then show ?thesis by (auto simp: in_page_iff [OF assms(1)] in_page_iff [OF assms(2)])
qed

section \<open>Slots of a table\<close>

definition slot :: "u64 \<Rightarrow> nat \<Rightarrow> u64" where
  "slot t i = t + of_nat i * 8"

lemma slot_offset: "slot t i = t + of_nat (i * 8)"
  by (simp add: slot_def)

lemma in_slot_iff:
  assumes "i < 512"
  shows "in_region (slot t i) 8 x \<longleftrightarrow> (\<exists>k. i * 8 \<le> k \<and> k < i * 8 + 8 \<and> x = t + of_nat k)"
proof -
  have "in_region (slot t i) 8 x \<longleftrightarrow> (\<exists>k < 8. x = t + of_nat (i * 8) + of_nat k)"
    unfolding slot_offset by (subst in_region_offset) simp_all
  also have "\<dots> \<longleftrightarrow> (\<exists>k < 8. x = t + of_nat (i * 8 + k))" by (simp add: add.assoc)
  also have "\<dots> \<longleftrightarrow> (\<exists>k. i * 8 \<le> k \<and> k < i * 8 + 8 \<and> x = t + of_nat k)"
  proof
    assume "\<exists>k. i * 8 \<le> k \<and> k < i * 8 + 8 \<and> x = t + of_nat k"
    then obtain k where "i * 8 \<le> k" "k < i * 8 + 8" "x = t + of_nat k" by blast
    then have "k - i * 8 < 8" "x = t + of_nat (i * 8 + (k - i * 8))" by simp_all
    then show "\<exists>k < 8. x = t + of_nat (i * 8 + k)" by blast
  next
    assume "\<exists>k < 8. x = t + of_nat (i * 8 + k)"
    then show "\<exists>k. i * 8 \<le> k \<and> k < i * 8 + 8 \<and> x = t + of_nat k"
      by (metis add_less_cancel_left le_add1)
  qed
  finally show ?thesis .
qed

lemma slot_in_page: "i < 512 \<Longrightarrow> in_region (slot t i) 8 x \<Longrightarrow> in_region t 4096 x"
  unfolding in_slot_iff by auto

lemma slots_disjoint:
  assumes "i < 512" "j < 512" "i \<noteq> j"
  shows "region (slot t i) 8 \<inter> region (slot t j) 8 = {}"
proof -
  have False if k: "i * 8 \<le> k" "k < i * 8 + 8" and l: "j * 8 \<le> l" "l < j * 8 + 8"
    and eq: "t + of_nat k = t + of_nat l" for k l
  proof -
    have "k = l" using eq k l assms by (subst (asm) add_of_nat64_cancel) simp_all
    then show False using k l assms(3) by linarith
  qed
  then show ?thesis using assms(1,2) by (auto simp: in_slot_iff)
qed

lemma slot_mapped: "i < 512 \<Longrightarrow> mapped m t 4096 \<Longrightarrow> mapped m (slot t i) 8"
  unfolding slot_offset by (erule mapped_sub) linarith

lemma slots_of_other_pages:
  assumes "page_aligned t" "page_aligned u" "t \<noteq> u" "i < 512" "j < 512"
  shows "region (slot t i) 8 \<inter> region (slot u j) 8 = {}"
  using pages_disjoint [OF assms(1-3)] slot_in_page assms(4,5) by fastforce

text \<open>Entries after a change of memory.\<close>

lemma entry_load: "mapped m (slot t i) 8 \<Longrightarrow> load64 m (slot t i) = Inr (entry m t i)"
  using qword.ld_mapped [of m "slot t i"] by (auto simp: entry_def slot_def)

lemma entry_cong: "(\<And>x. in_region (slot t i) 8 x \<Longrightarrow> m' x = m x) \<Longrightarrow> entry m' t i = entry m t i"
  using qword.ld_cong [of "slot t i" m' m] by (simp add: entry_def slot_def)

lemma entry_store_same: "store64 m (slot t i) e = Inr m' \<Longrightarrow> entry m' t i = e"
  using qword.ld_st [of m "slot t i" e m'] by (simp add: entry_def slot_def)

lemma entry_store_other:
  assumes "store64 m (slot t i) e = Inr m'" "page_aligned t" "page_aligned u" "i < 512" "j < 512"
    and "(u, j) \<noteq> (t, i)"
  shows "entry m' u j = entry m u j"
proof -
  have "qword.apart (slot t i) (slot u j)"
    unfolding qword.apart_def
    using assms slots_disjoint [of i j t] slots_of_other_pages [of t u i j] by (cases "u = t") auto
  then show ?thesis
    using qword.ld_st_other [OF assms(1), of "slot u j"] by (simp add: entry_def slot_def)
qed

lemma zero_page_result:
  "mapped m a 4096 \<Longrightarrow> zero_page a m = Inr (put_bytes m a (replicate 4096 0))"
  unfolding zero_page_def by (rule fill_loop) simp_all

lemma get_zero_bytes: "le_join (replicate n 0) = 0"
  by (induction n) simp_all

lemma entry_zero_page:
  assumes "mapped m a 4096" "i < 512"
  shows "entry (put_bytes m a (replicate 4096 0)) a i = 0"
proof -
  let ?m = "put_bytes m a (replicate 4096 0)"
  have "mapped ?m a 4096"
    using assms(1) mapped_dom [OF dom_put_bytes [of m a "replicate 4096 0"]] by simp
  then have mp: "mapped ?m (slot a i) 8" by (rule slot_mapped [OF assms(2)])
  have "?m (slot a i + of_nat k) = Some 0" if "k < 8" for k
  proof -
    have "in_region a 4096 (slot a i + of_nat k)"
      using slot_in_page [OF assms(2), of a] in_region_add [of k "slot a i" 8] that by simp
    then show ?thesis by (simp add: put_bytes_def in_region_def)
  qed
  then have "get_bytes ?m (slot a i) 8 = replicate 8 0"
    by (intro nth_equalityI) simp_all
  then have "load64 ?m (slot a i) = Inr 0"
    using mp by (simp only: load64_def load_bytes_mapped and_then.simps get_zero_bytes)
  then show ?thesis by (simp add: entry_def slot_def)
qed

lemma entry_zero_bytes:
  assumes "\<And>x. in_region t 4096 x \<Longrightarrow> m x = Some 0" and "i < 512"
  shows "entry m t i = 0"
proof -
  have "m x = put_bytes m t (replicate 4096 0) x" for x
    using assms(1) by (auto simp: put_bytes_def in_region_def)
  then have "m = put_bytes m t (replicate 4096 0)" by blast
  moreover have "mapped m t 4096" using assms(1) by (simp add: mapped_region)
  ultimately show ?thesis using entry_zero_page [OF _ assms(2), of m t] by simp
qed

lemma zero_not_present [simp]: "\<not> present 0"
  by (simp add: present_def)

section \<open>The tree of tables\<close>

text \<open>
  Every table is reached along one path only. \<open>agree_except\<close> compares the entries of
  the tables of the old memory, one slot apart.
\<close>

definition tables_distinct :: "u64 \<Rightarrow> u64 \<Rightarrow> mem \<Rightarrow> bool" where
  "tables_distinct h r m \<longleftrightarrow>
     (\<forall>p q t. table_path p \<and> table_path q \<and> node m h r p = Some t \<and> node m h r q = Some t \<longrightarrow> p = q)"

definition agree_except :: "u64 \<Rightarrow> u64 \<Rightarrow> mem \<Rightarrow> mem \<Rightarrow> u64 \<Rightarrow> nat \<Rightarrow> bool" where
  "agree_except h r m m' t0 i0 \<longleftrightarrow>
     (\<forall>p t i. table_path p \<and> i < 512 \<and> node m h r p = Some t \<and> (t, i) \<noteq> (t0, i0) \<longrightarrow>
        entry m' t i = entry m t i)"

definition agree :: "u64 \<Rightarrow> u64 \<Rightarrow> mem \<Rightarrow> mem \<Rightarrow> bool" where
  "agree h r m m' \<longleftrightarrow>
     (\<forall>p t i. table_path p \<and> i < 512 \<and> node m h r p = Some t \<longrightarrow> entry m' t i = entry m t i)"

lemma child_eq: "entry m' t i = entry m t i \<Longrightarrow> child m' h (Some t) i = child m h (Some t) i"
  by (simp add: child_def)

lemma child_Some_iff:
  "child m h (Some t) i = Some u \<longleftrightarrow>
   present (entry m t i) \<and> \<not> page_size (entry m t i) \<and> u = (entry m t i AND PTE_ADDRESS) + h"
  by (auto simp: child_def Let_def)

lemma node_agree:
  assumes "agree h r m m'" and "table_path q"
  shows "node m' h r q = node m h r q"
  using assms(2)
proof (induction q rule: rev_induct)
  case Nil
  then show ?case by simp
next
  case (snoc i q)
  then have q: "table_path q" "i < 512" by (simp_all add: table_path_snoc)
  with snoc.IH have IH: "node m' h r q = node m h r q" by simp
  show ?case
  proof (cases "node m h r q")
    case (Some t)
    then have "entry m' t i = entry m t i" using assms(1) q unfolding agree_def by blast
    then show ?thesis using child_eq [of m' t i m h] by (simp add: IH Some)
  qed (simp add: IH)
qed

text \<open>A path of four indices splits into a table path and the indices still to go.\<close>

definition page_path :: "nat list \<Rightarrow> bool" where
  "page_path p \<longleftrightarrow> length p = 4 \<and> (\<forall>i \<in> set p. i < 512)"

lemma page_path_prefix:
  "page_path (p @ i # is) \<Longrightarrow> table_path p \<and> i < 512 \<and> (is \<noteq> [] \<longrightarrow> table_path (p @ [i]))"
proof -
  assume a: "page_path (p @ i # is)"
  then have l: "length p + Suc (length is) = 4" and b: "\<forall>j \<in> set p. j < 512" "i < 512"
    by (simp_all add: page_path_def)
  have "is \<noteq> [] \<Longrightarrow> length p \<le> 2" using l by (cases "is") simp_all
  then show ?thesis using l b by (auto simp: table_path_def)
qed

lemma walk_step:
  "walk m h t (i # is) =
     (if \<not> present (entry m t i) then None
      else if is = [] \<or> page_size (entry m t i) then Some (length is, entry m t i)
      else case child m h (Some t) i of None \<Rightarrow> None | Some u \<Rightarrow> walk m h u is)"
  by (simp add: child_def Let_def)

lemma walk_agree:
  assumes "agree h r m m'" and "page_path (p @ is)" and "node m h r p = Some t"
  shows "walk m' h t is = walk m h t is"
  using assms(2,3)
proof (induction "is" arbitrary: p t)
  case Nil
  then show ?case by simp
next
  case (Cons i "is")
  have p: "table_path p" "i < 512" "is \<noteq> [] \<Longrightarrow> table_path (p @ [i])"
    using page_path_prefix [OF Cons.prems(1)] by auto
  have e: "entry m' t i = entry m t i" using assms(1) p Cons.prems(2) unfolding agree_def by blast
  have "walk m' h u is = walk m h u is" if "child m h (Some t) i = Some u" for u
    using Cons.IH [of "p @ [i]" u] Cons.prems that by simp
  then show ?case unfolding walk_step e child_eq [OF e] by (simp split: option.split)
qed

text \<open>One new, empty table hung into a slot that was not present.\<close>

definition hangs_table :: "u64 \<Rightarrow> u64 \<Rightarrow> mem \<Rightarrow> mem \<Rightarrow> nat list \<Rightarrow> u64 \<Rightarrow> nat \<Rightarrow> u64 \<Rightarrow> bool" where
  "hangs_table h r m m' p0 t0 i0 t1 \<longleftrightarrow>
     tables_distinct h r m \<and> table_path (p0 @ [i0]) \<and> node m h r p0 = Some t0 \<and>
     agree_except h r m m' t0 i0 \<and> \<not> present (entry m t0 i0) \<and>
     child m' h (Some t0) i0 = Some t1 \<and> (\<forall>j < 512. entry m' t1 j = 0)"

lemma hangs_table_entry:
  assumes "hangs_table h r m m' p0 t0 i0 t1" "table_path p" "i < 512" "node m h r p = Some t"
    and "(p, i) \<noteq> (p0, i0)"
  shows "entry m' t i = entry m t i"
proof -
  have "table_path p0" using assms(1) by (simp add: hangs_table_def table_path_snoc)
  then have "(t, i) \<noteq> (t0, i0)"
    using assms unfolding hangs_table_def tables_distinct_def by blast
  then show ?thesis using assms unfolding hangs_table_def agree_except_def by blast
qed

lemma hangs_table_node:
  assumes H: "hangs_table h r m m' p0 t0 i0 t1" and "table_path q"
  shows "node m' h r q = (if q = p0 @ [i0] then Some t1 else node m h r q)"
  using assms(2)
proof (induction q rule: rev_induct)
  case Nil
  then show ?case by simp
next
  case (snoc i q)
  then have q: "table_path q" "i < 512" by (simp_all add: table_path_snoc)
  have old: "node m h r (p0 @ [i0]) = None" and p0: "node m h r p0 = Some t0"
    and new: "child m' h (Some t0) i0 = Some t1" "\<forall>j < 512. entry m' t1 j = 0"
    using H by (simp_all add: hangs_table_def child_def Let_def)
  show ?case
  proof (cases "q = p0 @ [i0]")
    case True
    then have "node m' h r q = Some t1" using snoc q by simp
    then have "node m' h r (q @ [i]) = None" using new(2) q by (simp add: child_def)
    moreover have "node m h r (q @ [i]) = None" using node_append_None [OF old, of "[i]"] unfolding True .
    ultimately show ?thesis using True by auto
  next
    case False
    then have IH: "node m' h r q = node m h r q" using snoc q by simp
    show ?thesis
    proof (cases "(q, i) = (p0, i0)")
      case True
      then show ?thesis using IH p0 new(1) by simp
    next
      case other: False
      have "child m' h (node m h r q) i = child m h (node m h r q) i"
      proof (cases "node m h r q")
        case (Some t)
        then show ?thesis using child_eq [OF hangs_table_entry [OF H q Some other]] by simp
      qed simp
      with other IH show ?thesis by auto
    qed
  qed
qed

lemma walk_empty_table:
  "\<forall>j < 512. entry m t j = 0 \<Longrightarrow> \<forall>i \<in> set is. i < 512 \<Longrightarrow> walk m h t is = None"
  by (cases "is") simp_all

lemma hangs_table_walk:
  assumes H: "hangs_table h r m m' p0 t0 i0 t1" and "page_path (p @ is)" "node m h r p = Some t"
  shows "walk m' h t is = walk m h t is"
  using assms(2,3)
proof (induction "is" arbitrary: p t)
  case Nil
  then show ?case by simp
next
  case (Cons i "is")
  have p: "table_path p" "i < 512" "is \<noteq> [] \<Longrightarrow> table_path (p @ [i])"
    using page_path_prefix [OF Cons.prems(1)] by auto
  show ?case
  proof (cases "(p, i) = (p0, i0)")
    case True
    then have t: "t = t0" using H Cons.prems(2) by (simp add: hangs_table_def)
    have "length p0 \<le> 2" using H by (simp add: hangs_table_def table_path_snoc)
    then have "is \<noteq> []" using Cons.prems(1) True by (auto simp: page_path_def)
    moreover have "\<forall>j \<in> set is. j < 512" using Cons.prems(1) by (simp add: page_path_def)
    ultimately have "walk m' h t0 (i0 # is) = None"
      using H walk_empty_table [of m' t1 "is" h]
      by (auto simp: walk_step hangs_table_def child_Some_iff)
    moreover have "walk m h t0 (i0 # is) = None" using H by (simp add: hangs_table_def)
    ultimately show ?thesis using True t by simp
  next
    case False
    have e: "entry m' t i = entry m t i"
      using hangs_table_entry [OF H p(1,2) Cons.prems(2) False] .
    have "walk m' h u is = walk m h u is" if "child m h (Some t) i = Some u" for u
      using Cons.IH [of "p @ [i]" u] Cons.prems that by simp
    then show ?thesis unfolding walk_step e child_eq [OF e] by (simp split: option.split)
  qed
qed

section \<open>The invariant\<close>

definition page_ok :: "pmm \<Rightarrow> nat \<Rightarrow> mem \<Rightarrow> u64 \<Rightarrow> bool" where
  "page_ok s n m t \<longleftrightarrow>
     page_aligned t \<and> mapped m t 4096 \<and> region t 4096 \<inter> region (bitmap s) n = {}"

text \<open>
  The allocator works; every table is a page of its own, apart from the bitmap and not
  free; every free frame is a page of the direct map apart from the bitmap, and its
  address fits the address bits of an entry.
\<close>

definition pt_ok :: "pmm \<Rightarrow> nat \<Rightarrow> u64 \<Rightarrow> u64 \<Rightarrow> mem \<Rightarrow> bool" where
  "pt_ok s n h r m \<longleftrightarrow>
     pmm_inv s n m \<and> tables_distinct h r m \<and>
     (\<forall>p t. table_path p \<and> node m h r p = Some t \<longrightarrow> page_ok s n m t \<and> t - h \<notin> free_frames s m) \<and>
     (\<forall>f \<in> free_frames s m. page_ok s n m (f + h) \<and> f \<noteq> 0 \<and> f AND PTE_ADDRESS = f)"

lemma page_ok_dom: "dom m' = dom m \<Longrightarrow> page_ok s n m' t = page_ok s n m t"
  using mapped_dom [of m' m t 4096] by (simp add: page_ok_def)

lemma pt_okD:
  assumes "pt_ok s n h r m"
  shows "pmm_inv s n m" and "tables_distinct h r m"
    and "table_path p \<Longrightarrow> node m h r p = Some t \<Longrightarrow> page_ok s n m t"
    and "table_path p \<Longrightarrow> node m h r p = Some t \<Longrightarrow> t - h \<notin> free_frames s m"
    and "f \<in> free_frames s m \<Longrightarrow> page_ok s n m (f + h)"
    and "f \<in> free_frames s m \<Longrightarrow> f \<noteq> 0"
    and "f \<in> free_frames s m \<Longrightarrow> f AND PTE_ADDRESS = f"
proof -
  note ok = assms [unfolded pt_ok_def]
  show "pmm_inv s n m" "tables_distinct h r m" using ok by blast+
  show "page_ok s n m t" "t - h \<notin> free_frames s m" if "table_path p" "node m h r p = Some t"
    using ok that by metis+
  show "page_ok s n m (f + h)" "f \<noteq> 0" "f AND PTE_ADDRESS = f" if "f \<in> free_frames s m"
    using ok that by simp_all
qed

lemma PTE_ADDRESS_bits: "bit PTE_ADDRESS k \<longleftrightarrow> 12 \<le> k \<and> k < 52"
proof -
  have "PTE_ADDRESS = push_bit 12 (mask 40)"
    by (simp add: PTE_ADDRESS_def mask_eq_exp_minus_1 push_bit_eq_mult)
  then have "bit PTE_ADDRESS k = bit (push_bit 12 (mask 40) :: u64) k" by (rule arg_cong)
  also have "\<dots> \<longleftrightarrow> 12 \<le> k \<and> k < 52" by (auto simp: bit_push_bit_iff bit_mask_iff)
  finally show ?thesis .
qed

lemma new_table_entry:
  assumes "f AND PTE_ADDRESS = f"
  shows "present (f OR PTE_PRESENT OR PTE_WRITABLE)"
    and "\<not> page_size (f OR PTE_PRESENT OR PTE_WRITABLE)"
    and "(f OR PTE_PRESENT OR PTE_WRITABLE) AND PTE_ADDRESS = f"
proof -
  have f: "bit f k \<Longrightarrow> 12 \<le> k \<and> k < 52" for k
    using assms PTE_ADDRESS_bits [of k] by (metis bit_and_iff)
  have one: "bit PTE_PRESENT k \<longleftrightarrow> k = 0" and two: "bit PTE_WRITABLE k \<longleftrightarrow> k = 1" for k
    by (auto simp: PTE_PRESENT_def PTE_WRITABLE_def bit_1_iff bit_2_iff)
  have "bit ((f OR PTE_PRESENT OR PTE_WRITABLE) AND PTE_PRESENT) 0"
    by (simp add: bit_and_iff bit_or_iff one)
  then show "present (f OR PTE_PRESENT OR PTE_WRITABLE)" by (auto simp: present_def)
  show "\<not> page_size (f OR PTE_PRESENT OR PTE_WRITABLE)"
    using f [of 7] by (auto simp: page_size_def bit_or_iff one two)
  show "(f OR PTE_PRESENT OR PTE_WRITABLE) AND PTE_ADDRESS = f"
    by (rule bit_word_eqI) (use f in \<open>auto simp: bit_and_iff bit_or_iff one two PTE_ADDRESS_bits\<close>)
qed

text \<open>What one call may change.\<close>

definition touches_only :: "pmm \<Rightarrow> nat \<Rightarrow> u64 \<Rightarrow> u64 \<Rightarrow> mem \<Rightarrow> mem \<Rightarrow> bool" where
  "touches_only s n h r m m' \<longleftrightarrow> dom m' = dom m \<and>
     (\<forall>x. m' x \<noteq> m x \<longrightarrow> in_region (bitmap s) n x \<or>
        (\<exists>p t. table_path p \<and> node m' h r p = Some t \<and> in_region t 4096 x))"

lemma slot_index: "current + (of_nat i :: u64) * 8 = slot current i"
  by (simp add: slot_def)

lemma GetNextTable_present:
  assumes "pt_ok s n h r m" and "table_path (p @ [i])" and "node m h r p = Some t"
    and "present (entry m t i)" and "\<not> page_size (entry m t i)"
  shows "\<exists>u. GetNextTable s t (of_nat i) h m = Inr (u, m) \<and> node m h r (p @ [i]) = Some u"
proof -
  have "table_path p" "i < 512" using assms(2) by (simp_all add: table_path_snoc)
  then have "mapped m (slot t i) 8"
    using pt_okD(3) [OF assms(1)] assms(3) slot_mapped by (auto simp: page_ok_def)
  then show ?thesis using assms(3-5)
    by (simp add: GetNextTable_def slot_index entry_load child_Some_iff)
qed

lemma GetNextTable_absent:
  assumes ok: "pt_ok s n h r m" and p: "table_path (p @ [i])" "node m h r p = Some t"
    and absent: "\<not> present (entry m t i)" and free: "free_frames s m \<noteq> {}"
  shows "\<exists>f m'. GetNextTable s t (of_nat i) h m = Inr (f + h, m') \<and> f \<in> free_frames s m \<and>
    hangs_table h r m m' p t i (f + h) \<and> pmm_inv s n m' \<and> free_frames s m' = free_frames s m - {f} \<and>
    dom m' = dom m \<and>
    (\<forall>x. m' x \<noteq> m x \<longrightarrow> in_region (bitmap s) n x \<or> in_region t 4096 x \<or> in_region (f + h) 4096 x)"
proof -
  have tp: "table_path p" "i < 512" using p(1) by (simp_all add: table_path_snoc)
  have t: "page_aligned t" "mapped m t 4096" "region t 4096 \<inter> region (bitmap s) n = {}"
    using pt_okD(3) [OF ok tp(1) p(2)] by (simp_all add: page_ok_def)
  obtain f m1 where a: "AllocatePage s m = Inr (f, m1)"
    using AllocatePage_some [OF pt_okD(1) [OF ok] free] by blast
  note fr = AllocatePage_frame [OF pt_okD(1) [OF ok] a]
  let ?v = "f + h" and ?e = "f OR PTE_PRESENT OR PTE_WRITABLE"
  have v: "page_aligned ?v" "mapped m ?v 4096" "region ?v 4096 \<inter> region (bitmap s) n = {}"
    using pt_okD(5) [OF ok fr(2)] by (simp_all add: page_ok_def)
  have f: "f \<noteq> 0" "f AND PTE_ADDRESS = f" using pt_okD(6,7) [OF ok fr(2)] by simp_all
  let ?m2 = "put_bytes m1 ?v (replicate 4096 0)"
  have v1: "mapped m1 ?v 4096" using v(2) mapped_dom [OF fr(4)] by simp
  have d2: "dom ?m2 = dom m" using dom_put_bytes [of m1 ?v "replicate 4096 0"] v1 fr(4) by simp
  have "mapped ?m2 (slot t i) 8"
    using slot_mapped [OF tp(2) t(2)] mapped_dom [OF d2] by simp
  then obtain m3 where st: "store64 ?m2 (slot t i) ?e = Inr m3" using qword.st_mapped by blast
  have d3: "dom m3 = dom m" using qword.st_dom [OF st] d2 by simp
  have e3: "entry m3 t i = ?e" by (rule entry_store_same [OF st])
  have m3: "m3 x = m1 x" if "\<not> in_region (slot t i) 8 x" "\<not> in_region ?v 4096 x" for x
    using qword.st_frame [OF st that(1)] that(2) by (simp add: put_bytes_def)
  have tv: "u \<noteq> ?v" if "table_path q" "node m h r q = Some u" for q u
    using pt_okD(4) [OF ok that] fr(2) by auto
  have other: "entry m3 u j = entry m u j"
    if "table_path q" "j < 512" "node m h r q = Some u" "(u, j) \<noteq> (t, i)" for q u j
  proof -
    have u: "page_aligned u" "region u 4096 \<inter> region (bitmap s) n = {}"
      using pt_okD(3) [OF ok that(1,3)] by (simp_all add: page_ok_def)
    have "entry m3 u j = entry ?m2 u j"
      using entry_store_other [OF st t(1) u(1) tp(2) that(2)] that(4) by blast
    also have "\<dots> = entry m1 u j"
    proof (rule entry_cong)
      fix x assume "in_region (slot u j) 8 x"
      then have "in_region u 4096 x" by (rule slot_in_page [OF that(2)])
      then have "\<not> in_region ?v 4096 x"
        using pages_disjoint [OF u(1) v(1) tv [OF that(1,3)]] by (auto simp: set_eq_iff)
      then show "?m2 x = m1 x" by (simp add: put_bytes_def)
    qed
    also have "\<dots> = entry m u j"
    proof (rule entry_cong)
      fix x assume "in_region (slot u j) 8 x"
      then have "in_region u 4096 x" by (rule slot_in_page [OF that(2)])
      then have "\<not> in_region (bitmap s) n x" using u(2) by (auto simp: set_eq_iff)
      then show "m1 x = m x" by (rule fr(5))
    qed
    finally show ?thesis .
  qed
  have zero: "entry m3 ?v j = 0" if "j < 512" for j
    using entry_store_other [OF st t(1) v(1) tp(2) that] tv [OF tp(1) p(2)] entry_zero_page [OF v1 that]
    by simp
  have bm: "m3 x = m1 x" if "in_region (bitmap s) n x" for x
  proof (rule m3)
    show "\<not> in_region (slot t i) 8 x"
      using that t(3) slot_in_page [OF tp(2), of t x] by (auto simp: set_eq_iff)
    show "\<not> in_region ?v 4096 x" using that v(3) by (auto simp: set_eq_iff)
  qed
  have "dom m3 = dom m1" using d3 fr(4) by simp
  note inv3 = pmm_inv_frame [OF fr(1) this bm]
  have "GetNextTable s t (of_nat i) h m = Inr (?v, m3)"
    using f(1) absent a st new_table_entry(3) [OF f(2)] e3
      entry_load [OF slot_mapped [OF tp(2) t(2)]]
      entry_load [of m3 t i] slot_mapped [OF tp(2), of m3 t] t(2) mapped_dom [OF d3]
    by (simp add: GetNextTable_def slot_index zero_page_result [OF v1])
  moreover have "hangs_table h r m m3 p t i ?v"
    unfolding hangs_table_def agree_except_def child_Some_iff e3
    using pt_okD(2) [OF ok] p absent new_table_entry [OF f(2)] other zero by auto
  moreover have "in_region (bitmap s) n x \<or> in_region t 4096 x \<or> in_region ?v 4096 x"
    if "m3 x \<noteq> m x" for x
    using that m3 [of x] fr(5) [of x] slot_in_page [OF tp(2), of t x] by metis
  ultimately show ?thesis using fr(2,3) inv3 d3 by blast
qed

text \<open>Hanging a free frame in as a new table keeps the invariant.\<close>

lemma hangs_table_pt_ok:
  assumes ok: "pt_ok s n h r m" and H: "hangs_table h r m m' p t i (f + h)"
    and f: "f \<in> free_frames s m" and inv: "pmm_inv s n m'"
    and fr: "free_frames s m' = free_frames s m - {f}" and d: "dom m' = dom m"
  shows "pt_ok s n h r m'"
proof -
  note node' = hangs_table_node [OF H]
  have old: "u - h \<notin> free_frames s m" "page_ok s n m' u"
    if "table_path q" "node m h r q = Some u" for q u
    using pt_okD(3,4) [OF ok that] page_ok_dom [OF d] by simp_all
  have fresh: "u \<noteq> f + h" if "table_path q" "node m h r q = Some u" for q u
    using old(1) [OF that] f by auto
  have "q = q'" if q: "table_path q" "table_path q'" "node m' h r q = Some u" "node m' h r q' = Some u"
    for q q' u
  proof (cases "q = p @ [i] \<or> q' = p @ [i]")
    case True
    then show ?thesis using q node' [OF q(1)] node' [OF q(2)] fresh by (auto split: if_splits)
  next
    case False
    then have "node m h r q = Some u" "node m h r q' = Some u"
      using q node' [OF q(1)] node' [OF q(2)] by auto
    then show ?thesis using pt_okD(2) [OF ok] q(1,2) unfolding tables_distinct_def by blast
  qed
  then have "tables_distinct h r m'" unfolding tables_distinct_def by blast
  moreover have "page_ok s n m' u \<and> u - h \<notin> free_frames s m'"
    if q: "table_path q" "node m' h r q = Some u" for q u
  proof (cases "q = p @ [i]")
    case True
    then have "u = f + h" using q node' [OF q(1)] by simp
    then show ?thesis using pt_okD(5) [OF ok f] page_ok_dom [OF d] fr by simp
  next
    case False
    then have "node m h r q = Some u" using q node' [OF q(1)] by simp
    then show ?thesis using old q(1) fr by blast
  qed
  moreover have "page_ok s n m' (g + h) \<and> g \<noteq> 0 \<and> g AND PTE_ADDRESS = g"
    if "g \<in> free_frames s m'" for g
    using that fr pt_okD(5-7) [OF ok, of g] page_ok_dom [OF d] by simp
  ultimately show ?thesis unfolding pt_ok_def using inv by blast
qed

text \<open>One GetNextTable: the next table of the path is there and no translation changes.\<close>

definition next_table :: "pmm \<Rightarrow> nat \<Rightarrow> u64 \<Rightarrow> u64 \<Rightarrow> mem \<Rightarrow> nat list \<Rightarrow> u64 \<Rightarrow> mem \<Rightarrow> bool" where
  "next_table s n h r m p u m' \<longleftrightarrow>
     pt_ok s n h r m' \<and> node m' h r p = Some u \<and> touches_only s n h r m m' \<and>
     (\<forall>is. page_path is \<longrightarrow> walk m' h r is = walk m h r is) \<and>
     (\<forall>q. table_path q \<longrightarrow> node m h r q \<noteq> None \<longrightarrow> node m' h r q = node m h r q) \<and>
     (\<forall>q t. table_path q \<longrightarrow> node m' h r q = Some t \<longrightarrow> node m h r q = Some t \<or> t - h \<in> free_frames s m) \<and>
     card (free_frames s m) \<le> Suc (card (free_frames s m')) \<and> free_frames s m' \<subseteq> free_frames s m"

lemma GetNextTable_step:
  assumes ok: "pt_ok s n h r m" and p: "table_path (p @ [i])" "node m h r p = Some t"
    and small: "\<not> (present (entry m t i) \<and> page_size (entry m t i))"
    and free: "free_frames s m \<noteq> {}"
  shows "\<exists>u m'. GetNextTable s t (of_nat i) h m = Inr (u, m') \<and> next_table s n h r m (p @ [i]) u m'"
proof (cases "present (entry m t i)")
  case True
  then obtain u where "GetNextTable s t (of_nat i) h m = Inr (u, m)" "node m h r (p @ [i]) = Some u"
    using GetNextTable_present [OF ok p] small by blast
  moreover have "next_table s n h r m (p @ [i]) u m"
    using ok calculation(2) by (simp add: next_table_def touches_only_def)
  ultimately show ?thesis by blast
next
  case False
  then obtain f m' where g: "GetNextTable s t (of_nat i) h m = Inr (f + h, m')"
      "f \<in> free_frames s m" "hangs_table h r m m' p t i (f + h)" "pmm_inv s n m'"
      "free_frames s m' = free_frames s m - {f}" "dom m' = dom m"
      "\<forall>x. m' x \<noteq> m x \<longrightarrow> in_region (bitmap s) n x \<or> in_region t 4096 x \<or> in_region (f + h) 4096 x"
    using GetNextTable_absent [OF ok p _ free] by blast
  have node': "node m' h r q = (if q = p @ [i] then Some (f + h) else node m h r q)"
    if "table_path q" for q using hangs_table_node [OF g(3) that] .
  have tp: "table_path p" "p \<noteq> p @ [i]" using p(1) by (simp_all add: table_path_snoc)
  have "touches_only s n h r m m'"
    unfolding touches_only_def using g(6,7) node' [OF tp(1)] node' [OF p(1)] p tp by metis
  moreover have "card (free_frames s m) \<le> Suc (card (free_frames s m'))"
    using g(5) by (simp add: card.remove [OF pages.finite_free g(2)])
  moreover have "node m h r (p @ [i]) = None" using False p(2) by (simp add: child_def)
  moreover have "child m' h (node m' h r p) i = Some (f + h)" using node' [OF p(1)] by simp
  ultimately have "next_table s n h r m (p @ [i]) (f + h) m'"
    unfolding next_table_def
    using hangs_table_pt_ok [OF ok g(3,2,4,5,6)] g(2,5) node' p hangs_table_walk [OF g(3), of "[]"] by auto
  with g(1) show ?thesis by blast
qed

text \<open>The last store: one entry of a last-level table.\<close>

lemma leaf_agree:
  assumes ok: "pt_ok s n h r m" and p: "table_path p" "length p = 3" "i < 512" "node m h r p = Some t"
    and st: "store64 m (slot t i) e = Inr m'"
  shows "table_path q \<Longrightarrow> j < 512 \<Longrightarrow> node m h r q = Some u \<Longrightarrow> (q, j) \<noteq> (p, i) \<Longrightarrow>
      entry m' u j = entry m u j"
    and "table_path q \<Longrightarrow> node m' h r q = node m h r q"
proof -
  show other: "entry m' u j = entry m u j"
    if "table_path q" "j < 512" "node m h r q = Some u" "(q, j) \<noteq> (p, i)" for q u j
  proof -
    have "(u, j) \<noteq> (t, i)" using pt_okD(2) [OF ok] that p unfolding tables_distinct_def by blast
    then show ?thesis
      using entry_store_other [OF st, of u j] pt_okD(3) [OF ok] that p by (auto simp: page_ok_def)
  qed
  show "node m' h r q = node m h r q" if "table_path q"
    using that
  proof (induction q rule: rev_induct)
    case Nil
    then show ?case by simp
  next
    case (snoc j q)
    then have q: "table_path q" "j < 512" "length q \<le> 2" by (simp_all add: table_path_snoc)
    show ?case
    proof (cases "node m h r q")
      case (Some u)
      have "(q, j) \<noteq> (p, i)" using q(3) p(2) by auto
      then show ?thesis using child_eq [OF other [OF q(1,2) Some]] snoc.IH q(1) Some by simp
    qed (use snoc.IH q(1) in simp)
  qed
qed

lemma walk_leaf:
  assumes "node m h r [a, b, c] = Some t" "page_path [a, b, c, d]"
  shows "walk m h r [a, b, c, d] =
    (if present (entry m t d) then Some (0, entry m t d) else None)"
proof -
  obtain t1 t2 where "child m h (Some r) a = Some t1" "child m h (Some t1) b = Some t2"
      "child m h (Some t2) c = Some t"
    using assms(1) by (auto simp: node_def child_def split: option.splits)
  then show ?thesis by (auto simp: child_Some_iff Let_def)
qed

lemma walk_other_leaf:
  assumes ok: "pt_ok s n h r m" and p: "table_path p" "length p = 3" "i < 512" "node m h r p = Some t"
    and st: "store64 m (slot t i) e = Inr m'"
    and w: "page_path (q @ is)" "q @ is \<noteq> p @ [i]" "node m h r q = Some u"
  shows "walk m' h u is = walk m h u is"
  using w
proof (induction "is" arbitrary: q u)
  case Nil
  then show ?case by simp
next
  case (Cons j "is")
  have q: "table_path q" "j < 512" "is \<noteq> [] \<Longrightarrow> table_path (q @ [j])"
    using page_path_prefix [OF Cons.prems(1)] by auto
  have "(q, j) \<noteq> (p, i)"
  proof
    assume "(q, j) = (p, i)"
    moreover from this have "length is = 0" using Cons.prems(1) p(2) by (auto simp: page_path_def)
    ultimately show False using Cons.prems(2) by simp
  qed
  then have e: "entry m' u j = entry m u j"
    using leaf_agree(1) [OF ok p st q(1,2) Cons.prems(3)] by blast
  have "walk m' h v is = walk m h v is" if "child m h (Some u) j = Some v" for v
    using Cons.IH [of "q @ [j]" v] Cons.prems that by simp
  then show ?case unfolding walk_step e child_eq [OF e] by (simp split: option.split)
qed

section \<open>MapPage\<close>

definition pte_for :: "u64 \<Rightarrow> u64 \<Rightarrow> pt_entry" where
  "pte_for phys flags = (phys AND PTE_ADDRESS) OR flags OR PTE_PRESENT"

lemma present_pte_for: "present (pte_for phys flags)"
proof -
  have "bit (pte_for phys flags AND PTE_PRESENT) 0"
    by (simp add: pte_for_def PTE_PRESENT_def bit_and_iff bit_or_iff)
  then show ?thesis by (auto simp: present_def)
qed

lemma idx_bound: "unat (w AND 0x1FF :: u64) < 512"
proof -
  have "w AND 0x1FF = take_bit 9 w" by (simp add: take_bit_eq_mask mask_eq_exp_minus_1)
  then show ?thesis by (simp add: unsigned_take_bit_eq take_bit_nat_less_exp [of 9, simplified])
qed

lemma page_path_path: "page_path (path va)"
  by (simp add: page_path_def path_def pml4_idx_def pdpt_idx_def pd_idx_def pt_idx_def idx_bound)

lemma touches_only_trans:
  assumes "touches_only s n h r m m1" "touches_only s n h r m1 m2"
    and "\<forall>q. table_path q \<longrightarrow> node m1 h r q \<noteq> None \<longrightarrow> node m2 h r q = node m1 h r q"
  shows "touches_only s n h r m m2"
  unfolding touches_only_def
proof (intro conjI allI impI)
  show "dom m2 = dom m" using assms(1,2) by (simp add: touches_only_def)
  fix x assume x: "m2 x \<noteq> m x"
  show "in_region (bitmap s) n x \<or> (\<exists>p t. table_path p \<and> node m2 h r p = Some t \<and> in_region t 4096 x)"
  proof (cases "m2 x = m1 x")
    case True
    then show ?thesis using x assms(1,3) unfolding touches_only_def by (metis option.distinct(1))
  next
    case False
    then show ?thesis using assms(2) unfolding touches_only_def by blast
  qed
qed

lemma small_path:
  assumes "\<And>k e. walk m h r (p @ i # is) = Some (k, e) \<Longrightarrow> k = 0"
    and "node m h r p = Some t" and "is \<noteq> []"
    and "walk m h t (i # is) = walk m h r (p @ i # is)"
  shows "\<not> (present (entry m t i) \<and> page_size (entry m t i))"
proof
  assume "present (entry m t i) \<and> page_size (entry m t i)"
  then have "walk m h t (i # is) = Some (length is, entry m t i)" by (simp add: Let_def)
  then show False using assms(1) [of "length is" "entry m t i"] assms(3,4) by simp
qed

lemma walk_node:
  "node m h r p = Some t \<Longrightarrow> is \<noteq> [] \<Longrightarrow> walk m h r (p @ is) = walk m h t is"
proof (induction p arbitrary: "is" t rule: rev_induct)
  case Nil
  then show ?case by simp
next
  case (snoc i p)
  then obtain u where u: "node m h r p = Some u" "child m h (Some u) i = Some t"
    by (cases "node m h r p") auto
  have "walk m h r (p @ i # is) = walk m h u (i # is)" using snoc.IH [OF u(1)] by simp
  also have "\<dots> = walk m h t is" using u(2) snoc.prems(2) by (auto simp: child_Some_iff Let_def)
  finally show ?case by simp
qed

lemma pt_ok_same_nodes:
  assumes ok: "pt_ok s n h r m" and node': "\<And>q. table_path q \<Longrightarrow> node m' h r q = node m h r q"
    and inv: "pmm_inv s n m'" "free_frames s m' = free_frames s m" and d: "dom m' = dom m"
  shows "pt_ok s n h r m'"
proof -
  have "tables_distinct h r m'"
    using pt_okD(2) [OF ok] node' unfolding tables_distinct_def by metis
  moreover have "page_ok s n m' t \<and> t - h \<notin> free_frames s m'"
    if "table_path p" "node m' h r p = Some t" for p t
    using pt_okD(3,4) [OF ok that(1)] node' [OF that(1)] that(2) page_ok_dom [OF d] inv(2) by simp
  moreover have "page_ok s n m' (f + h) \<and> f \<noteq> 0 \<and> f AND PTE_ADDRESS = f"
    if "f \<in> free_frames s m'" for f
    using pt_okD(5-7) [OF ok, of f] that page_ok_dom [OF d] inv(2) by simp
  ultimately show ?thesis unfolding pt_ok_def using inv(1) by blast
qed

declare walk.simps(2) [simp del]

text \<open>No page above the last level covers the address.\<close>

definition no_large_page :: "u64 \<Rightarrow> u64 \<Rightarrow> mem \<Rightarrow> u64 \<Rightarrow> bool" where
  "no_large_page h r m va = (case walk m h r (path va) of None \<Rightarrow> True | Some (k, e) \<Rightarrow> k = 0)"

lemma no_large_pageD: "no_large_page h r m va \<Longrightarrow> walk m h r (path va) = Some (k, e) \<Longrightarrow> k = 0"
  by (simp add: no_large_page_def)

text \<open>All of MapPage on the memory side.\<close>

lemma MapPage_memory:
  assumes ok: "pt_ok s n h r (pmem st)" and free: "3 \<le> card (free_frames s (pmem st))"
    and small: "no_large_page h r (pmem st) va"
  shows "\<exists>m'. MapPage s r va pa flags h st = Inr (invlpg va (st\<lparr>pmem := m'\<rparr>)) \<and>
    pt_ok s n h r m' \<and> touches_only s n h r (pmem st) m' \<and>
    walk m' h r (path va) = Some (0, pte_for pa flags) \<and>
    (\<forall>p. page_path p \<longrightarrow> p \<noteq> path va \<longrightarrow> walk m' h r p = walk (pmem st) h r p) \<and>
    card (free_frames s (pmem st)) \<le> card (free_frames s m') + 3 \<and>
    free_frames s m' \<subseteq> free_frames s (pmem st) \<and>
    (\<forall>q t. table_path q \<longrightarrow> node m' h r q = Some t \<longrightarrow> node (pmem st) h r q = Some t \<or> t - h \<in> free_frames s (pmem st))"
proof -
  let ?m = "pmem st"
  define a b c d where "a = unat (pml4_idx va)" "b = unat (pdpt_idx va)" "c = unat (pd_idx va)"
    "d = unat (pt_idx va)"
  have path: "path va = [a, b, c, d]" by (simp add: path_def a_b_c_d_def)
  have idx: "pml4_idx va = of_nat a" "pdpt_idx va = of_nat b" "pd_idx va = of_nat c"
    "pt_idx va = of_nat d" by (simp_all add: a_b_c_d_def)
  have pp: "page_path [a, b, c, d]" using page_path_path [of va] path by simp
  then have tp: "table_path ([] @ [a])" "table_path ([a] @ [b])" "table_path ([a, b] @ [c])" "d < 512"
    by (auto simp: page_path_def table_path_def)
  have some: "X \<noteq> {}" if "0 < card X" for X :: "u64 set" using that by auto
  have small0: "\<And>k e. walk ?m h r [a, b, c, d] = Some (k, e) \<Longrightarrow> k = 0"
    using no_large_pageD [OF small] path by simp
  have h1: "\<not> (present (entry ?m r a) \<and> page_size (entry ?m r a))"
    by (rule small_path [of ?m h r "[]" a "[b, c, d]"]) (use small0 in simp_all)
  obtain t1 m1 where g1: "GetNextTable s r (of_nat a) h ?m = Inr (t1, m1)"
      and n1: "next_table s n h r ?m [a] t1 m1"
    using GetNextTable_step [OF ok tp(1) _ h1 some] free by auto
  have ok1: "pt_ok s n h r m1" and t1: "node m1 h r [a] = Some t1"
    and c1: "card (free_frames s ?m) \<le> Suc (card (free_frames s m1))"
    and w1: "\<And>p. page_path p \<Longrightarrow> walk m1 h r p = walk ?m h r p"
    using n1 by (simp_all add: next_table_def)
  have h2: "\<not> (present (entry m1 t1 b) \<and> page_size (entry m1 t1 b))"
  proof (rule small_path [of m1 h r "[a]" b "[c, d]"])
    show "k = 0" if "walk m1 h r ([a] @ b # [c, d]) = Some (k, e)" for k e
      using that small0 w1 [OF pp] by simp
    show "walk m1 h t1 (b # [c, d]) = walk m1 h r ([a] @ b # [c, d])"
      using walk_node [OF t1, of "[b, c, d]"] by (simp only: list.distinct not_False_eq_True)
  qed (simp_all only: t1 list.distinct not_False_eq_True)
  obtain t2 m2 where g2: "GetNextTable s t1 (of_nat b) h m1 = Inr (t2, m2)"
      and n2: "next_table s n h r m1 [a, b] t2 m2"
    using GetNextTable_step [OF ok1 tp(2) t1 h2 some] free c1 by auto
  have ok2: "pt_ok s n h r m2" and t2: "node m2 h r [a, b] = Some t2"
    and c2: "card (free_frames s m1) \<le> Suc (card (free_frames s m2))"
    and w2: "\<And>p. page_path p \<Longrightarrow> walk m2 h r p = walk m1 h r p"
    using n2 by (simp_all add: next_table_def)
  have h3: "\<not> (present (entry m2 t2 c) \<and> page_size (entry m2 t2 c))"
  proof (rule small_path [of m2 h r "[a, b]" c "[d]"])
    show "k = 0" if "walk m2 h r ([a, b] @ c # [d]) = Some (k, e)" for k e
      using that small0 w1 [OF pp] w2 [OF pp] by simp
    show "walk m2 h t2 (c # [d]) = walk m2 h r ([a, b] @ c # [d])"
      using walk_node [OF t2, of "[c, d]"] by (simp only: list.distinct not_False_eq_True)
  qed (simp_all only: t2 list.distinct not_False_eq_True)
  obtain t3 m3 where g3: "GetNextTable s t2 (of_nat c) h m2 = Inr (t3, m3)"
      and n3: "next_table s n h r m2 [a, b, c] t3 m3"
    using GetNextTable_step [OF ok2 tp(3) t2 h3 some] free c1 c2 by auto
  have ok3: "pt_ok s n h r m3" and t3: "node m3 h r [a, b, c] = Some t3"
    and c3: "card (free_frames s m2) \<le> Suc (card (free_frames s m3))"
    and w3: "\<And>p. page_path p \<Longrightarrow> walk m3 h r p = walk m2 h r p"
    using n3 by (simp_all add: next_table_def)
  have abc: "table_path [a, b, c]" "length [a, b, c] = 3" using tp(3) by simp_all
  have pk: "page_ok s n m3 t3" by (rule pt_okD(3) [OF ok3 abc(1) t3])
  obtain m4 where st: "store64 m3 (slot t3 d) (pte_for pa flags) = Inr m4"
    using qword.st_mapped slot_mapped [OF tp(4)] pk by (fastforce simp: page_ok_def)
  note leaf = leaf_agree [OF ok3 abc tp(4) t3 st]
  have node4: "node m4 h r q = node m3 h r q" if "table_path q" for q by (rule leaf(2) [OF that])
  have d4: "dom m4 = dom m3" by (rule qword.st_dom [OF st])
  have fr4: "m4 x = m3 x" if "\<not> in_region t3 4096 x" for x
    using qword.st_frame [OF st] slot_in_page [OF tp(4), of t3 x] that by blast
  have bm4: "m4 x = m3 x" if "in_region (bitmap s) n x" for x
    using fr4 [of x] pk that by (auto simp: page_ok_def set_eq_iff)
  note inv4 = pmm_inv_frame [OF pt_okD(1) [OF ok3] d4 bm4]
  have ok4: "pt_ok s n h r m4" by (rule pt_ok_same_nodes [OF ok3 node4 inv4 d4])
  have to4: "touches_only s n h r m3 m4"
    unfolding touches_only_def using d4 fr4 node4 [OF abc(1)] t3 abc(1) by metis
  have "walk m4 h r [a, b, c, d] = Some (0, pte_for pa flags)"
    using walk_leaf [of m4 h r a b c t3 d] node4 [OF abc(1)] t3 pp entry_store_same [OF st]
      present_pte_for by simp
  moreover have "walk m4 h r p = walk ?m h r p" if "page_path p" "p \<noteq> [a, b, c, d]" for p
    using walk_other_leaf [OF ok3 abc tp(4) t3 st, of "[]" p r] that w1 w2 w3 by simp
  moreover have "touches_only s n h r ?m m4"
  proof -
    have "touches_only s n h r ?m m2"
      by (rule touches_only_trans [of s n h r ?m m1]) (use n1 n2 in \<open>auto simp: next_table_def\<close>)
    then have "touches_only s n h r ?m m3"
      by (rule touches_only_trans) (use n3 in \<open>auto simp: next_table_def\<close>)
    then show ?thesis by (rule touches_only_trans [OF _ to4]) (use node4 in auto)
  qed
  moreover have "MapPage s r va pa flags h st = Inr (invlpg va (st\<lparr>pmem := m4\<rparr>))"
    using st by (simp add: MapPage_def idx g1 g2 g3 slot_index pte_for_def)
  moreover have "card (free_frames s ?m) \<le> card (free_frames s m4) + 3" using c1 c2 c3 inv4(2) by simp
  moreover have "free_frames s m4 \<subseteq> free_frames s ?m"
    using n1 n2 n3 inv4(2) unfolding next_table_def by blast
  moreover have "node ?m h r q = Some t \<or> t - h \<in> free_frames s ?m" if "table_path q" "node m4 h r q = Some t" for q t
    using that node4 [OF that(1)] n1 n2 n3 unfolding next_table_def by (metis subsetD)
  ultimately show ?thesis using ok4 unfolding path by (intro exI [of _ m4] conjI allI impI)
qed

section \<open>Establishing the invariant\<close>

lemma node_empty_root:
  assumes "\<forall>i < 512. entry m r i = 0" and "table_path p"
  shows "node m h r p = Some t \<longleftrightarrow> p = [] \<and> t = r"
  using assms(2)
proof (induction p arbitrary: t rule: rev_induct)
  case Nil
  then show ?case by auto
next
  case (snoc i p)
  then have p: "table_path p" "i < 512" by (simp_all add: table_path_snoc)
  show ?case
  proof (cases "node m h r p")
    case (Some u)
    then have "u = r" using snoc.IH [OF p(1)] by blast
    then show ?thesis using Some assms(1) p(2) by (simp add: child_Some_iff)
  qed simp
qed

lemma frame_address_bits:
  assumes "unat i < 2 ^ 40"
  shows "(i * 4096 :: u64) AND PTE_ADDRESS = i * 4096"
proof -
  have i: "i = take_bit 40 i"
    using assms by (simp add: word_unat_eq_iff unsigned_take_bit_eq take_bit_nat_eq_self)
  have "bit i k \<Longrightarrow> k < 40" for k by (subst (asm) i) (simp add: bit_take_bit_iff)
  then have b: "bit (push_bit 12 i) k \<Longrightarrow> 12 \<le> k \<and> k < 52" for k
    by (fastforce simp: bit_push_bit_iff)
  have "push_bit 12 i AND PTE_ADDRESS = push_bit 12 i"
    by (rule bit_word_eqI) (use b PTE_ADDRESS_bits in \<open>auto simp: bit_and_iff\<close>)
  then show ?thesis by (simp add: push_bit_eq_mult mult.commute)
qed

text \<open>
  A direct map that covers the free frames: each is mapped and apart from the
  bitmap. With an empty root table this gives the invariant.
\<close>

definition direct_map_ok :: "pmm \<Rightarrow> nat \<Rightarrow> u64 \<Rightarrow> mem \<Rightarrow> bool" where
  "direct_map_ok s n h m \<longleftrightarrow>
     page_aligned h \<and> unat (total_pages s) \<le> 2 ^ 40 \<and> page_used s m 0 \<and>
     (\<forall>i < total_pages s. \<not> page_used s m i \<longrightarrow>
        mapped m (i * 4096 + h) 4096 \<and> region (i * 4096 + h) 4096 \<inter> region (bitmap s) n = {})"

lemma page_aligned_add:
  assumes "page_aligned a" "page_aligned b"
  shows "page_aligned (a + b)"
proof -
  have "(4096 :: nat) dvd 2 ^ 64" by (simp add: dvd_def)
  then show ?thesis using assms by (simp add: page_aligned_def unat_word_ariths dvd_mod)
qed

lemma page_aligned_frame: "page_aligned (i * 4096 :: u64)"
proof -
  have "(4096 :: nat) dvd 2 ^ 64" by (simp add: dvd_def)
  then show ?thesis by (simp add: page_aligned_def unat_word_ariths dvd_mod)
qed

lemma direct_map_frame:
  assumes dm: "direct_map_ok s n h m" and f: "f \<in> free_frames s m"
  shows "page_ok s n m (f + h) \<and> f \<noteq> 0 \<and> f AND PTE_ADDRESS = f"
proof -
  obtain i where i: "f = i * 4096" "i < total_pages s" "\<not> page_used s m i"
    using f by (auto simp: free_frames_def)
  have b: "unat i < 2 ^ 40"
    using i(2) dm unfolding direct_map_ok_def word_less_nat_alt by linarith
  have "i \<noteq> 0" using i(3) dm by (auto simp: direct_map_ok_def)
  moreover have "unat (i * 4096) = unat i * 4096" using b by (simp add: unat_word_ariths)
  ultimately have "f \<noteq> 0" using i(1) by (auto simp: word_unat_eq_iff)
  then show ?thesis
    using i dm page_aligned_add [OF page_aligned_frame] frame_address_bits [OF b]
    by (simp add: page_ok_def direct_map_ok_def)
qed

lemma pt_ok_fresh_root:
  assumes inv: "pmm_inv s n m" and dm: "direct_map_ok s n h m"
    and r: "page_ok s n m r" "r - h \<notin> free_frames s m" and z: "\<forall>i < 512. entry m r i = 0"
  shows "pt_ok s n h r m"
proof -
  have "tables_distinct h r m"
    using node_empty_root [OF z] unfolding tables_distinct_def by metis
  then show ?thesis
    unfolding pt_ok_def using inv r node_empty_root [OF z] direct_map_frame [OF dm] by metis
qed

section \<open>Address indices\<close>

lemma bit_low9: "bit (w AND 0x1FF :: u64) j \<longleftrightarrow> bit w j \<and> j < 9"
proof -
  have "w AND 0x1FF = take_bit 9 w" by (simp add: take_bit_eq_mask mask_eq_exp_minus_1)
  then show ?thesis by (auto simp: bit_take_bit_iff)
qed

lemma index_eq_iff:
  fixes va vb :: u64
  shows "unat (drop_bit k va AND 0x1FF) = unat (drop_bit k vb AND 0x1FF :: u64) \<longleftrightarrow>
   (\<forall>j < 9. bit va (k + j) = bit vb (k + j))"
proof -
  have "drop_bit k va AND 0x1FF = drop_bit k vb AND 0x1FF \<longleftrightarrow>
      (\<forall>j. bit (drop_bit k va AND 0x1FF) j = bit (drop_bit k vb AND 0x1FF) j)"
    by (metis bit_word_eqI)
  also have "\<dots> \<longleftrightarrow> (\<forall>j < 9. bit va (k + j) = bit vb (k + j))"
    by (auto simp: bit_low9 bit_drop_bit_eq)
  finally show ?thesis by (simp add: word_unat_eq_iff)
qed

lemma path_eq_bits:
  "path va = path vb \<longleftrightarrow> (\<forall>j. 12 \<le> j \<and> j < 48 \<longrightarrow> bit va j = bit vb j)"
proof -
  let ?P = "\<lambda>k. \<forall>j < 9. bit va (k + j) = bit vb (k + j)"
  have "path va = path vb \<longleftrightarrow> ?P 39 \<and> ?P 30 \<and> ?P 21 \<and> ?P 12"
    by (simp add: path_def pml4_idx_def pdpt_idx_def pd_idx_def pt_idx_def index_eq_iff)
  also have "\<dots> \<longleftrightarrow> (\<forall>j. 12 \<le> j \<and> j < 48 \<longrightarrow> bit va j = bit vb j)"
  proof
    assume p: "?P 39 \<and> ?P 30 \<and> ?P 21 \<and> ?P 12"
    show "\<forall>j. 12 \<le> j \<and> j < 48 \<longrightarrow> bit va j = bit vb j"
    proof (intro allI impI)
      fix j assume j: "12 \<le> j \<and> j < (48 :: nat)"
      then consider "j - 12 < 9" "j = 12 + (j - 12)" | "j - 21 < 9" "j = 21 + (j - 21)"
        | "j - 30 < 9" "j = 30 + (j - 30)" | "j - 39 < 9" "j = 39 + (j - 39)" by linarith
      then show "bit va j = bit vb j" using p by cases metis+
    qed
  qed auto
  finally show ?thesis .
qed

lemma path_eq_page_number:
  "path va = path vb \<longleftrightarrow> take_bit 36 (drop_bit 12 va) = take_bit 36 (drop_bit 12 vb)"
proof -
  have "take_bit 36 (drop_bit 12 va) = take_bit 36 (drop_bit 12 vb) \<longleftrightarrow>
      (\<forall>k < 36. bit va (12 + k) = bit vb (12 + k))"
    by (simp add: bit_eq_iff bit_take_bit_iff bit_drop_bit_eq)
      (auto dest: less_trans [of _ "36 :: nat" 64, simplified])
  also have "\<dots> \<longleftrightarrow> (\<forall>j. 12 \<le> j \<and> j < 48 \<longrightarrow> bit va j = bit vb j)"
    by (auto simp: le_iff_add)
  finally show ?thesis by (simp add: path_eq_bits)
qed

section \<open>Properties\<close>

text \<open>
  A machine with eight frames: the bitmap is the byte at 0x50, the direct map starts at
  0x100000 and shows the frames 1 to 5, all zero; frame 1 is the root table, 2 to 5 are free.
\<close>

definition demo_vm :: pmm where
  "demo_vm = \<lparr>bitmap = 0x50, total_pages = 8, bitmap_size = 1\<rparr>"

definition demo_vm_mem :: mem where
  "demo_vm_mem = (zeroed 0x101000 0x5000)(0x50 \<mapsto> 0xC3)"

definition demo_paging :: paging where
  "demo_paging = \<lparr>pmem = demo_vm_mem, ptlb = (\<lambda>_. None)\<rparr>"

lemma less_8_cases: "(i :: u64) < 8 \<Longrightarrow> i \<in> {0, 1, 2, 3, 4, 5, 6, 7}"
proof -
  assume "i < 8"
  then have "unat i < 8" by (simp add: word_less_nat_alt)
  then show ?thesis by (auto simp: word_unat_eq_iff)
qed

lemma demo_free: "i < 8 \<Longrightarrow> \<not> page_used demo_vm demo_vm_mem i \<longleftrightarrow> i \<in> {2, 3, 4, 5}"
  using less_8_cases [of i] by (auto simp: page_used_def demo_vm_def demo_vm_mem_def bit_iff_odd)

lemma demo_page_mapped: "k < 5 \<Longrightarrow> mapped demo_vm_mem (0x101000 + of_nat (k * 4096)) 4096"
proof -
  assume k: "k < 5"
  have "mapped demo_vm_mem 0x101000 0x5000"
    using mapped_zeroed [of "0x5000" "0x101000"] by (auto simp: mapped_iff demo_vm_mem_def)
  then show ?thesis by (rule mapped_sub) (use k in linarith)
qed

lemma demo_page_apart:
  assumes "page_aligned a" "unat a \<noteq> 0"
  shows "region a 4096 \<inter> region 0x50 1 = {}"
proof -
  have "unat a div 4096 \<noteq> 0" using assms by (auto simp: page_aligned_def dvd_def)
  then show ?thesis by (auto simp: in_page_iff [OF assms(1)] in_region_1)
qed

lemma demo_root_empty: "\<forall>i < 512. entry demo_vm_mem 0x101000 i = 0"
proof (intro allI impI, rule entry_zero_bytes)
  show "demo_vm_mem x = Some 0" if "in_region 0x101000 4096 x" for x
    using that by (auto simp: demo_vm_mem_def zeroed_def in_region_def)
qed

lemma demo_pt_ok: "pt_ok demo_vm 1 0x100000 0x101000 demo_vm_mem"
proof (rule pt_ok_fresh_root)
  have "mapped demo_vm_mem 0x50 1" by (simp add: demo_vm_mem_def)
  then show "pmm_inv demo_vm 1 demo_vm_mem"
    by (simp add: pmm_inv_def pmm_ok_def bitmap_ok_def demo_vm_def)
  have pages: "mapped demo_vm_mem (i * 4096 + 0x100000) 4096 \<and>
      region (i * 4096 + 0x100000) 4096 \<inter> region 0x50 1 = {}" if "i \<in> {1, 2, 3, 4, 5}" for i :: u64
  proof -
    have "page_aligned (i * 4096 + 0x100000)" "unat (i * 4096 + 0x100000) \<noteq> 0"
      using that by (auto simp: page_aligned_def)
    then show ?thesis
      using that demo_page_apart demo_page_mapped [of 0] demo_page_mapped [of 1] demo_page_mapped [of 2]
        demo_page_mapped [of 3] demo_page_mapped [of 4] by auto
  qed
  have u0: "page_used demo_vm demo_vm_mem 0"
    by (simp add: page_used_def demo_vm_def demo_vm_mem_def bit_iff_odd)
  have "mapped demo_vm_mem (i * 4096 + 0x100000) 4096 \<and>
      region (i * 4096 + 0x100000) 4096 \<inter> region 0x50 1 = {}"
    if "i < 8" "\<not> page_used demo_vm demo_vm_mem i" for i
    by (rule pages) (use demo_free [OF that(1)] that(2) in auto)
  then show "direct_map_ok demo_vm 1 0x100000 demo_vm_mem"
    using u0 by (simp add: direct_map_ok_def demo_vm_def page_aligned_def)
  show "page_ok demo_vm 1 demo_vm_mem 0x101000"
    using pages [of 1] by (simp add: page_ok_def page_aligned_def demo_vm_def)
  show "0x101000 - 0x100000 \<notin> free_frames demo_vm demo_vm_mem"
  proof
    assume "0x101000 - 0x100000 \<in> free_frames demo_vm demo_vm_mem"
    then obtain i where "0x1000 = i * 4096" "i < 8" "\<not> page_used demo_vm demo_vm_mem i"
      by (auto simp: free_frames_def demo_vm_def)
    then show False using demo_free [of i] by auto
  qed
  show "\<forall>i < 512. entry demo_vm_mem 0x101000 i = 0" by (rule demo_root_empty)
qed

lemma demo_free_frames: "free_frames demo_vm demo_vm_mem = {0x2000, 0x3000, 0x4000, 0x5000}"
proof -
  have "free_frames demo_vm demo_vm_mem = (\<lambda>i. i * 4096) ` {i. i < 8 \<and> i \<in> {2, 3, 4, 5}}"
    using demo_free by (auto simp: free_frames_def demo_vm_def)
  also have "{i. i < 8 \<and> i \<in> {2, 3, 4, 5}} = ({2, 3, 4, 5} :: u64 set)" by auto
  finally show ?thesis by simp
qed

lemma demo_walk: "page_path p \<Longrightarrow> walk demo_vm_mem 0x100000 0x101000 p = None"
  using demo_root_empty by (intro walk_empty_table) (simp_all add: page_path_def)

text \<open>C3: with three free frames, and an address that no large page covers, MapPage returns; the
  walk of the address then ends at exactly the entry for the physical page and flags, the
  walk of every other page is what it was, the tables stay a tree of
  distinct frames that the allocator does not hold, and only the bitmap and tables of the tree changed.\<close>

theorem MapPage_maps:
  assumes "pt_ok s n h r (pmem st)" and "3 \<le> card (free_frames s (pmem st))"
    and "no_large_page h r (pmem st) va"
  shows "\<exists>st'. MapPage s r va pa flags h st = Inr st' \<and> pt_ok s n h r (pmem st') \<and>
    touches_only s n h r (pmem st) (pmem st') \<and>
    walk (pmem st') h r (path va) = Some (0, (pa AND PTE_ADDRESS) OR flags OR PTE_PRESENT) \<and>
    (\<forall>vb. path vb \<noteq> path va \<longrightarrow> walk (pmem st') h r (path vb) = walk (pmem st) h r (path vb))"
proof -
  obtain m' where m: "MapPage s r va pa flags h st = Inr (invlpg va (st\<lparr>pmem := m'\<rparr>))"
      "pt_ok s n h r m'" "touches_only s n h r (pmem st) m'"
      "walk m' h r (path va) = Some (0, pte_for pa flags)"
      "\<forall>p. page_path p \<longrightarrow> p \<noteq> path va \<longrightarrow> walk m' h r p = walk (pmem st) h r p"
    using MapPage_memory [OF assms(1-3), of pa flags] by blast
  then show ?thesis using page_path_path by (simp add: invlpg_def pte_for_def)
qed

lemma demo_pmem: "pmem demo_paging = demo_vm_mem"
  by (simp add: demo_paging_def)

lemma demo_small: "no_large_page 0x100000 0x101000 demo_vm_mem va"
  by (simp add: no_large_page_def demo_walk [OF page_path_path])

lemma demo_three_frames: "3 \<le> card (free_frames demo_vm demo_vm_mem)"
  by (simp add: demo_free_frames)

theorem MapPage_maps_witness:
  "\<exists>st'. MapPage demo_vm 0x101000 0xFFFFFFFFC0000000 0x4000 PTE_WRITABLE 0x100000 demo_paging = Inr st' \<and>
    walk (pmem st') 0x100000 0x101000 (path 0xFFFFFFFFC0000000) = Some (0, 0x4003) \<and>
    walk (pmem st') 0x100000 0x101000 (path 0xFFFFFFFFC0001000) = None"
proof -
  have "path 0xFFFFFFFFC0001000 \<noteq> path 0xFFFFFFFFC0000000"
    by (simp add: path_def pt_idx_def)
  moreover have "(0x4000 AND PTE_ADDRESS) OR PTE_WRITABLE OR PTE_PRESENT = 0x4003"
    by (simp add: PTE_ADDRESS_def PTE_WRITABLE_def PTE_PRESENT_def)
  moreover obtain st' where
    "MapPage demo_vm 0x101000 0xFFFFFFFFC0000000 0x4000 PTE_WRITABLE 0x100000 demo_paging = Inr st'"
    "walk (pmem st') 0x100000 0x101000 (path 0xFFFFFFFFC0000000) =
      Some (0, (0x4000 AND PTE_ADDRESS) OR PTE_WRITABLE OR PTE_PRESENT)"
    "\<forall>vb. path vb \<noteq> path 0xFFFFFFFFC0000000 \<longrightarrow> walk (pmem st') 0x100000 0x101000 (path vb) =
      walk (pmem demo_paging) 0x100000 0x101000 (path vb)"
    using MapPage_maps [of demo_vm 1 "0x100000" "0x101000" demo_paging "0xFFFFFFFFC0000000" "0x4000"
        PTE_WRITABLE, unfolded demo_pmem, OF demo_pt_ok demo_three_frames demo_small]
    unfolding demo_pmem by blast
  ultimately show ?thesis using demo_walk [OF page_path_path] by (metis demo_pmem)
qed

text \<open>Taking a frame changes the bitmap only, so every table and walk stays.\<close>

lemma bitmap_change_agree:
  assumes ok: "\<And>p t. table_path p \<Longrightarrow> node m h r p = Some t \<Longrightarrow> page_ok s n m t"
    and eq: "\<And>x. \<not> in_region (bitmap s) n x \<Longrightarrow> m' x = m x"
  shows "agree h r m m'"
  unfolding agree_def
proof (intro allI impI)
  fix p t and i :: nat
  assume "table_path p \<and> i < 512 \<and> node m h r p = Some t"
  then have p: "table_path p" "i < 512" "node m h r p = Some t" by simp_all
  have apart: "region t 4096 \<inter> region (bitmap s) n = {}"
    using ok [OF p(1,3)] by (simp add: page_ok_def)
  show "entry m' t i = entry m t i"
  proof (rule entry_cong)
    fix x assume "in_region (slot t i) 8 x"
    then have "in_region t 4096 x" by (rule slot_in_page [OF p(2)])
    then show "m' x = m x" using apart eq [of x] by (auto simp: set_eq_iff)
  qed
qed

lemma bitmap_change_entries:
  assumes "pt_ok s n h r m" and "\<And>x. \<not> in_region (bitmap s) n x \<Longrightarrow> m' x = m x"
  shows "agree h r m m'"
  using bitmap_change_agree [of m h r s n m'] pt_okD(3) [OF assms(1)] assms(2) by blast

lemma take_frame_pt_ok:
  assumes ok: "pt_ok s n h r m" and a: "AllocatePage s m = Inr (f, m')"
  shows "pt_ok s n h r m'" and "\<And>p. page_path p \<Longrightarrow> walk m' h r p = walk m h r p"
proof -
  note fr = AllocatePage_frame [OF pt_okD(1) [OF ok] a]
  have ag: "agree h r m m'" by (rule bitmap_change_entries [OF ok fr(5)])
  note node' = node_agree [OF ag]
  show "walk m' h r p = walk m h r p" if "page_path p" for p
    using walk_agree [OF ag, of "[]" p r] that by simp
  have "tables_distinct h r m'" using pt_okD(2) [OF ok] node' unfolding tables_distinct_def by metis
  moreover have "page_ok s n m' t \<and> t - h \<notin> free_frames s m'" if "table_path p" "node m' h r p = Some t" for p t
    using pt_okD(3,4) [OF ok that(1)] node' [OF that(1)] that(2) page_ok_dom [OF fr(4)] fr(3) by simp
  moreover have "page_ok s n m' (g + h) \<and> g \<noteq> 0 \<and> g AND PTE_ADDRESS = g" if "g \<in> free_frames s m'" for g
    using pt_okD(5-7) [OF ok, of g] that fr(3) page_ok_dom [OF fr(4)] by simp
  ultimately show "pt_ok s n h r m'" unfolding pt_ok_def using fr(1) by blast
qed

text \<open>The invariant survives in a memory that maps more outside what it speaks of.\<close>

lemma agree_le:
  assumes le: "m \<subseteq>\<^sub>m m'" and ok: "\<And>p t. table_path p \<Longrightarrow> node m h r p = Some t \<Longrightarrow> mapped m t 4096"
  shows "agree h r m m'"
  unfolding agree_def
proof (intro allI impI)
  fix p t and i :: nat
  assume "table_path p \<and> i < 512 \<and> node m h r p = Some t"
  then have "mapped m (slot t i) 8" using ok by (blast intro: slot_mapped)
  then obtain v where "load64 m (slot t i) = Inr v" using qword.ld_mapped by blast
  then show "entry m' t i = entry m t i" using load_le(3) [OF le] by (simp add: entry_def slot_def)
qed

lemma pt_ok_le:
  assumes ok: "pt_ok s n h r m" and le: "m \<subseteq>\<^sub>m m'"
  shows "pt_ok s n h r m'" and "free_frames s m' = free_frames s m"
    and "page_path p \<Longrightarrow> walk m' h r p = walk m h r p"
proof -
  have ag: "agree h r m m'"
    by (rule agree_le [OF le]) (use pt_okD(3) [OF ok] in \<open>auto simp: page_ok_def\<close>)
  note node' = node_agree [OF ag]
  show "page_path p \<Longrightarrow> walk m' h r p = walk m h r p" using walk_agree [OF ag, of "[]" p r] by simp
  have inv: "pmm_ok s n m m" using pt_okD(1) [OF ok] by (simp add: pmm_inv_def)
  then have bm: "mapped m (bitmap s) n" by (simp add: pmm_ok_def bitmap_ok_def)
  have "page_used s m' i = page_used s m i" if "i < total_pages s" for i
  proof -
    have "in_bitmap n i" using inv that by (auto simp: pmm_ok_def in_bitmap_def word_less_nat_alt)
    then have "m (bitmap s + i div 8) \<noteq> None" by (rule bitmap_byte_mapped [OF bm])
    then have "m' (bitmap s + i div 8) = m (bitmap s + i div 8)" using le by (auto simp: map_le_def dom_def)
    then show ?thesis by (simp add: page_used_def)
  qed
  then show free: "free_frames s m' = free_frames s m" by (auto simp: free_frames_def)
  have pk: "page_ok s n m t \<Longrightarrow> page_ok s n m' t" for t using mapped_le [OF le] by (simp add: page_ok_def)
  have "pmm_inv s n m'" using inv mapped_le [OF le bm] by (simp add: pmm_inv_def pmm_ok_def bitmap_ok_def)
  moreover have "tables_distinct h r m'" using pt_okD(2) [OF ok] node' unfolding tables_distinct_def by metis
  moreover have "page_ok s n m' t \<and> t - h \<notin> free_frames s m'" if "table_path p" "node m' h r p = Some t" for p t
    using pt_okD(3,4) [OF ok that(1)] node' [OF that(1)] that(2) pk free by simp
  moreover have "page_ok s n m' (f + h) \<and> f \<noteq> 0 \<and> f AND PTE_ADDRESS = f" if "f \<in> free_frames s m'" for f
    using pt_okD(5-7) [OF ok, of f] that pk free by simp
  ultimately show "pt_ok s n h r m'" unfolding pt_ok_def by blast
qed

text \<open>
  The cached translations agree with the tables: each one is the entry that the walk
  of its page ends at.
\<close>

definition tlb_ok :: "u64 \<Rightarrow> u64 \<Rightarrow> paging \<Rightarrow> bool" where
  "tlb_ok h r st \<longleftrightarrow>
     (\<forall>p e. page_path p \<longrightarrow> ptlb st p = Some e \<longrightarrow> walk (pmem st) h r p = Some (0, e))"

text \<open>C29: MapPage keeps the processor's cached translations in agreement with the page
  tables, also when it replaces a mapping that is cached.\<close>

theorem MapPage_tlb_coherent:
  assumes "pt_ok s n h r (pmem st)" and "3 \<le> card (free_frames s (pmem st))"
    and "no_large_page h r (pmem st) va"
    and "tlb_ok h r st"
  shows "\<exists>st'. MapPage s r va pa flags h st = Inr st' \<and> tlb_ok h r st' \<and> ptlb st' (path va) = None"
proof -
  obtain m' where m: "MapPage s r va pa flags h st = Inr (invlpg va (st\<lparr>pmem := m'\<rparr>))"
      "\<forall>p. page_path p \<longrightarrow> p \<noteq> path va \<longrightarrow> walk m' h r p = walk (pmem st) h r p"
    using MapPage_memory [OF assms(1-3), of pa flags] by blast
  moreover have "tlb_ok h r (invlpg va (st\<lparr>pmem := m'\<rparr>))"
    using assms(4) m(2) by (simp add: tlb_ok_def invlpg_def)
  ultimately show ?thesis by (simp add: invlpg_def)
qed

theorem MapPage_tlb_coherent_witness:
  "\<exists>st'. MapPage demo_vm 0x101000 0xFFFFFFFFC0000000 0x4000 PTE_WRITABLE 0x100000 demo_paging = Inr st' \<and>
    tlb_ok 0x100000 0x101000 st'"
proof -
  have "tlb_ok 0x100000 0x101000 demo_paging" by (simp add: tlb_ok_def demo_paging_def)
  then show ?thesis
    using MapPage_tlb_coherent [of demo_vm 1 "0x100000" "0x101000" demo_paging "0xFFFFFFFFC0000000" "0x4000"
        PTE_WRITABLE, unfolded demo_pmem, OF demo_pt_ok demo_three_frames demo_small] by blast
qed

text \<open>MapPage looks at bits 12 to 47 of the virtual address only: two addresses share their
  table entry exactly when these bits agree.\<close>

lemma same_entry_iff_bits_12_to_47:
  "path va = path vb \<longleftrightarrow> take_bit 36 (drop_bit 12 va) = take_bit 36 (drop_bit 12 vb)"
  by (rule path_eq_page_number)

text \<open>GetNextTable does not look at the page-size bit: for an entry that maps a large page it
  returns the address of the page's own data as if a table were there, and changes nothing.\<close>

lemma GetNextTable_large_page:
  assumes "load64 m (t + i * 8) = Inr e" and "present e" and "page_size e"
  shows "GetNextTable s t i h m = Inr ((e AND PTE_ADDRESS) + h, m) \<and>
    walk m h t (unat i # is) = Some (length is, e)"
proof
  show "GetNextTable s t i h m = Inr ((e AND PTE_ADDRESS) + h, m)"
    using assms by (simp add: GetNextTable_def)
  have "entry m t (unat i) = e" using assms(1) by (simp add: entry_def)
  then show "walk m h t (unat i # is) = Some (length is, e)" using assms(2,3) by (simp add: walk_step)
qed

lemma GetNextTable_large_page_witness:
  "\<exists>m. load64 m (0x101000 + 8) = Inr 0x200083 \<and> GetNextTable demo_vm 0x101000 1 0x100000 m = Inr (0x300000, m)"
proof -
  have "mapped demo_vm_mem (0x101000 + 8) 8"
    using mapped_sub [OF demo_page_mapped [of 0], of 8 8] by simp
  then obtain m where "store64 demo_vm_mem (0x101000 + 8) 0x200083 = Inr m"
    using qword.st_mapped by blast
  then have "load64 m (0x101000 + 1 * 8) = Inr 0x200083" using qword.ld_st by simp
  then show ?thesis
    using GetNextTable_large_page [of m "0x101000" 1 "0x200083" demo_vm "0x100000"]
    by (auto simp: present_def page_size_def PTE_PRESENT_def PTE_ADDRESS_def bit_iff_odd)
qed

end
