(* ===== verification/Apic.thy ===== *)
theory Apic
  imports Acpi Cpu Serial Vmm
begin

text \<open>
  The interrupt controllers: the I/O APIC (\<^verbatim>\<open>apic/ioapic.cpp\<close>), found through the ACPI tables,
  mapped with the virtual memory manager and programmed through its two memory-mapped registers, and the
  local APIC (\<^verbatim>\<open>apic/lapic.cpp\<close>), programmed through model-specific registers. The theorems give
  the exact sequence of accesses of each operation and the state Init leaves.
\<close>

section \<open>Registers of the I/O APIC\<close>

definition IOAPIC_REGSEL :: u64 where
  "IOAPIC_REGSEL = 0x00"

definition IOAPIC_IOWIN :: u64 where
  "IOAPIC_IOWIN = 0x10"

definition IOAPICWrite :: "u64 \<Rightarrow> u8 \<Rightarrow> u32 \<Rightarrow> cpu \<Rightarrow> cpu" where
  "IOAPICWrite base_at reg val c =
     mmio_write (base_at + IOAPIC_IOWIN) val (mmio_write (base_at + IOAPIC_REGSEL) (ucast reg) c)"

definition IOAPICRead :: "u64 \<Rightarrow> u8 \<Rightarrow> cpu \<Rightarrow> u32 \<times> cpu" where
  "IOAPICRead base_at reg c =
     (let c = mmio_write (base_at + IOAPIC_REGSEL) (ucast reg) c
      in (mmio_read (base_at + IOAPIC_IOWIN) c, c))"

definition SetRedirectEntry :: "u64 \<Rightarrow> u8 \<Rightarrow> u8 \<Rightarrow> u8 \<Rightarrow> cpu \<Rightarrow> cpu" where
  "SetRedirectEntry ioapic_base pin vec core_apic_id c =
     (let low_reg = 0x10 + pin * 2;
          high_reg = low_reg + 1;
          low_val = ucast vec;
          high_val = push_bit 24 (ucast core_apic_id)
      in IOAPICWrite ioapic_base high_reg high_val (IOAPICWrite ioapic_base low_reg low_val c))"

definition MaskIOAPICPin :: "u8 \<Rightarrow> u64 \<Rightarrow> cpu \<Rightarrow> cpu" where
  "MaskIOAPICPin pin base_at c =
     (let low_reg_offset = 0x10 + pin * 2;
          (low_window, c) = IOAPICRead base_at low_reg_offset c
      in IOAPICWrite base_at low_reg_offset (low_window OR push_bit 16 1) c)"

definition GetLocalApicId :: "cpu \<Rightarrow> u8" where
  "GetLocalApicId c = ucast (drop_bit 24 (cpuid1_ebx c) AND 0xFF)"

section \<open>The local APIC\<close>

definition InitLAPIC :: "cpu \<Rightarrow> cpu res" where
  "InitLAPIC c =
     (if cpuid1_ecx c AND push_bit 21 1 = 0
      then Inl (Panic ''This system does not support the x2APIC! Cannot continue execution!'')
      else
        let (low, high) = rdmsr 0x1B c;
            low = low OR (push_bit 11 1 OR push_bit 10 1);
            c = wrmsr 0x1B low high c;
            c = wrmsr 0x808 0 0 c;
            spurious_val = 0x1FF
        in Inr (wrmsr 0x80F spurious_val 0 c))"

definition SendIOAPICEOI :: "u64 \<Rightarrow> cpu \<Rightarrow> cpu" where
  "SendIOAPICEOI IOAPICAddress c = IOAPICWrite IOAPICAddress 0x40 33 c"

definition SendEOI :: "u64 \<Rightarrow> cpu \<Rightarrow> cpu" where
  "SendEOI IOAPICAddress c = SendIOAPICEOI IOAPICAddress (wrmsr 0x80B 0 0 c)"

section \<open>Initialisation of the I/O APIC\<close>

text \<open>
  What InitIOAPIC works on: the processor, the ports, the page tables, the pointer that ParseMADT leaves
  (with the messages) and the global \<^verbatim>\<open>IOAPICAddress\<close>.
\<close>

record machine =
  mc_cpu :: cpu
  mc_ports :: ports
  mc_paging :: paging
  mc_madt :: madt_state
  IOAPICAddress :: u64

definition mc_say :: "log_kind \<Rightarrow> string \<Rightarrow> u64 list \<Rightarrow> machine \<Rightarrow> machine" where
  "mc_say k s args w = w\<lparr>mc_madt := (mc_madt w)\<lparr>madt_log := madt_log (mc_madt w) @ [(k, s, args)]\<rparr>\<rparr>"

text \<open>Offsets of \<^verbatim>\<open>local_apic_address\<close> and \<^verbatim>\<open>flags\<close> in the MADT, \<^verbatim>\<open>IOAPIC_ID\<close> and \<^verbatim>\<open>IOAPICAddress\<close> in its I/O APIC entry.\<close>

definition MADT_local_apic_address :: u64 where
  "MADT_local_apic_address = 36"

definition MADT_flags :: u64 where
  "MADT_flags = 40"

definition MADTEntryIOAPIC_id :: u64 where
  "MADTEntryIOAPIC_id = 2"

definition MADTEntryIOAPIC_address :: u64 where
  "MADTEntryIOAPIC_address = 4"

definition IOAPIC_page_flags :: u64 where
  "IOAPIC_page_flags = PTE_WRITABLE OR PTE_WRITABLE OR push_bit 3 1 OR push_bit 4 1"

text \<open>
  \<open>rsdp_response\<close> is the address in Limine's response (None when there is no response), \<open>sig\<close> the address of
  the literal \<open>APIC\<close>, \<open>s\<close> the frame allocator. Masking the legacy controllers comes first.
\<close>

definition InitIOAPIC :: "pmm \<Rightarrow> u64 option \<Rightarrow> u64 \<Rightarrow> u64 \<Rightarrow> machine \<Rightarrow> machine res" where
  "InitIOAPIC s rsdp_response sig HHDMOffset w =
     (let w = w\<lparr>mc_ports := outb 0xA1 0xFF (outb 0x21 0xFF (mc_ports w))\<rparr>
      in and_then (kassert (rsdp_response \<noteq> None) ''IOAPIC: Limine did not send an RSDP pointer!'') (\<lambda>_.
         and_then (GetTable (pmem (mc_paging w)) (the rsdp_response) HHDMOffset sig) (\<lambda>MADTPointer.
         let m = pmem (mc_paging w);
             w = mc_say KInfo ''IOAPIC: Located MADT at 0x%x'' [MADTPointer] w;
             w = mc_say KInfo ''IOAPIC: MADT table'' [] w
         in and_then (load32 m (MADTPointer + MADT_local_apic_address)) (\<lambda>lapic_at.
         and_then (load32 m (MADTPointer + MADT_flags)) (\<lambda>fl.
         let w = mc_say KInfo ''IOAPIC: LAPIC address: 0x%x Flags: 0x%x Entries(pointer to): 0x%x''
                   [ucast lapic_at, ucast fl, MADTPointer + MADT_entries] w
         in and_then (ParseMADT m MADTPointer (mc_madt w)) (\<lambda>md.
         let w = mc_say KInfo ''IOAPIC: IOAPIC info'' [] (w\<lparr>mc_madt := md\<rparr>);
             data = IOAPICData (mc_madt w)
         in and_then (load32 m (data + MADTEntryIOAPIC_gsib)) (\<lambda>gsib.
         and_then (load8 m (data + MADTEntryIOAPIC_id)) (\<lambda>ident.
         and_then (load32 m (data + MADTEntryIOAPIC_address)) (\<lambda>phys.
         let w = mc_say KInfo ''IOAPIC: GlobalSystemInterruptBase: 0x%x IOAPIC_ID: 0x%x IOAPICAddress: 0x%x''
                   [ucast gsib, ucast ident, ucast phys] w;
             w = w\<lparr>IOAPICAddress := ucast phys + HHDMOffset\<rparr>;
             PhysAddress = ucast phys;
             pml4_phys = cr3 (mc_cpu w) AND PTE_ADDRESS;
             pml4_virt = pml4_phys + HHDMOffset
         in and_then (MapPage s pml4_virt (IOAPICAddress w) PhysAddress IOAPIC_page_flags HHDMOffset (mc_paging w)) (\<lambda>pg.
         let w = w\<lparr>mc_paging := pg\<rparr>;
             c = SetRedirectEntry (IOAPICAddress w) 2 32 (GetLocalApicId (mc_cpu w)) (mc_cpu w);
             c = SetRedirectEntry (IOAPICAddress w) 1 33 (GetLocalApicId c) c
         in Inr (w\<lparr>mc_cpu := c\<rparr>)))))))))))"

section \<open>The register interface\<close>

lemma IOAPICWrite_log [simp]:
  "mmio_log (IOAPICWrite b r v c) = mmio_log c @ [(b, ucast r), (b + 16, v)]"
  "msr_log (IOAPICWrite b r v c) = msr_log c" "msr (IOAPICWrite b r v c) = msr c"
  "cpuid1_ebx (IOAPICWrite b r v c) = cpuid1_ebx c" "cr3 (IOAPICWrite b r v c) = cr3 c"
  "idtr (IOAPICWrite b r v c) = idtr c" "gdtr (IOAPICWrite b r v c) = gdtr c" "cs_sel (IOAPICWrite b r v c) = cs_sel c"
  "interrupts_on (IOAPICWrite b r v c) = interrupts_on c"
  by (simp_all add: IOAPICWrite_def IOAPIC_REGSEL_def IOAPIC_IOWIN_def)

text \<open>A 64-bit redirection entry, and the accesses that write it.\<close>

definition redirection :: "u64 \<Rightarrow> nat \<Rightarrow> u8 \<Rightarrow> u8 \<Rightarrow> (u64 \<times> u32) list" where
  "redirection b pin vec ident =
     [(b, of_nat (16 + 2 * pin)), (b + 16, ucast vec), (b, of_nat (17 + 2 * pin)), (b + 16, push_bit 24 (ucast ident))]"

lemma low_register: "pin < 120 \<Longrightarrow> (ucast (0x10 + of_nat pin * 2 :: u8) :: u32) = of_nat (16 + 2 * pin)"
  "pin < 119 \<Longrightarrow> (ucast (0x10 + of_nat pin * 2 + 1 :: u8) :: u32) = of_nat (17 + 2 * pin)"
proof -
  have e: "(0x10 + of_nat pin * 2 :: u8) = of_nat (16 + 2 * pin)" "(0x10 + of_nat pin * 2 + 1 :: u8) = of_nat (17 + 2 * pin)"
    by simp_all
  show "pin < 120 \<Longrightarrow> (ucast (0x10 + of_nat pin * 2 :: u8) :: u32) = of_nat (16 + 2 * pin)"
    unfolding e(1) by (rule word_eq_unatI) (simp add: unsigned_ucast_eq unat_of_nat take_bit_nat_eq_self del: of_nat_add of_nat_mult)
  show "pin < 119 \<Longrightarrow> (ucast (0x10 + of_nat pin * 2 + 1 :: u8) :: u32) = of_nat (17 + 2 * pin)"
    unfolding e(2) by (rule word_eq_unatI) (simp add: unsigned_ucast_eq unat_of_nat take_bit_nat_eq_self del: of_nat_add of_nat_mult)
qed

lemma SetRedirectEntry_log:
  assumes "pin < 119"
  shows "mmio_log (SetRedirectEntry b (of_nat pin) vec ident c) = mmio_log c @ redirection b pin vec ident"
  using assms low_register [of pin] by (simp add: SetRedirectEntry_def redirection_def Let_def)

lemma SetRedirectEntry_keeps [simp]:
  "cpuid1_ebx (SetRedirectEntry b p v i c) = cpuid1_ebx c" "msr_log (SetRedirectEntry b p v i c) = msr_log c"
  "cr3 (SetRedirectEntry b p v i c) = cr3 c" "msr (SetRedirectEntry b p v i c) = msr c"
  "idtr (SetRedirectEntry b p v i c) = idtr c" "gdtr (SetRedirectEntry b p v i c) = gdtr c"
  "cs_sel (SetRedirectEntry b p v i c) = cs_sel c" "interrupts_on (SetRedirectEntry b p v i c) = interrupts_on c"
  by (simp_all add: SetRedirectEntry_def Let_def)

section \<open>Properties of the registers\<close>

text \<open>InitLAPIC panics without an x2APIC; otherwise it sets the two enable bits of the APIC base register and
  no other, clears the task priority and enables the APIC with spurious vector 255.\<close>

lemma InitLAPIC_enables_x2APIC:
  "InitLAPIC c = (if bit (cpuid1_ecx c) 21 then Inr (c\<lparr>msr := (msr c)(0x1B := msr c 0x1B OR 0xC00, 0x808 := 0, 0x80F := 0x1FF),
      msr_log := msr_log c @ [(0x1B, msr c 0x1B OR 0xC00), (0x808, 0), (0x80F, 0x1FF)]\<rparr>)
    else Inl (Panic ''This system does not support the x2APIC! Cannot continue execution!''))"
proof -
  have "push_bit 32 (ucast (ucast (drop_bit 32 a) :: u32)) OR ucast ((ucast a :: u32) OR 0xC00) = (a OR 0xC00 :: u64)" for a
  proof -
    have "(ucast ((ucast a :: u32) OR 0xC00) :: u64) = ucast (ucast a :: u32) OR 0xC00"
      by (simp add: unsigned_or_eq)
    then show ?thesis using join_halves [of a] by (simp add: or.assoc [symmetric])
  qed
  moreover have "cpuid1_ecx c AND push_bit 21 1 = 0 \<longleftrightarrow> \<not> bit (cpuid1_ecx c) 21"
    by (simp only: bit_iff_and_push_bit_not_eq_0 not_not)
  ultimately show ?thesis by (simp add: InitLAPIC_def rdmsr_def wrmsr_def Let_def)
qed

text \<open>MaskIOAPICPin reads the low word of the pin's redirection entry and writes the same word back with the mask bit set.\<close>

lemma MaskIOAPICPin_sets_mask_bit:
  assumes "pin < 120"
  shows "mmio_log (MaskIOAPICPin (of_nat pin) b c) = mmio_log c @
    [(b, of_nat (16 + 2 * pin)), (b, of_nat (16 + 2 * pin)),
     (b + 16, mmio_in c (mmio_log c @ [(b, of_nat (16 + 2 * pin))]) (b + 16) OR 0x10000)]"
  using low_register(1) [OF assms]
  by (simp add: MaskIOAPICPin_def IOAPICRead_def IOAPIC_REGSEL_def IOAPIC_IOWIN_def mmio_read_def Let_def case_prod_unfold)

lemma MaskIOAPICPin_sets_mask_bit_witness:
  "mmio_log (MaskIOAPICPin 2 0x1000 (cpu0\<lparr>mmio_in := \<lambda>_ _. 32\<rparr>)) = [(0x1000, 0x14), (0x1000, 0x14), (0x1010, 0x10020)]"
  using MaskIOAPICPin_sets_mask_bit [of 2 "0x1000" "cpu0\<lparr>mmio_in := \<lambda>_ _. 32\<rparr>"] by (simp add: cpu0_def)

text \<open>SendEOI signals the local APIC; towards the I/O APIC it selects register 0x40 and writes 33 to the data window.
  Nothing is ever written to the EOI register at offset 0x40 of the device.\<close>

lemma SendEOI_misses_IOAPIC_EOI:
  "msr_log (SendEOI b c) = msr_log c @ [(0x80B, 0)] \<and>
   mmio_log (SendEOI b c) = mmio_log c @ [(b, 0x40), (b + 0x10, 33)] \<and>
   (b + 0x40) \<notin> fst ` set (drop (length (mmio_log c)) (mmio_log (SendEOI b c)))"
  by (simp add: SendEOI_def SendIOAPICEOI_def)

section \<open>Initialisation\<close>

text \<open>What the ACPI tables must hold: a MADT, found by its signature, that is well formed and whose last I/O APIC with
  interrupt base 0 is the entry at \<open>e\<close> with physical address \<open>phys\<close>.\<close>

definition ioapic_found :: "mem \<Rightarrow> u64 \<Rightarrow> u64 \<Rightarrow> u64 \<Rightarrow> u64 \<Rightarrow> u64 \<Rightarrow> u32 \<Rightarrow> bool" where
  "ioapic_found m rsdp h sig madt e phys \<longleftrightarrow>
     GetTable m rsdp h sig = Inr madt \<and>
     (\<exists>a f. load32 m (madt + 36) = Inr a \<and> load32 m (madt + 40) = Inr f) \<and>
     (\<exists>len as. load32 m (madt + 4) = Inr len \<and> madt_chain m (madt + ucast len) (madt + 44) as \<and>
        filter (is_ioapic0 m) as \<noteq> [] \<and> last (filter (is_ioapic0 m) as) = e) \<and>
     (\<exists>ident. load8 m (e + 2) = Inr ident) \<and> load32 m (e + 4) = Inr phys \<and> load32 m (e + 8) = Inr 0"

lemma ParseMADT_found:
  assumes "ioapic_found m rsdp h sig madt e phys"
  shows "\<exists>l. ParseMADT m madt st = Inr \<lparr>IOAPICData = e, madt_log = l\<rparr>"
proof -
  obtain len as where "load32 m (madt + 4) = Inr len" "madt_chain m (madt + ucast len) (madt + 44) as"
      "filter (is_ioapic0 m) as \<noteq> []" "last (filter (is_ioapic0 m) as) = e"
    using assms by (auto simp: ioapic_found_def)
  then show ?thesis
    by (simp add: ParseMADT_def ACPIHeader_length_def MADT_entries_def madt_loop_chain fold_madt_apply)
qed

text \<open>The tables are found just as well in a memory that maps more.\<close>

lemma table_scan_le:
  "m \<subseteq>\<^sub>m m' \<Longrightarrow> table_scan m x h sig i k = Inr v \<Longrightarrow> table_scan m' x h sig i k = Inr v"
proof (induction k arbitrary: i)
  case (Suc k)
  then show ?case using load_le(2,3) [OF Suc.prems(1)] by (auto simp: and_then_eq_Inr Let_def split: if_splits)
qed simp

lemma GetTable_le: "m \<subseteq>\<^sub>m m' \<Longrightarrow> GetTable m rsdp h sig = Inr v \<Longrightarrow> GetTable m' rsdp h sig = Inr v"
  using load_le(2,3) [of m m'] table_scan_le [of m m'] by (auto simp: GetTable_def and_then_eq_Inr Let_def)

lemma ioapic_found_le:
  assumes "m \<subseteq>\<^sub>m m'" and "ioapic_found m rsdp h sig madt e phys"
  shows "ioapic_found m' rsdp h sig madt e phys"
proof -
  note le = load_le [OF assms(1)] and f = assms(2) [unfolded ioapic_found_def]
  obtain len as where c: "load32 m (madt + 4) = Inr len" "madt_chain m (madt + ucast len) (madt + 44) as"
      "filter (is_ioapic0 m) as \<noteq> []" "last (filter (is_ioapic0 m) as) = e" using f by blast
  have "\<exists>len as. load32 m' (madt + 4) = Inr len \<and> madt_chain m' (madt + ucast len) (madt + 44) as \<and>
      filter (is_ioapic0 m') as \<noteq> [] \<and> last (filter (is_ioapic0 m') as) = e"
    using le(2) [OF c(1)] madt_chain_le [OF assms(1) c(2)] c(3,4) by auto
  then show ?thesis
    unfolding ioapic_found_def using f GetTable_le [OF assms(1)] le by blast
qed

text \<open>The messages: the MADT, its fields, one line per interrupt source override, the fields of the I/O APIC's entry.\<close>

definition word_at :: "mem \<Rightarrow> u64 \<Rightarrow> u64" where
  "word_at m a = (case load32 m a of Inl _ \<Rightarrow> 0 | Inr v \<Rightarrow> ucast v)"

definition byte_at :: "mem \<Rightarrow> u64 \<Rightarrow> u64" where
  "byte_at m a = (case load8 m a of Inl _ \<Rightarrow> 0 | Inr v \<Rightarrow> ucast v)"

definition ioapic_messages :: "mem \<Rightarrow> u64 \<Rightarrow> u64 \<Rightarrow> nat \<Rightarrow> log_event list" where
  "ioapic_messages m madt e k =
     [(KInfo, ''IOAPIC: Located MADT at 0x%x'', [madt]), (KInfo, ''IOAPIC: MADT table'', []),
      (KInfo, ''IOAPIC: LAPIC address: 0x%x Flags: 0x%x Entries(pointer to): 0x%x'',
         [word_at m (madt + 36), word_at m (madt + 40), madt + 44])] @
     replicate k override_message @
     [(KInfo, ''IOAPIC: IOAPIC info'', []),
      (KInfo, ''IOAPIC: GlobalSystemInterruptBase: 0x%x IOAPIC_ID: 0x%x IOAPICAddress: 0x%x'',
         [word_at m (e + 8), byte_at m (e + 2), word_at m (e + 4)])]"

definition madt_overrides :: "mem \<Rightarrow> u64 \<Rightarrow> nat \<Rightarrow> bool" where
  "madt_overrides m madt k \<longleftrightarrow> (\<exists>len as. load32 m (madt + 4) = Inr len \<and>
     madt_chain m (madt + ucast len) (madt + 44) as \<and> k = length (filter (is_override m) as))"

lemma ioapic_found_overrides: "ioapic_found m rsdp h sig madt e phys \<Longrightarrow> \<exists>k. madt_overrides m madt k"
  by (auto simp: ioapic_found_def madt_overrides_def)

lemma madt_overrides_le: "m \<subseteq>\<^sub>m m' \<Longrightarrow> madt_overrides m madt k \<Longrightarrow> madt_overrides m' madt k"
  unfolding madt_overrides_def using load_le(2) [of m m'] madt_chain_le [of m m'] by metis

lemma ioapic_messages_le:
  assumes "m \<subseteq>\<^sub>m m'" and "ioapic_found m rsdp h sig madt e phys"
  shows "ioapic_messages m' madt e k = ioapic_messages m madt e k"
proof -
  note le = load_le [OF assms(1)]
  have w: "word_at m' a = word_at m a" if "\<exists>v. load32 m a = Inr v" for a using that le(2) by (auto simp: word_at_def)
  have b: "byte_at m' a = byte_at m a" if "\<exists>v. load8 m a = Inr v" for a using that le(1) by (auto simp: byte_at_def)
  show ?thesis using assms(2) unfolding ioapic_messages_def ioapic_found_def by (auto simp: w b)
qed

lemma ParseMADT_exact:
  assumes "ioapic_found m rsdp h sig madt e phys" and "madt_overrides m madt k"
  shows "ParseMADT m madt st = Inr \<lparr>IOAPICData = e, madt_log = madt_log st @ replicate k override_message\<rparr>"
proof -
  obtain l where "ParseMADT m madt st = Inr \<lparr>IOAPICData = e, madt_log = l\<rparr>" using ParseMADT_found [OF assms(1)] by blast
  moreover obtain len as where "load32 m (madt + 4) = Inr len" "madt_chain m (madt + ucast len) (madt + 44) as"
      "k = length (filter (is_override m) as)"
    using assms(2) by (auto simp: madt_overrides_def)
  then have "\<exists>d. ParseMADT m madt st = Inr \<lparr>IOAPICData = d, madt_log = madt_log st @ replicate k override_message\<rparr>"
    by (simp add: ParseMADT_def ACPIHeader_length_def MADT_entries_def madt_loop_chain fold_madt_apply)
  ultimately show ?thesis by auto
qed

text \<open>Init up to the mapping: the value of the call given what MapPage returns.\<close>

lemma InitIOAPIC_exact:
  assumes f: "ioapic_found (pmem (mc_paging w)) rsdp h sig madt e phys"
    and mp: "MapPage s ((cr3 (mc_cpu w) AND PTE_ADDRESS) + h) (ucast phys + h) (ucast phys) IOAPIC_page_flags h (mc_paging w) = Inr pg"
    and k: "madt_overrides (pmem (mc_paging w)) madt k"
  shows "InitIOAPIC s (Some rsdp) sig h w = Inr \<lparr>
      mc_cpu = SetRedirectEntry (ucast phys + h) 1 33 (GetLocalApicId (mc_cpu w))
                 (SetRedirectEntry (ucast phys + h) 2 32 (GetLocalApicId (mc_cpu w)) (mc_cpu w)),
      mc_ports = outb 0xA1 0xFF (outb 0x21 0xFF (mc_ports w)), mc_paging = pg,
      mc_madt = \<lparr>IOAPICData = e, madt_log = madt_log (mc_madt w) @ ioapic_messages (pmem (mc_paging w)) madt e k\<rparr>,
      IOAPICAddress = ucast phys + h\<rparr>"
proof -
  let ?m = "pmem (mc_paging w)"
  obtain a fl ident where g: "GetTable ?m rsdp h sig = Inr madt" "load32 ?m (madt + 36) = Inr a"
      "load32 ?m (madt + 40) = Inr fl" "load8 ?m (e + 2) = Inr ident" "load32 ?m (e + 4) = Inr phys"
      "load32 ?m (e + 8) = Inr 0"
    using f by (auto simp: ioapic_found_def)
  have same: "GetLocalApicId (SetRedirectEntry b p v i c) = GetLocalApicId c" for b p v i c
    by (simp add: GetLocalApicId_def)
  show ?thesis
    using g ParseMADT_exact [OF f k] mp
    by (cases w) (simp add: InitIOAPIC_def Let_def mc_say_def MADT_local_apic_address_def MADT_flags_def MADT_entries_def
        MADTEntryIOAPIC_gsib_def MADTEntryIOAPIC_id_def MADTEntryIOAPIC_address_def same ioapic_messages_def word_at_def byte_at_def)
qed

lemma InitIOAPIC_result:
  assumes f: "ioapic_found (pmem (mc_paging w)) rsdp h sig madt e phys"
    and mp: "MapPage s ((cr3 (mc_cpu w) AND PTE_ADDRESS) + h) (ucast phys + h) (ucast phys) IOAPIC_page_flags h (mc_paging w) = Inr pg"
  shows "\<exists>l. InitIOAPIC s (Some rsdp) sig h w = Inr \<lparr>
      mc_cpu = SetRedirectEntry (ucast phys + h) 1 33 (GetLocalApicId (mc_cpu w))
                 (SetRedirectEntry (ucast phys + h) 2 32 (GetLocalApicId (mc_cpu w)) (mc_cpu w)),
      mc_ports = outb 0xA1 0xFF (outb 0x21 0xFF (mc_ports w)), mc_paging = pg,
      mc_madt = \<lparr>IOAPICData = e, madt_log = l\<rparr>, IOAPICAddress = ucast phys + h\<rparr>"
  using InitIOAPIC_exact [OF assms] ioapic_found_overrides [OF f] by blast

text \<open>C21: when the tables describe an I/O APIC, three frames are free and no large page covers its direct-map address,
  InitIOAPIC masks both legacy controllers, maps the controller's page at its direct-map address uncached and writable
  without changing any other translation, and routes pin 2 to vector 32 and pin 1 to vector 33 of the executing
  processor with exactly these eight register accesses.\<close>

theorem InitIOAPIC_routes:
  assumes "ioapic_found (pmem (mc_paging w)) rsdp h sig madt e phys"
    and "r = (cr3 (mc_cpu w) AND PTE_ADDRESS) + h" and "A = ucast phys + h"
    and "pt_ok s n h r (pmem (mc_paging w))" and "3 \<le> card (free_frames s (pmem (mc_paging w)))"
    and "no_large_page h r (pmem (mc_paging w)) A"
  shows "\<exists>w'. InitIOAPIC s (Some rsdp) sig h w = Inr w' \<and> IOAPICAddress w' = A \<and>
    port_log (mc_ports w') = port_log (mc_ports w) @ [(0x21, 0xFF), (0xA1, 0xFF)] \<and>
    mmio_log (mc_cpu w') = mmio_log (mc_cpu w) @ redirection A 2 32 (GetLocalApicId (mc_cpu w)) @
      redirection A 1 33 (GetLocalApicId (mc_cpu w)) \<and>
    pt_ok s n h r (pmem (mc_paging w')) \<and>
    walk (pmem (mc_paging w')) h r (path A) = Some (0, (ucast phys AND PTE_ADDRESS) OR IOAPIC_page_flags OR PTE_PRESENT) \<and>
    (\<forall>vb. path vb \<noteq> path A \<longrightarrow> walk (pmem (mc_paging w')) h r (path vb) = walk (pmem (mc_paging w)) h r (path vb))"
proof -
  obtain m' where m: "MapPage s r A (ucast phys) IOAPIC_page_flags h (mc_paging w) = Inr (invlpg A ((mc_paging w)\<lparr>pmem := m'\<rparr>))"
      "pt_ok s n h r m'" "walk m' h r (path A) = Some (0, pte_for (ucast phys) IOAPIC_page_flags)"
      "\<forall>p. page_path p \<longrightarrow> p \<noteq> path A \<longrightarrow> walk m' h r p = walk (pmem (mc_paging w)) h r p"
    using MapPage_memory [OF assms(4-6), of "ucast phys" IOAPIC_page_flags] by blast
  then show ?thesis
    using InitIOAPIC_result [OF assms(1), of s "invlpg A ((mc_paging w)\<lparr>pmem := m'\<rparr>)"] page_path_path
      SetRedirectEntry_log [of 2 A 32] SetRedirectEntry_log [of 1 A 33] assms(2,3)
    by (auto simp: invlpg_def pte_for_def)
qed

text \<open>The witness: the ACPI tables beside the page tables of the demonstration machine, root table in frame 1.\<close>

definition demo_machine :: machine where
  "demo_machine = \<lparr>mc_cpu = cpu0\<lparr>cr3 := 0x1000\<rparr>, mc_ports = slow_uart,
     mc_paging = \<lparr>pmem = demo_vm_mem ++ acpi_mem0, ptlb = (\<lambda>_. None)\<rparr>,
     mc_madt = \<lparr>IOAPICData = 0, madt_log = []\<rparr>, IOAPICAddress = 0\<rparr>"

lemma demo_machine_mem:
  "acpi_mem0 \<subseteq>\<^sub>m demo_vm_mem ++ acpi_mem0" "demo_vm_mem \<subseteq>\<^sub>m demo_vm_mem ++ acpi_mem0"
proof -
  show "acpi_mem0 \<subseteq>\<^sub>m demo_vm_mem ++ acpi_mem0" by (simp add: map_le_map_add)
  have "list_all (\<lambda>b. demo_vm_mem (fst b) = None) acpi_bytes"
    by (simp add: acpi_bytes_def demo_vm_mem_def zeroed_def in_region_def)
  then have "demo_vm_mem x = None" if "acpi_mem0 x = Some y" for x y
    using map_of_SomeD [OF that [unfolded acpi_mem0_def]] by (auto simp: list_all_iff)
  then have "dom demo_vm_mem \<inter> dom acpi_mem0 = {}" by fastforce
  then show "demo_vm_mem \<subseteq>\<^sub>m demo_vm_mem ++ acpi_mem0" by (simp add: map_add_comm)
qed

lemma demo_ioapic: "ioapic_found (demo_vm_mem ++ acpi_mem0) 0x100100 0x100000 0x100500 0x100400 0x100434 0xFEC00000"
proof -
  note le = load_le [OF demo_machine_mem(1)]
  have "xsdt_lists (demo_vm_mem ++ acpi_mem0) 0x100100 0x100000 [(0x300, 0x50434146), (0x400, 0x43495041)]"
    using le(3) [OF acpi_mem0_tables(1)] le(2) [OF acpi_mem0_tables(2)] le(3) [OF acpi_mem0_tables(3)]
      le(3) [OF acpi_mem0_tables(4)] le(2) [OF acpi_mem0_tables(5)] le(2) [OF acpi_mem0_tables(6)]
    by (auto simp: xsdt_lists_def less_Suc_eq)
  from GetTable_find [OF this le(2) [OF acpi_mem0_tables(7)]]
  have "GetTable (demo_vm_mem ++ acpi_mem0) 0x100100 0x100000 0x100500 = Inr 0x100400" by simp
  moreover have "load32 acpi_mem0 0x100424 = Inr 0xFEE00000" "load32 acpi_mem0 0x100428 = Inr 1"
    "load8 acpi_mem0 0x100436 = Inr 2" "load32 acpi_mem0 0x100438 = Inr 0xFEC00000" "load32 acpi_mem0 0x10043C = Inr 0"
    by (simp_all add: acpi_eval)
  moreover note acpi_mem0_madt(1,3) madt_chain_le [OF demo_machine_mem(1) acpi_mem0_madt(2)]
  ultimately show ?thesis
    unfolding ioapic_found_def using le by (auto intro!: exI [of _ 74] exI [of _ "[0x10042C, 0x100434, 0x100440]"])
qed

theorem InitIOAPIC_routes_witness:
  "\<exists>w'. InitIOAPIC demo_vm (Some 0x100100) 0x100500 0x100000 demo_machine = Inr w' \<and>
    mmio_log (mc_cpu w') = [(0xFED00000, 0x14), (0xFED00010, 32), (0xFED00000, 0x15), (0xFED00010, 0x3000000),
      (0xFED00000, 0x12), (0xFED00010, 33), (0xFED00000, 0x13), (0xFED00010, 0x3000000)]"
proof -
  let ?m = "demo_vm_mem ++ acpi_mem0"
  note le = pt_ok_le [OF demo_pt_ok demo_machine_mem(2)]
  have m: "pmem (mc_paging demo_machine) = ?m" by (simp add: demo_machine_def)
  have small: "no_large_page 0x100000 0x101000 ?m va" for va
    using le(3) [OF page_path_path] demo_walk [OF page_path_path] by (simp add: no_large_page_def)
  have three: "3 \<le> card (free_frames demo_vm ?m)" using le(2) demo_three_frames by simp
  have "0x101000 = (cr3 (mc_cpu demo_machine) AND PTE_ADDRESS) + 0x100000"
    by (simp add: demo_machine_def cpu0_def PTE_ADDRESS_def)
  from InitIOAPIC_routes [of demo_machine "0x100100" "0x100000" "0x100500" "0x100400" "0x100434" "0xFEC00000" "0x101000" "0xFED00000" demo_vm 1,
      unfolded m, OF demo_ioapic this _ le(1) three small]
  obtain w' where "InitIOAPIC demo_vm (Some 0x100100) 0x100500 0x100000 demo_machine = Inr w'"
    "mmio_log (mc_cpu w') = mmio_log (mc_cpu demo_machine) @ redirection 0xFED00000 2 32 (GetLocalApicId (mc_cpu demo_machine)) @
      redirection 0xFED00000 1 33 (GetLocalApicId (mc_cpu demo_machine))" by auto
  moreover have "GetLocalApicId (mc_cpu demo_machine) = 3" "mmio_log (mc_cpu demo_machine) = []"
    by (simp_all add: demo_machine_def cpu0_def GetLocalApicId_def)
  ultimately show ?thesis by (auto simp: redirection_def)
qed

end
