(* ===== verification/Descriptors.thy ===== *)
theory Descriptors
  imports Cpu Utils
begin

text \<open>
  The global descriptor table (\<^verbatim>\<open>cpu/gdt.cpp\<close>, \<^verbatim>\<open>cpu/gdt.hpp\<close>, \<^verbatim>\<open>LoadGDT\<close> of
  \<^verbatim>\<open>cpu.asm\<close>) and the interrupt descriptor table (\<^verbatim>\<open>cpu/idt.cpp\<close>,
  \<^verbatim>\<open>cpu/idt.hpp\<close>). Entries are the packed structs of the code; the specification reads
  their bytes the way the processor does.
\<close>

section \<open>The global descriptor table\<close>

record GDTEntry =
  limit_low :: u16
  base_low :: u16
  base_middle :: u8
  gdt_access :: u8
  granularity :: u8
  base_high :: u8

record GDTPointer =
  gdt_size :: u16
  gdt_offset :: u64

definition zero_gdt_entry :: GDTEntry where
  "zero_gdt_entry = \<lparr>limit_low = 0, base_low = 0, base_middle = 0, gdt_access = 0, granularity = 0, base_high = 0\<rparr>"

text \<open>The globals of gdt.cpp and the address of the table.\<close>

record gdt_state =
  GDTTable :: "GDTEntry list"
  GDTPtr :: GDTPointer
  gdt_at :: u64

definition gdt_globals :: "u64 \<Rightarrow> gdt_state" where
  "gdt_globals a = \<lparr>GDTTable = replicate 3 zero_gdt_entry, GDTPtr = \<lparr>gdt_size = 0, gdt_offset = 0\<rparr>, gdt_at = a\<rparr>"

definition SetGDTEntry :: "u32 \<Rightarrow> u8 \<Rightarrow> u8 \<Rightarrow> gdt_state \<Rightarrow> gdt_state res" where
  "SetGDTEntry index acc gran g =
     (if length (GDTTable g) \<le> unat index then Inl (OutOfBounds ''GDTTable'')
      else Inr (g\<lparr>GDTTable := (GDTTable g)[unat index := (GDTTable g ! unat index)
             \<lparr>limit_low := 0, base_low := 0, base_middle := 0, gdt_access := acc, granularity := gran, base_high := 0\<rparr>]\<rparr>))"

text \<open>The base address in a descriptor, as the processor assembles it.\<close>

definition descriptor_base :: "GDTEntry \<Rightarrow> u64" where
  "descriptor_base e = push_bit 24 (ucast (base_high e)) OR push_bit 16 (ucast (base_middle e)) OR ucast (base_low e)"

text \<open>
  \<^verbatim>\<open>LoadGDT\<close> of cpu.asm: the table register from the pointer, selector 0x10 into every data
  segment register, 0x08 into cs by the return. Loading gs sets its base to the base in the descriptor.
\<close>

definition LoadGDT :: "gdt_state \<Rightarrow> cpu \<Rightarrow> cpu" where
  "LoadGDT g c =
     c\<lparr>gdtr := (gdt_size (GDTPtr g), gdt_offset (GDTPtr g)),
       msr := (msr c)(IA32_GS_BASE := descriptor_base (GDTTable g ! (0x10 div 8))),
       data_sel := 0x10, cs_sel := 0x08\<rparr>"

definition InitGDT :: "gdt_state \<Rightarrow> cpu \<Rightarrow> (gdt_state \<times> cpu) res" where
  "InitGDT g c =
     (let g = g\<lparr>GDTPtr := \<lparr>gdt_size = 8 * 3 - 1, gdt_offset = gdt_at g\<rparr>\<rparr>
      in and_then (SetGDTEntry 0 0 0 g) (\<lambda>g.
         and_then (SetGDTEntry 1 0x9A 0x20 g) (\<lambda>g.
         and_then (SetGDTEntry 2 0x92 0x00 g) (\<lambda>g.
         Inr (g, LoadGDT g c)))))"

section \<open>The interrupt descriptor table\<close>

record IDTEntry =
  offset_low :: u16
  selector :: u16
  ist :: u8
  attrs :: u8
  offset_mid :: u16
  offset_high :: u32
  idt_zero :: u32

record IDTPointer =
  idt_size :: u16
  idt_offset :: u64

definition zero_idt_entry :: IDTEntry where
  "zero_idt_entry = \<lparr>offset_low = 0, selector = 0, ist = 0, attrs = 0, offset_mid = 0, offset_high = 0, idt_zero = 0\<rparr>"

text \<open>The addresses of the assembly stubs of int.asm.\<close>

record asm_stubs =
  isr :: "nat \<Rightarrow> u64"
  irq :: "nat \<Rightarrow> u64"
  StubEntry :: u64

text \<open>Stubs for the witnesses.\<close>

definition demo_stubs :: asm_stubs where
  "demo_stubs = \<lparr>isr = (\<lambda>v. 0x1000 + of_nat v), irq = (\<lambda>v. 0x2000 + of_nat v), StubEntry = 0x3000\<rparr>"

definition ISRHandlers :: "asm_stubs \<Rightarrow> u64 list" where
  "ISRHandlers a = map (isr a) [0..<32]"

definition IRQHandlers :: "asm_stubs \<Rightarrow> u64 list" where
  "IRQHandlers a = map (irq a) [32, 33]"

record idt_state =
  IDTTable :: "IDTEntry list"
  IDTPtr :: IDTPointer
  idt_at :: u64

definition idt_globals :: "u64 \<Rightarrow> idt_state" where
  "idt_globals a = \<lparr>IDTTable = replicate 256 zero_idt_entry, IDTPtr = \<lparr>idt_size = 0, idt_offset = 0\<rparr>, idt_at = a\<rparr>"

definition SetIDTGate :: "u64 \<Rightarrow> u64 \<Rightarrow> idt_state \<Rightarrow> idt_state res" where
  "SetIDTGate entrynum addr d =
     (let entrynum = Clamp 0 255 entrynum
      in if length (IDTTable d) \<le> unat entrynum then Inl (OutOfBounds ''IDTTable'')
         else Inr (d\<lparr>IDTTable := (IDTTable d)[unat entrynum := (IDTTable d ! unat entrynum)
                \<lparr>offset_low := ucast (addr AND 0xFFFF),
                 offset_mid := ucast (drop_bit 16 addr AND 0xFFFF),
                 offset_high := ucast (drop_bit 32 addr),
                 selector := 0x08, ist := 0, attrs := 0x8E, idt_zero := 0\<rparr>]\<rparr>))"

text \<open>The three loops; their counters are bytes, the last loop ends before 255.\<close>

definition InitIDT :: "asm_stubs \<Rightarrow> idt_state \<Rightarrow> idt_state res" where
  "InitIDT a d =
     and_then (for_each (\<lambda>i. SetIDTGate (of_nat i) (ISRHandlers a ! i)) [0..<32] d) (\<lambda>d.
     and_then (for_each (\<lambda>i. SetIDTGate (of_nat i) (IRQHandlers a ! (i - 32))) [32..<34] d) (\<lambda>d.
     for_each (\<lambda>i. SetIDTGate (of_nat i) (StubEntry a)) [34..<255] d))"

text \<open>\<^verbatim>\<open>idt_load\<close> of int.asm is one \<^verbatim>\<open>lidt\<close> of the pointer.\<close>

definition LoadIDT :: "idt_state \<Rightarrow> cpu \<Rightarrow> idt_state \<times> cpu" where
  "LoadIDT d c =
     (let d = d\<lparr>IDTPtr := \<lparr>idt_size = 16 * 256 - 1, idt_offset = idt_at d\<rparr>\<rparr>
      in (d, c\<lparr>idtr := (idt_size (IDTPtr d), idt_offset (IDTPtr d))\<rparr>))"

section \<open>What the processor reads\<close>

text \<open>A segment descriptor is eight bytes in the order of the struct.\<close>

definition gdt_entry_bytes :: "GDTEntry \<Rightarrow> u8 list" where
  "gdt_entry_bytes e = le_split 2 (ucast (limit_low e)) @ le_split 2 (ucast (base_low e)) @
     [base_middle e, gdt_access e, granularity e, base_high e]"

text \<open>What the processor makes of eight bytes: present, privilege level, code or data, executable,
  readable or writable, long mode.\<close>

record segment =
  seg_present :: bool
  seg_dpl :: u64
  seg_code_data :: bool
  seg_exec :: bool
  seg_rw :: bool
  seg_long :: bool

definition cpu_segment :: "u8 list \<Rightarrow> segment" where
  "cpu_segment bs =
     (let q = le_join bs
      in \<lparr>seg_present = bit q 47, seg_dpl = take_bit 2 (drop_bit 45 q), seg_code_data = bit q 44,
          seg_exec = bit q 43, seg_rw = bit q 41, seg_long = bit q 53\<rparr>)"

text \<open>The descriptor a selector names, when the table register covers it.\<close>

definition selected :: "gdt_state \<Rightarrow> cpu \<Rightarrow> u16 \<Rightarrow> segment option" where
  "selected g c sel =
     (if unat sel + 7 \<le> unat (fst (gdtr c)) \<and> snd (gdtr c) = gdt_at g
      then Some (cpu_segment (gdt_entry_bytes (GDTTable g ! (unat sel div 8)))) else None)"

text \<open>A gate is sixteen bytes; the handler's address is spread over three of its fields.\<close>

definition idt_entry_bytes :: "IDTEntry \<Rightarrow> u8 list" where
  "idt_entry_bytes e = le_split 2 (ucast (offset_low e)) @ le_split 2 (ucast (selector e)) @ [ist e, attrs e] @
     le_split 2 (ucast (offset_mid e)) @ le_split 4 (ucast (offset_high e)) @ le_split 4 (ucast (idt_zero e))"

record gate =
  gate_handler :: u64
  gate_selector :: u64
  gate_ist :: u8
  gate_type :: u8

definition cpu_gate :: "u8 list \<Rightarrow> gate" where
  "cpu_gate bs =
     \<lparr>gate_handler = le_join (take 2 bs) OR push_bit 16 (le_join (take 2 (drop 6 bs))) OR
        push_bit 32 (le_join (take 4 (drop 8 bs))),
      gate_selector = le_join (take 2 (drop 2 bs)), gate_ist = bs ! 4, gate_type = bs ! 5\<rparr>"

text \<open>Vector \<open>v\<close> as the processor finds it: the sixteen bytes at offset 16 v, when the limit covers them.\<close>

definition vector_gate :: "idt_state \<Rightarrow> cpu \<Rightarrow> nat \<Rightarrow> gate option" where
  "vector_gate d c v =
     (if v * 16 + 15 \<le> unat (fst (idtr c)) \<and> snd (idtr c) = idt_at d
      then Some (cpu_gate (idt_entry_bytes (IDTTable d ! v))) else None)"

section \<open>Both tables meet the contract\<close>

text \<open>The entries the two setters write.\<close>

definition gdt_entry :: "u8 \<times> u8 \<Rightarrow> GDTEntry" where
  "gdt_entry = (\<lambda>(acc, gran). \<lparr>limit_low = 0, base_low = 0, base_middle = 0, gdt_access = acc,
     granularity = gran, base_high = 0\<rparr>)"

definition idt_entry :: "u64 \<Rightarrow> IDTEntry" where
  "idt_entry addr = \<lparr>offset_low = ucast addr, selector = 8, ist = 0, attrs = 0x8E,
     offset_mid = ucast (drop_bit 16 addr), offset_high = ucast (drop_bit 32 addr), idt_zero = 0\<rparr>"

interpretation gdt: slots 3 "\<lambda>i (acc, gran). SetGDTEntry (of_nat i) acc gran" "\<lambda>g i. GDTTable g ! i" gdt_entry
  "\<lambda>g. length (GDTTable g) = 3" "\<lambda>_. True"
  by unfold_locales (auto simp: SetGDTEntry_def gdt_entry_def unat_of_nat take_bit_nat_eq_self)

lemma ucast_mask: "(ucast (addr AND 0xFFFF) :: u16) = ucast (addr :: u64)"
proof -
  have m: "(0xFFFF :: u64) = mask 16" by (simp add: mask_eq_exp_minus_1)
  show ?thesis unfolding m by (rule bit_word_eqI) (auto simp: bit_simps)
qed

lemma Clamp_in: "unat v \<le> 255 \<Longrightarrow> Clamp 0 255 v = v"
  by (auto simp: Clamp_def word_nat)

interpretation idt: slots 256 "\<lambda>i. SetIDTGate (of_nat i)" "\<lambda>d i. IDTTable d ! i" idt_entry
  "\<lambda>d. length (IDTTable d) = 256" "\<lambda>_. True"
  by unfold_locales
     (auto simp: SetIDTGate_def idt_entry_def Clamp_in unat_of_nat64 ucast_mask nth_list_update Let_def)

section \<open>Properties\<close>

lemma le_join_bytes8:
  "le_join [a, b, c, d, e, f, g, h] = ucast a OR push_bit 8 (ucast b) OR push_bit 16 (ucast c) OR push_bit 24 (ucast d) OR
     push_bit 32 (ucast e) OR push_bit 40 (ucast f) OR push_bit 48 (ucast g) OR push_bit 56 (ucast h)"
  by (simp add: push_bit_or ac_simps)

lemma le_join_2: "le_join (le_split 2 (ucast (w :: u16))) = ucast w"
  unfolding le_join_split by (rule bit_word_eqI) (auto simp: bit_simps dest: bit_imp_le_length)

lemma le_join_4: "le_join (le_split 4 (ucast (w :: u32))) = ucast w"
  unfolding le_join_split by (rule bit_word_eqI) (auto simp: bit_simps dest: bit_imp_le_length)

lemma cpu_gate_bytes:
  "cpu_gate (idt_entry_bytes e) = \<lparr>gate_handler = ucast (offset_low e) OR push_bit 16 (ucast (offset_mid e)) OR
     push_bit 32 (ucast (offset_high e)), gate_selector = ucast (selector e), gate_ist = ist e, gate_type = attrs e\<rparr>"
proof -
  let ?b = "idt_entry_bytes e"
  have "take 2 ?b = le_split 2 (ucast (offset_low e))" "take 2 (drop 6 ?b) = le_split 2 (ucast (offset_mid e))"
    "take 4 (drop 8 ?b) = le_split 4 (ucast (offset_high e))" "take 2 (drop 2 ?b) = le_split 2 (ucast (selector e))"
    "?b ! 4 = ist e" "?b ! 5 = attrs e"
    by (simp_all add: idt_entry_bytes_def nth_append)
  then show ?thesis by (simp only: cpu_gate_def le_join_2 le_join_4)
qed

lemma split_address: "ucast (ucast (a :: u64) :: u16) OR push_bit 16 (ucast (ucast (drop_bit 16 a) :: u16)) OR
    push_bit 32 (ucast (ucast (drop_bit 32 a) :: u32)) = a" (is "?l = a")
proof (rule bit_word_eqI)
  fix n assume "n < LENGTH(64)"
  moreover have "n < 16 \<or> (16 \<le> n \<and> n < 32) \<or> 32 \<le> n" by linarith
  ultimately show "bit ?l n \<longleftrightarrow> bit a n" by (elim disjE) (auto simp: bit_simps)
qed

lemma cpu_gate_idt_entry:
  "cpu_gate (idt_entry_bytes (idt_entry a)) = \<lparr>gate_handler = a, gate_selector = 8, gate_ist = 0, gate_type = 0x8E\<rparr>"
  by (simp add: cpu_gate_bytes idt_entry_def split_address)

text \<open>C28: a gate round-trips: whatever entry SetIDTGate is asked for (numbers above 255 are taken as 255), the
  processor decodes the bytes of that entry back to the full 64-bit handler address, the kernel code selector,
  no stack switch and a present ring-0 interrupt gate.\<close>

theorem SetIDTGate_roundtrip:
  assumes "length (IDTTable d) = 256"
  shows "\<exists>d'. SetIDTGate v addr d = Inr d' \<and> length (IDTTable d') = 256 \<and>
    cpu_gate (idt_entry_bytes (IDTTable d' ! min 255 (unat v))) =
      \<lparr>gate_handler = addr, gate_selector = 8, gate_ist = 0, gate_type = 0x8E\<rparr> \<and>
    (\<forall>j. j \<noteq> min 255 (unat v) \<longrightarrow> IDTTable d' ! j = IDTTable d ! j)"
proof -
  have c: "Clamp 0 255 v = of_nat (min 255 (unat v))" by (auto simp: Clamp_def word_nat min_def)
  have "Clamp 0 255 (of_nat (min 255 (unat v)) :: u64) = Clamp 0 255 v"
    unfolding c by (rule Clamp_in) (simp add: unat_of_nat64)
  then have "SetIDTGate v addr d = SetIDTGate (of_nat (min 255 (unat v))) addr d" by (simp add: SetIDTGate_def)
  moreover have "min 255 (unat v) < 256" by simp
  ultimately show ?thesis using idt.put_ok [of d "min 255 (unat v)" addr] assms cpu_gate_idt_entry by auto
qed

theorem SetIDTGate_roundtrip_witness:
  "\<exists>d'. SetIDTGate 33 0xFFFFFFFF80001234 (idt_globals 0) = Inr d' \<and>
    gate_handler (cpu_gate (idt_entry_bytes (IDTTable d' ! 33))) = 0xFFFFFFFF80001234"
  using SetIDTGate_roundtrip [of "idt_globals 0" 33 "0xFFFFFFFF80001234"] by (auto simp: idt_globals_def)

text \<open>What InitIDT and LoadIDT leave for each vector.\<close>

definition handler_of :: "asm_stubs \<Rightarrow> nat \<Rightarrow> u64" where
  "handler_of a v = (if v < 32 then isr a v else if v < 34 then irq a v else StubEntry a)"

lemma InitIDT_result:
  assumes "length (IDTTable d) = 256"
  shows "\<exists>d'. InitIDT a d = Inr d' \<and> length (IDTTable d') = 256 \<and>
    (\<forall>v. IDTTable d' ! v = (if v < 255 then idt_entry (handler_of a v) else IDTTable d ! v))"
proof -
  obtain d1 where d1: "for_each (\<lambda>i. SetIDTGate (of_nat i) (ISRHandlers a ! i)) [0..<32] d = Inr d1"
      "length (IDTTable d1) = 256"
      "\<forall>i. IDTTable d1 ! i = (if i < 32 then idt_entry (ISRHandlers a ! i) else IDTTable d ! i)"
    using idt.fill [of d "[0..<32]" "\<lambda>i. ISRHandlers a ! i"] assms by auto
  obtain d2 where d2: "for_each (\<lambda>i. SetIDTGate (of_nat i) (IRQHandlers a ! (i - 32))) [32..<34] d1 = Inr d2"
      "length (IDTTable d2) = 256"
      "\<forall>i. IDTTable d2 ! i = (if 32 \<le> i \<and> i < 34 then idt_entry (IRQHandlers a ! (i - 32)) else IDTTable d1 ! i)"
    using idt.fill [of d1 "[32..<34]" "\<lambda>i. IRQHandlers a ! (i - 32)"] d1(2) by (auto simp del: upt_rec_numeral)
  obtain d3 where d3: "for_each (\<lambda>i. SetIDTGate (of_nat i) (StubEntry a)) [34..<255] d2 = Inr d3"
      "length (IDTTable d3) = 256"
      "\<forall>i. IDTTable d3 ! i = (if 34 \<le> i \<and> i < 255 then idt_entry (StubEntry a) else IDTTable d2 ! i)"
    using idt.fill [of d2 "[34..<255]" "\<lambda>i. StubEntry a"] d2(2) by (auto simp del: upt_rec_numeral)
  have irqs: "IRQHandlers a ! (v - 32) = irq a v" if "32 \<le> v" "v < 34" for v
  proof -
    have "v = 32 \<or> v = 33" using that by linarith
    then show ?thesis by (auto simp: IRQHandlers_def)
  qed
  have "IDTTable d3 ! v = (if v < 255 then idt_entry (handler_of a v) else IDTTable d ! v)" for v
    using d1(3) d2(3) d3(3) irqs by (auto simp: handler_of_def ISRHandlers_def)
  moreover have "InitIDT a d = Inr d3" using d1(1) d2(1) d3(1) by (simp add: InitIDT_def del: upt_rec_numeral)
  ultimately show ?thesis using d3(2) by blast
qed

text \<open>C22: after InitIDT and LoadIDT the processor finds for every vector below 255 a present interrupt gate to the stub
  of that vector (exceptions 0 to 31, interrupts 32 and 33, the empty stub from 34 on), while vector 255, the one the
  local APIC's spurious interrupt uses, still has the all-zero, not-present entry it started with.\<close>

theorem InitIDT_gates:
  "\<exists>d'. InitIDT a (idt_globals at_addr) = Inr d' \<and>
    (\<forall>v. vector_gate (fst (LoadIDT d' c)) (snd (LoadIDT d' c)) v =
      (if v < 255 then Some \<lparr>gate_handler = handler_of a v, gate_selector = 8, gate_ist = 0, gate_type = 0x8E\<rparr>
       else if v = 255 then Some \<lparr>gate_handler = 0, gate_selector = 0, gate_ist = 0, gate_type = 0\<rparr> else None))"
proof -
  obtain d' where d': "InitIDT a (idt_globals at_addr) = Inr d'" "length (IDTTable d') = 256"
      "\<forall>v. IDTTable d' ! v = (if v < 255 then idt_entry (handler_of a v) else IDTTable (idt_globals at_addr) ! v)"
    using InitIDT_result [of "idt_globals at_addr" a] by (auto simp: idt_globals_def)
  have z: "IDTTable d' ! 255 = zero_idt_entry" using d'(3) by (simp add: idt_globals_def)
  have "vector_gate (fst (LoadIDT d' c)) (snd (LoadIDT d' c)) v =
      (if v < 256 then Some (cpu_gate (idt_entry_bytes (IDTTable d' ! v))) else None)" for v
    by (simp add: vector_gate_def LoadIDT_def Let_def)
  moreover have "cpu_gate (idt_entry_bytes zero_idt_entry) = \<lparr>gate_handler = 0, gate_selector = 0, gate_ist = 0, gate_type = 0\<rparr>"
    by (simp add: cpu_gate_bytes zero_idt_entry_def)
  moreover have "v < 255 \<or> v = 255 \<or> 255 < v" for v :: nat by linarith
  ultimately have "vector_gate (fst (LoadIDT d' c)) (snd (LoadIDT d' c)) v =
      (if v < 255 then Some \<lparr>gate_handler = handler_of a v, gate_selector = 8, gate_ist = 0, gate_type = 0x8E\<rparr>
       else if v = 255 then Some \<lparr>gate_handler = 0, gate_selector = 0, gate_ist = 0, gate_type = 0\<rparr> else None)" for v
    using d'(3) z cpu_gate_idt_entry by simp
  then show ?thesis using d'(1) by blast
qed

text \<open>The gate of one vector after InitIDT and LoadIDT, for any processor whose table register is the one LoadIDT leaves.\<close>

lemma vector_gate_InitIDT:
  assumes "length (IDTTable i) = 256" and "InitIDT a i = Inr d" and "idtr c = idtr (snd (LoadIDT d c0))" and "v < 255"
  shows "vector_gate (fst (LoadIDT d c0)) c v =
    Some \<lparr>gate_handler = handler_of a v, gate_selector = 8, gate_ist = 0, gate_type = 0x8E\<rparr>"
proof -
  have "IDTTable d ! v = idt_entry (handler_of a v)" using InitIDT_result [OF assms(1), of a] assms(2,4) by auto
  then show ?thesis using assms(3,4) cpu_gate_idt_entry by (simp add: vector_gate_def LoadIDT_def Let_def)
qed

lemma InitGDT_result:
  assumes "length (GDTTable g) = 3"
  shows "\<exists>g'. InitGDT g c = Inr (g', LoadGDT g' c) \<and> GDTTable g' = map gdt_entry [(0, 0), (0x9A, 0x20), (0x92, 0)] \<and>
    gdt_at g' = gdt_at g \<and> GDTPtr g' = \<lparr>gdt_size = 23, gdt_offset = gdt_at g\<rparr>"
proof -
  obtain e0 e1 e2 where "GDTTable g = [e0, e1, e2]" using assms by (auto simp: numeral_3_eq_3 length_Suc_conv)
  then show ?thesis by (simp add: InitGDT_def SetGDTEntry_def gdt_entry_def Let_def)
qed

lemma cpu_segment_entry:
  "cpu_segment (gdt_entry_bytes (gdt_entry (0x9A, 0x20))) = \<lparr>seg_present = True, seg_dpl = 0, seg_code_data = True,
     seg_exec = True, seg_rw = True, seg_long = True\<rparr>"
  "cpu_segment (gdt_entry_bytes (gdt_entry (0x92, 0))) = \<lparr>seg_present = True, seg_dpl = 0, seg_code_data = True,
     seg_exec = False, seg_rw = True, seg_long = False\<rparr>"
proof -
  have b: "gdt_entry_bytes (gdt_entry (acc, gran)) = [0, 0, 0, 0, 0, acc, gran, 0]" for acc gran
    by (simp add: gdt_entry_bytes_def gdt_entry_def numeral_2_eq_2)
  show "cpu_segment (gdt_entry_bytes (gdt_entry (0x9A, 0x20))) = \<lparr>seg_present = True, seg_dpl = 0, seg_code_data = True,
     seg_exec = True, seg_rw = True, seg_long = True\<rparr>"
    unfolding b cpu_segment_def le_join_bytes8 by simp
  show "cpu_segment (gdt_entry_bytes (gdt_entry (0x92, 0))) = \<lparr>seg_present = True, seg_dpl = 0, seg_code_data = True,
     seg_exec = False, seg_rw = True, seg_long = False\<rparr>"
    unfolding b cpu_segment_def le_join_bytes8 by simp
qed

text \<open>After InitGDT the table register covers exactly the three descriptors; the code selector names a present ring-0 long-mode
  code segment and the data selector a present ring-0 writable data segment.\<close>

lemma InitGDT_segments:
  "\<exists>g c'. InitGDT (gdt_globals a) c = Inr (g, c') \<and>
    selected g c' (cs_sel c') = Some \<lparr>seg_present = True, seg_dpl = 0, seg_code_data = True, seg_exec = True,
      seg_rw = True, seg_long = True\<rparr> \<and>
    selected g c' (data_sel c') = Some \<lparr>seg_present = True, seg_dpl = 0, seg_code_data = True, seg_exec = False,
      seg_rw = True, seg_long = False\<rparr> \<and>
    (\<forall>sel. selected g c' sel \<noteq> None \<longleftrightarrow> unat sel \<le> 16)"
proof -
  obtain g where g: "InitGDT (gdt_globals a) c = Inr (g, LoadGDT g c)"
      "GDTTable g = map gdt_entry [(0, 0), (0x9A, 0x20), (0x92, 0)]" "gdt_at g = a"
      "GDTPtr g = \<lparr>gdt_size = 23, gdt_offset = a\<rparr>"
    using InitGDT_result [of "gdt_globals a" c] by (auto simp: gdt_globals_def)
  then have "selected g (LoadGDT g c) sel =
      (if unat sel \<le> 16 then Some (cpu_segment (gdt_entry_bytes (GDTTable g ! (unat sel div 8)))) else None)" for sel
    by (simp add: selected_def LoadGDT_def)
  then show ?thesis
    using g(1,2) by (auto simp: LoadGDT_def cpu_segment_entry)
qed

text \<open>InitGDT reloads the gs selector, and with it sets the gs base to the base of the data descriptor, 0. A core
  context that was loaded into the gs base before is lost.\<close>

lemma InitGDT_clears_gs_base:
  assumes "length (GDTTable g) = 3"
  shows "\<exists>g' c'. InitGDT g c = Inr (g', c') \<and> msr c' IA32_GS_BASE = 0 \<and> length (GDTTable g') = 3"
  using InitGDT_result [OF assms, of c] by (auto simp: LoadGDT_def gdt_entry_def descriptor_base_def)

lemma InitGDT_clears_gs_base_witness:
  "\<exists>g' c'. InitGDT (gdt_globals 0x8000) cpu0 = Inr (g', c') \<and> msr c' IA32_GS_BASE = 0"
  using InitGDT_clears_gs_base [of "gdt_globals 0x8000" cpu0] by (auto simp: gdt_globals_def)

end
