(* ===== verification/Boot.thy ===== *)
theory Boot
  imports Apic Descriptors
begin

text \<open>
  Early initialisation of the boot processor, \<^verbatim>\<open>Arch::EarlyInit\<close> of \<^verbatim>\<open>arch/x86_64/init.cpp\<close>: core context,
  descriptor tables, physical memory manager, the switch from Limine's page tables to a root table of the kernel's
  own, and the interrupt controllers. The main theorem is about the switch: every higher-half translation stays, every
  lower-half one disappears, and the page-table invariant the memory manager needs holds for the new root.
\<close>

section \<open>State\<close>

record CoreContext =
  CoreID :: u32
  LapicID :: u32

text \<open>
  The machine of the interrupt controllers, the allocator's globals, the descriptor tables, the core contexts and their
  address. Each context takes 8 bytes.
\<close>

record boot =
  bt_machine :: machine
  bt_pmm :: pmm
  bt_gdt :: gdt_state
  bt_idt :: idt_state
  CoreContextes :: "CoreContext list"
  contexts_at :: u64

definition context_address :: "u64 \<Rightarrow> u32 \<Rightarrow> u64" where
  "context_address at_addr ident = at_addr + ucast ident * 8"

text \<open>Storing a context and making it the current one.\<close>

definition LoadCoreContext :: "u64 \<Rightarrow> cpu \<Rightarrow> cpu" where
  "LoadCoreContext addr c =
     (let low = ucast (addr AND 0xFFFFFFFF);
          high = ucast (drop_bit 32 addr)
      in wrmsr IA32_GS_BASE low high c)"

definition set_context :: "u32 \<Rightarrow> u32 \<Rightarrow> CoreContext list \<Rightarrow> CoreContext list res" where
  "set_context ident lapic cs =
     (if length cs \<le> unat ident then Inl (OutOfBounds ''CoreContextes'')
      else Inr (cs[unat ident := \<lparr>CoreID = ident, LapicID = lapic\<rparr>]))"

section \<open>The root table\<close>

text \<open>Zeroing the new root and copying the upper half of the old one; both indices count 8-byte entries.\<close>

definition zero_root :: "u64 \<Rightarrow> mem \<Rightarrow> mem res" where
  "zero_root modern_pml4_virt = for_each (\<lambda>i m. store64 m (modern_pml4_virt + of_nat i * 8) 0) [0..<512]"

definition clone_upper_half :: "u64 \<Rightarrow> u64 \<Rightarrow> mem \<Rightarrow> mem res" where
  "clone_upper_half modern_pml4_virt old_pml4_virt =
     for_each (\<lambda>i m. and_then (load64 m (old_pml4_virt + of_nat i * 8)) (\<lambda>e.
       store64 m (modern_pml4_virt + of_nat i * 8) e)) [256..<512]"

text \<open>The switch: loading cr3 also drops the cached translations.\<close>

definition switch_tables :: "pmm \<Rightarrow> u64 \<Rightarrow> machine \<Rightarrow> machine res" where
  "switch_tables s HHDMOffset w =
     and_then (AllocatePage s (pmem (mc_paging w))) (\<lambda>(modern_pml4_phys, m).
       let modern_pml4_virt = modern_pml4_phys + HHDMOffset
       in and_then (zero_root modern_pml4_virt m) (\<lambda>m.
          let old_pml4_virt = (cr3 (mc_cpu w) AND PTE_ADDRESS) + HHDMOffset
          in and_then (clone_upper_half modern_pml4_virt old_pml4_virt m) (\<lambda>m.
             Inr (w\<lparr>mc_paging := \<lparr>pmem = m, ptlb = (\<lambda>_. None)\<rparr>,
                    mc_cpu := (mc_cpu w)\<lparr>cr3 := modern_pml4_phys\<rparr>\<rparr>))))"

section \<open>EarlyInit\<close>

text \<open>
  \<open>stubs\<close> are the addresses of the assembly entry points, \<open>hhdm_offset\<close> the offset in Limine's response,
  \<open>entries\<close> its memory map, \<open>rsdp_response\<close> and \<open>sig\<close> as for InitIOAPIC.
\<close>

definition EarlyInit :: "asm_stubs \<Rightarrow> u64 \<Rightarrow> memmap_entry list \<Rightarrow> u64 option \<Rightarrow> u64 \<Rightarrow> boot \<Rightarrow> boot res" where
  "EarlyInit stubs hhdm_offset entries rsdp_response sig b =
     and_then (set_context 0 0 (CoreContextes b)) (\<lambda>cs.
     let b = b\<lparr>CoreContextes := cs\<rparr>;
         w = bt_machine b;
         c = LoadCoreContext (context_address (contexts_at b) 0) (mc_cpu w)
     in and_then (InitGDT (bt_gdt b) c) (\<lambda>(g, c).
        and_then (InitIDT stubs (bt_idt b)) (\<lambda>d.
        let (d, c) = LoadIDT d c
        in and_then (kassert (hhdm_offset \<noteq> 0) ''IOAPIC: Failed to recive HHDM from Limine!'') (\<lambda>_.
           and_then (pmm_Init entries hhdm_offset (pmem (mc_paging w))) (\<lambda>(s, m).
           let w = w\<lparr>mc_cpu := c, mc_paging := (mc_paging w)\<lparr>pmem := m\<rparr>\<rparr>
           in and_then (switch_tables s hhdm_offset w) (\<lambda>w.
              and_then (InitLAPIC (mc_cpu w)) (\<lambda>c.
              and_then (InitIOAPIC s rsdp_response sig hhdm_offset (w\<lparr>mc_cpu := c\<rparr>)) (\<lambda>w.
                Inr (b\<lparr>bt_machine := w, bt_pmm := s, bt_gdt := g, bt_idt := d\<rparr>)))))))))"

section \<open>A page as a table of slots\<close>

text \<open>The page at \<open>t\<close> is mapped and the rest of memory is as in \<open>m0\<close>.\<close>

definition only_page :: "u64 \<Rightarrow> mem \<Rightarrow> mem \<Rightarrow> bool" where
  "only_page t m0 m \<longleftrightarrow> mapped m t 4096 \<and> dom m = dom m0 \<and> (\<forall>x. \<not> in_region t 4096 x \<longrightarrow> m x = m0 x)"

definition table_entry :: "u64 \<Rightarrow> mem \<Rightarrow> nat \<Rightarrow> u64" where
  "table_entry t m i = (if i < 512 then entry m t i else 0)"

lemma store_entry:
  assumes "page_aligned t" and "only_page t m0 m" and "i < 512"
  shows "\<exists>m'. store64 m (t + of_nat i * 8) v = Inr m' \<and> only_page t m0 m' \<and> table_entry t m' i = v \<and>
    (\<forall>j. j \<noteq> i \<longrightarrow> table_entry t m' j = table_entry t m j)"
proof -
  have s: "t + of_nat i * 8 = slot t i" by (simp add: slot_def)
  have "mapped m (slot t i) 8" using assms(2,3) by (intro slot_mapped) (auto simp: only_page_def)
  then obtain m' where m': "store64 m (slot t i) v = Inr m'" using qword.st_mapped by blast
  have "dom m' = dom m" by (rule qword.st_dom [OF m'])
  moreover have "m' x = m x" if "\<not> in_region t 4096 x" for x
    using qword.st_frame [OF m'] slot_in_page [OF assms(3)] that by blast
  ultimately have "only_page t m0 m'" using assms(2) mapped_dom [of m' m t 4096] by (simp add: only_page_def)
  moreover have "table_entry t m' j = table_entry t m j" if "j \<noteq> i" for j
    using entry_store_other [OF m' assms(1,1,3)] that by (simp add: table_entry_def)
  ultimately show ?thesis
    using m' entry_store_same [OF m'] assms(3) by (auto simp: s table_entry_def)
qed

text \<open>The contract of slots, for every page-aligned table and rest of memory.\<close>

lemma root_slots:
  assumes "page_aligned t"
  shows "slots 512 (\<lambda>i v m. store64 m (t + of_nat i * 8) v) (table_entry t) (\<lambda>v. v) (only_page t m0) (\<lambda>_. True)"
  by unfold_locales (use store_entry [OF assms] in blast)

section \<open>The switch\<close>

text \<open>The new root in page \<open>t\<close>: empty below, the old root's entries above; all else as in \<open>m1\<close>.\<close>

definition cloned :: "u64 \<Rightarrow> u64 \<Rightarrow> mem \<Rightarrow> mem \<Rightarrow> bool" where
  "cloned t old m1 m \<longleftrightarrow> only_page t m1 m \<and>
     (\<forall>i < 512. entry m t i = (if i < 256 then 0 else entry m1 old i))"

lemma loops_clone:
  assumes t: "page_aligned t" "mapped m1 t 4096" and old: "page_aligned old" "mapped m1 old 4096" "old \<noteq> t"
  shows "\<exists>m. and_then (zero_root t m1) (clone_upper_half t old) = Inr m \<and> cloned t old m1 m"
proof -
  note fill = slots.fill [OF root_slots [OF t(1)]]
  have s0: "only_page t m1 m1" using t(2) by (simp add: only_page_def)
  obtain m2 where m2: "for_each (\<lambda>i m. store64 m (t + of_nat i * 8) 0) [0..<512] m1 = Inr m2" "only_page t m1 m2"
      "\<forall>i. table_entry t m2 i = (if i \<in> set [0..<512] then 0 else table_entry t m1 i)"
    using fill [OF s0, of "[0..<512]" "\<lambda>_. 0"] by (auto simp del: upt_rec_numeral)
  have ld: "load64 m (old + of_nat i * 8) = Inr (entry m1 old i)" if "only_page t m1 m" "i < 512" for m and i :: nat
  proof -
    have "mapped m1 (slot old i) 8" using old(2) that(2) by (intro slot_mapped)
    then obtain v where v: "load64 m1 (slot old i) = Inr v" using qword.ld_mapped by blast
    have "m x = m1 x" if "in_region (slot old i) 8 x" for x
      using slot_in_page [OF \<open>i < 512\<close> that] pages_disjoint [OF old(1) t(1) old(3)] \<open>only_page t m1 m\<close>
      by (auto simp: only_page_def set_eq_iff)
    then have "load64 m (slot old i) = Inr v" using qword.ld_cong [of "slot old i" m m1] v by simp
    then show ?thesis using v by (simp add: entry_def slot_def)
  qed
  obtain m3 where m3: "for_each (\<lambda>i m. store64 m (t + of_nat i * 8) (entry m1 old i)) [256..<512] m2 = Inr m3" "only_page t m1 m3"
      "\<forall>i. table_entry t m3 i = (if i \<in> set [256..<512] then entry m1 old i else table_entry t m2 i)"
    using fill [OF m2(2), of "[256..<512]" "entry m1 old"] by (auto simp del: upt_rec_numeral)
  have "clone_upper_half t old m2 = for_each (\<lambda>i m. store64 m (t + of_nat i * 8) (entry m1 old i)) [256..<512] m2"
    unfolding clone_upper_half_def
  proof (rule for_each_cong_inv [where I = "only_page t m1", OF m2(2)])
    fix i :: nat and m assume "i \<in> set [256..<512]" and m: "only_page t m1 m"
    then have i: "i < 512" by (simp only: set_upt atLeastLessThan_iff)
    show "and_then (load64 m (old + of_nat i * 8)) (\<lambda>e. store64 m (t + of_nat i * 8) e) = store64 m (t + of_nat i * 8) (entry m1 old i)"
      using ld [OF m] i by simp
    show "only_page t m1 m'" if "store64 m (t + of_nat i * 8) (entry m1 old i) = Inr m'" for m'
      using store_entry [OF t(1) m, of i "entry m1 old i"] i that by auto
  qed
  moreover have "entry m3 t i = (if i < 256 then 0 else entry m1 old i)" if "i < 512" for i
    using m2(3) [rule_format, of i] m3(3) [rule_format, of i] that
    by (auto simp: table_entry_def not_less simp del: upt_rec_numeral)
  ultimately show ?thesis using m2(1) m3(1,2) by (simp add: zero_root_def cloned_def del: upt_rec_numeral)
qed

lemma cloned_tree:
  assumes ok: "pt_ok s n h old m1" and fresh: "t - h \<notin> free_frames s m1" "page_ok s n m1 t"
    and apart: "\<And>p. table_path p \<Longrightarrow> node m1 h old p \<noteq> Some t" and c: "cloned t old m1 m"
  shows "pt_ok s n h t m" and "free_frames s m = free_frames s m1"
    and "page_path (a # is) \<Longrightarrow> walk m h t (a # is) = (if a < 256 then None else walk m1 h old (a # is))"
    and "table_path q \<Longrightarrow> node m h t q = Some u \<Longrightarrow> u = t \<or> node m1 h old q = Some u"
proof -
  have t: "page_aligned t" "mapped m t 4096" "dom m = dom m1" "\<And>x. \<not> in_region t 4096 x \<Longrightarrow> m x = m1 x"
    using c fresh(2) by (auto simp: cloned_def only_page_def page_ok_def)
  have top: "entry m t i = (if i < 256 then 0 else entry m1 old i)" if "i < 512" for i using c that by (simp add: cloned_def)
  have ag: "agree h old m1 m"
    unfolding agree_def
  proof (intro allI impI)
    fix p u and i :: nat
    assume a: "table_path p \<and> i < 512 \<and> node m1 h old p = Some u"
    then have u: "page_aligned u" "u \<noteq> t" using pt_okD(3) [OF ok] apart by (auto simp: page_ok_def)
    show "entry m u i = entry m1 u i"
    proof (rule entry_cong)
      fix x assume "in_region (slot u i) 8 x"
      then have "in_region u 4096 x" using a slot_in_page by blast
      then show "m x = m1 x" using pages_disjoint [OF u(1) t(1) u(2)] by (intro t(4)) (auto simp: set_eq_iff)
    qed
  qed
  have np: "\<not> present 0" by (simp add: present_def)
  have old_node: "node m1 h old [] = Some old" by simp
  have nodes: "node m h t q = (if hd q < 256 then None else node m1 h old q)" if "q \<noteq> []" "table_path q" for q
    using that
  proof (induction q rule: rev_induct)
    case (snoc i q)
    then have q: "table_path q" "i < 512" by (simp_all add: table_path_snoc)
    show ?case
    proof (cases q rule: rev_cases)
      case Nil
      have "node m h t [i] = child m h (Some t) i" "node m1 h old [i] = child m1 h (Some old) i"
        using node_snoc [of m h t "[]" i] node_snoc [of m1 h old "[]" i] by simp_all
      then show ?thesis using Nil top [OF q(2)] np by (simp add: child_def Let_def)
    next
      case (snoc q' j)
      then have "q \<noteq> []" by simp
      note IH = snoc.IH [OF this q(1)]
      have "child m h (Some u) i = child m1 h (Some u) i" if "node m1 h old q = Some u" for u
        by (rule child_eq) (use ag q that in \<open>auto simp: agree_def\<close>)
      then show ?thesis using IH \<open>q \<noteq> []\<close> by (cases "node m1 h old q") auto
    qed
  qed simp
  have bm: "m x = m1 x" if "in_region (bitmap s) n x" for x
    using that fresh(2) by (intro t(4)) (auto simp: page_ok_def set_eq_iff)
  note inv = pmm_inv_frame [OF pt_okD(1) [OF ok] t(3) bm]
  show "free_frames s m = free_frames s m1" by (rule inv(2))
  have cases: "(p = [] \<and> u = t) \<or> (p \<noteq> [] \<and> node m1 h old p = Some u \<and> u \<noteq> t)" if "table_path p" "node m h t p = Some u" for p u
  proof (cases "p = []")
    case False
    then show ?thesis using nodes [OF False that(1)] that(2) apart [OF that(1)] by (auto split: if_splits)
  qed (use that in simp)
  show "table_path q \<Longrightarrow> node m h t q = Some u \<Longrightarrow> u = t \<or> node m1 h old q = Some u" using cases by blast
  have "tables_distinct h t m"
    unfolding tables_distinct_def using cases pt_okD(2) [OF ok] unfolding tables_distinct_def by metis
  moreover have "page_ok s n m u \<and> u - h \<notin> free_frames s m" if "table_path p" "node m h t p = Some u" for p u
    using cases [OF that] pt_okD(3,4) [OF ok that(1)] fresh inv(2) page_ok_dom [OF t(3)] by auto
  moreover have "page_ok s n m (f + h) \<and> f \<noteq> 0 \<and> f AND PTE_ADDRESS = f" if "f \<in> free_frames s m" for f
    using pt_okD(5-7) [OF ok, of f] that inv(2) page_ok_dom [OF t(3)] by simp
  ultimately show "pt_ok s n h t m" unfolding pt_ok_def using inv(1) by blast
  show "walk m h t (a # is) = (if a < 256 then None else walk m1 h old (a # is))" if pp: "page_path (a # is)"
  proof -
    have a: "a < 512" "is \<noteq> []" using pp by (auto simp: page_path_def)
    show ?thesis
    proof (cases "a < 256")
      case True
      then show ?thesis using top [OF a(1)] np by (simp add: walk_step)
    next
      case False
      then have e: "entry m t a = entry m1 old a" using top [OF a(1)] by simp
      then have ch: "child m h (Some t) a = child m1 h (Some old) a" by (simp add: child_def)
      have "walk m h u is = walk m1 h u is" if "child m1 h (Some old) a = Some u" for u
        using walk_agree [OF ag, of "[a]" "is" u] pp node_snoc [of m1 h old "[]" a] that by simp
      then have "(case child m1 h (Some old) a of None \<Rightarrow> None | Some u \<Rightarrow> walk m h u is) =
          (case child m1 h (Some old) a of None \<Rightarrow> None | Some u \<Rightarrow> walk m1 h u is)"
        by (simp split: option.split)
      then show ?thesis using False e a(2) by (simp add: walk_step ch)
    qed
  qed
qed

section \<open>Properties\<close>

lemma pml4_upper_half: "256 \<le> unat (pml4_idx va) \<longleftrightarrow> bit va 47"
proof -
  have t: "pml4_idx va = take_bit 9 (drop_bit 39 va)" by (simp add: pml4_idx_def take_bit_eq_mask mask_eq_exp_minus_1)
  have "bit va 47 \<longleftrightarrow> bit (pml4_idx va) 8" unfolding t by (simp add: bit_simps)
  also have "\<dots> \<longleftrightarrow> bit (unat (pml4_idx va)) 8" by (simp add: bit_unsigned_iff)
  also have "\<dots> \<longleftrightarrow> odd (unat (pml4_idx va) div 256)" by (simp add: bit_iff_odd)
  also have "\<dots> \<longleftrightarrow> 256 \<le> unat (pml4_idx va)"
  proof (cases "256 \<le> unat (pml4_idx va)")
    case True
    moreover have "unat (pml4_idx va) < 512" by (simp add: pml4_idx_def idx_bound)
    ultimately have "unat (pml4_idx va) div 256 = 1" by (intro div_nat_eqI) simp_all
    then show ?thesis using True by simp
  qed simp
  finally show ?thesis by simp
qed

text \<open>The switch, and what memory it writes.\<close>

lemma switch_tables_result:
  assumes "pt_ok s n h ((cr3 (mc_cpu w) AND PTE_ADDRESS) + h) (pmem (mc_paging w))" and "free_frames s (pmem (mc_paging w)) \<noteq> {}"
  shows "\<exists>f m. switch_tables s h w = Inr (w\<lparr>mc_paging := \<lparr>pmem = m, ptlb = (\<lambda>_. None)\<rparr>, mc_cpu := (mc_cpu w)\<lparr>cr3 := f\<rparr>\<rparr>) \<and>
    f \<in> free_frames s (pmem (mc_paging w)) \<and> f AND PTE_ADDRESS = f \<and>
    free_frames s m = free_frames s (pmem (mc_paging w)) - {f} \<and> pt_ok s n h (f + h) m \<and>
    dom m = dom (pmem (mc_paging w)) \<and>
    (\<forall>q u. table_path q \<longrightarrow> node m h (f + h) q = Some u \<longrightarrow>
      u = f + h \<or> node (pmem (mc_paging w)) h ((cr3 (mc_cpu w) AND PTE_ADDRESS) + h) q = Some u) \<and>
    (\<forall>x. \<not> in_region (bitmap s) n x \<longrightarrow> \<not> in_region (f + h) 4096 x \<longrightarrow> m x = pmem (mc_paging w) x) \<and>
    (\<forall>va. walk m h (f + h) (path va) =
      (if bit va 47 then walk (pmem (mc_paging w)) h ((cr3 (mc_cpu w) AND PTE_ADDRESS) + h) (path va) else None))"
proof -
  let ?m = "pmem (mc_paging w)" and ?old = "(cr3 (mc_cpu w) AND PTE_ADDRESS) + h"
  obtain f m1 where a: "AllocatePage s ?m = Inr (f, m1)" using AllocatePage_some [OF pt_okD(1) [OF assms(1)] assms(2)] by blast
  note fr = AllocatePage_frame [OF pt_okD(1) [OF assms(1)] a]
  note ok1 = take_frame_pt_ok [OF assms(1) a]
  have pk: "page_ok s n m1 (f + h)" using pt_okD(5) [OF assms(1) fr(2)] page_ok_dom [OF fr(4)] by simp
  have fresh: "(f + h) - h \<notin> free_frames s m1" using fr(3) by simp
  have same: "node m1 h ?old p = node ?m h ?old p" if "table_path p" for p
    by (rule node_agree [OF bitmap_change_entries [OF assms(1) fr(5)] that])
  have apart: "node m1 h ?old p \<noteq> Some (f + h)" if p: "table_path p" for p
  proof
    assume "node m1 h ?old p = Some (f + h)"
    then have "node ?m h ?old p = Some (f + h)" using same [OF p] by simp
    then show False using pt_okD(4) [OF assms(1) p] fr(2) by fastforce
  qed
  have "table_path []" by (simp add: table_path_def)
  then have old: "page_ok s n m1 ?old" "?old \<noteq> f + h" using pt_okD(3) [OF ok1(1)] apart [of "[]"] by auto
  obtain m where m: "and_then (zero_root (f + h) m1) (clone_upper_half (f + h) ?old) = Inr m" "cloned (f + h) ?old m1 m"
    using loops_clone [of "f + h" m1 ?old] pk old by (auto simp: page_ok_def)
  note tree = cloned_tree [OF ok1(1) fresh pk apart m(2)]
  have fa: "f AND PTE_ADDRESS = f" by (rule pt_okD(7) [OF assms(1) fr(2)])
  have "walk m h (f + h) (path va) = (if bit va 47 then walk ?m h ?old (path va) else None)" for va
  proof -
    have "path va = unat (pml4_idx va) # [unat (pdpt_idx va), unat (pd_idx va), unat (pt_idx va)]" by (simp add: path_def)
    then have "walk m h (f + h) (path va) = (if unat (pml4_idx va) < 256 then None else walk m1 h ?old (path va))"
      using tree(3) page_path_path [of va] by metis
    then show ?thesis using ok1(2) [OF page_path_path] pml4_upper_half [of va] by (auto simp: not_le)
  qed
  moreover obtain m2 where "zero_root (f + h) m1 = Inr m2" "clone_upper_half (f + h) ?old m2 = Inr m"
    using m(1) by (auto simp: and_then_eq_Inr)
  then have "switch_tables s h w = Inr (w\<lparr>mc_paging := \<lparr>pmem = m, ptlb = (\<lambda>_. None)\<rparr>, mc_cpu := (mc_cpu w)\<lparr>cr3 := f\<rparr>\<rparr>)"
    using a by (simp add: switch_tables_def)
  moreover have "m x = ?m x" if "\<not> in_region (bitmap s) n x" "\<not> in_region (f + h) 4096 x" for x
    using m(2) fr(5) [OF that(1)] that(2) by (simp add: cloned_def only_page_def)
  moreover have "free_frames s m = free_frames s ?m - {f}" using tree(2) fr(3) by simp
  moreover have "u = f + h \<or> node ?m h ?old q = Some u" if "table_path q" "node m h (f + h) q = Some u" for q u
    using tree(4) [of q u] that same [OF that(1)] by simp
  moreover have "dom m = dom ?m" using m(2) fr(4) by (simp add: cloned_def only_page_def)
  ultimately show ?thesis using tree(1) fr(2) fa by (intro exI [of _ f] exI [of _ m] conjI allI impI)
qed

section \<open>Property\<close>

text \<open>C8: with a free frame, the switch to the kernel's own root table succeeds; the new root is a fresh frame taken from the allocator, the
  page-table invariant holds for it, no stale translation is cached, every address of the higher half is
  translated as before, and no address of the lower half is translated any more.\<close>

theorem switch_tables_keeps_higher_half:
  assumes "pt_ok s n h ((cr3 (mc_cpu w) AND PTE_ADDRESS) + h) (pmem (mc_paging w))" and "free_frames s (pmem (mc_paging w)) \<noteq> {}"
  shows "\<exists>w' f. switch_tables s h w = Inr w' \<and> cr3 (mc_cpu w') = f \<and> f \<in> free_frames s (pmem (mc_paging w)) \<and>
    free_frames s (pmem (mc_paging w')) = free_frames s (pmem (mc_paging w)) - {f} \<and>
    pt_ok s n h ((f AND PTE_ADDRESS) + h) (pmem (mc_paging w')) \<and> ptlb (mc_paging w') = (\<lambda>_. None) \<and>
    (\<forall>va. walk (pmem (mc_paging w')) h (f + h) (path va) =
      (if bit va 47 then walk (pmem (mc_paging w)) h ((cr3 (mc_cpu w) AND PTE_ADDRESS) + h) (path va) else None))"
proof -
  from switch_tables_result [OF assms] obtain f m where r:
    "switch_tables s h w = Inr (w\<lparr>mc_paging := \<lparr>pmem = m, ptlb = (\<lambda>_. None)\<rparr>, mc_cpu := (mc_cpu w)\<lparr>cr3 := f\<rparr>\<rparr>)"
    "f \<in> free_frames s (pmem (mc_paging w))" "f AND PTE_ADDRESS = f" "free_frames s m = free_frames s (pmem (mc_paging w)) - {f}"
    "pt_ok s n h (f + h) m"
    "\<forall>va. walk m h (f + h) (path va) =
      (if bit va 47 then walk (pmem (mc_paging w)) h ((cr3 (mc_cpu w) AND PTE_ADDRESS) + h) (path va) else None)" by blast
  then show ?thesis by (intro exI conjI) (auto simp: r(3))
qed

text \<open>The demonstration machine with one higher-half mapping made by MapPage.\<close>

theorem switch_tables_keeps_higher_half_witness:
  "\<exists>pg w'. MapPage demo_vm 0x101000 0xFFFFFFFFC0000000 0x4000 PTE_WRITABLE 0x100000 demo_paging = Inr pg \<and>
    switch_tables demo_vm 0x100000 (demo_machine\<lparr>mc_paging := pg\<rparr>) = Inr w' \<and>
    walk (pmem (mc_paging w')) 0x100000 (cr3 (mc_cpu w') + 0x100000) (path 0xFFFFFFFFC0000000) = Some (0, 0x4003) \<and>
    walk (pmem (mc_paging w')) 0x100000 (cr3 (mc_cpu w') + 0x100000) (path 0x400000) = None"
proof -
  obtain m' where m': "MapPage demo_vm 0x101000 0xFFFFFFFFC0000000 0x4000 PTE_WRITABLE 0x100000 demo_paging =
      Inr (invlpg 0xFFFFFFFFC0000000 (demo_paging\<lparr>pmem := m'\<rparr>))" "pt_ok demo_vm 1 0x100000 0x101000 m'"
      "walk m' 0x100000 0x101000 (path 0xFFFFFFFFC0000000) = Some (0, pte_for 0x4000 PTE_WRITABLE)"
      "card (free_frames demo_vm demo_vm_mem) \<le> card (free_frames demo_vm m') + 3"
    using MapPage_memory [of demo_vm 1 "0x100000" "0x101000" demo_paging "0xFFFFFFFFC0000000" "0x4000" PTE_WRITABLE,
        unfolded demo_pmem, OF demo_pt_ok demo_three_frames demo_small] by blast
  let ?pg = "invlpg 0xFFFFFFFFC0000000 (demo_paging\<lparr>pmem := m'\<rparr>)"
  let ?w = "demo_machine\<lparr>mc_paging := ?pg\<rparr>"
  have pm: "pmem (mc_paging ?w) = m'" by (simp add: invlpg_def)
  have root: "(cr3 (mc_cpu ?w) AND PTE_ADDRESS) + 0x100000 = 0x101000"
    by (simp add: demo_machine_def cpu0_def PTE_ADDRESS_def)
  have "1 \<le> card (free_frames demo_vm m')" using m'(4) demo_free_frames by simp
  then have free: "free_frames demo_vm m' \<noteq> {}" by auto
  have b: "bit (0xFFFFFFFFC0000000 :: u64) 47" "\<not> bit (0x400000 :: u64) 47" by (simp_all add: bit_iff_odd)
  have e: "pte_for 0x4000 PTE_WRITABLE = 0x4003" by (simp add: pte_for_def PTE_ADDRESS_def PTE_WRITABLE_def PTE_PRESENT_def)
  obtain w' where "switch_tables demo_vm 0x100000 ?w = Inr w'"
    "\<forall>va. walk (pmem (mc_paging w')) 0x100000 (cr3 (mc_cpu w') + 0x100000) (path va) =
      (if bit va 47 then walk m' 0x100000 0x101000 (path va) else None)"
    using switch_tables_keeps_higher_half [of demo_vm 1 "0x100000" ?w, unfolded root pm, OF m'(2) free] by blast
  then show ?thesis using m'(1,3) b e by metis
qed

end
