(* ===== verification/Early_Init.thy ===== *)
theory Early_Init
  imports Boot
begin

text \<open>
  EarlyInit from end to end: what the boot protocol must hand over (\<open>limine_handoff\<close>), what the page allocator
  makes of it, and the state of page tables, descriptor tables and interrupt controllers when
  \<^verbatim>\<open>Arch::EarlyInit\<close> (\<^verbatim>\<open>arch/x86_64/init.cpp\<close>) returns. The parts come from the component theories; this one
  shows that each leaves what the next one needs.
\<close>

section \<open>What Limine hands over\<close>

definition allocatable_frames :: "memmap_entry list \<Rightarrow> pmm \<Rightarrow> u64 set" where
  "allocatable_frames es s = {j * 4096 | j. j < total_pages s \<and> allocatable es s j}"

text \<open>
  A well-formed map with room for the bitmap, a direct map at \<open>h\<close> that shows the bitmap and every frame that can be
  allocated, and page tables rooted at \<open>old\<close> that are a tree of pages outside all of them. Two clauses are not Limine's but
  what the rounded-down \<^verbatim>\<open>bitmap_size\<close> needs when the page count is no multiple of 8 (both hold when it is): no bit
  that happens to be clear in memory frees one of the last pages unless it is a usable page (\<open>tail_ok\<close>), and the last bitmap byte is on a page
  that \<^verbatim>\<open>Init\<close> locks (\<open>bitmap_inside\<close>).
\<close>

definition limine_handoff :: "memmap_entry list \<Rightarrow> u64 \<Rightarrow> u64 \<Rightarrow> mem \<Rightarrow> bool" where
  "limine_handoff es h old m \<longleftrightarrow>
     (let s = pmm_globals es h
      in memmap_ok es \<and> bitmap_region es (bitmap_size s) \<noteq> 0 \<and> 256 \<le> unat (total_pages s) \<and>
         unat (total_pages s) \<le> 2 ^ 40 \<and> tail_ok es s m \<and> bitmap_inside s \<and>
         mapped m (bitmap s) (bitmap_bytes s) \<and> page_aligned h \<and>
         (\<forall>f \<in> allocatable_frames es s. mapped m (f + h) 4096) \<and> tables_distinct h old m \<and>
         (\<forall>p t. table_path p \<and> node m h old p = Some t \<longrightarrow>
            page_ok s (bitmap_bytes s) m t \<and> t - h \<notin> allocatable_frames es s))"

text \<open>The bitmap and the frames that can be allocated do not overlap.\<close>

lemma allocatable_apart:
  assumes ok: "memmap_ok es" and s: "s = pmm_globals es h" and found: "bitmap_region es (bitmap_size s) \<noteq> 0"
    and T: "unat (total_pages s) \<le> 2 ^ 40" "bitmap_inside s"
    and j: "j < total_pages s" "allocatable es s j"
  shows "region (j * 4096 + h) 4096 \<inter> region (bitmap s) (bitmap_bytes s) = {}"
proof -
  let ?phys = "bitmap_region es (bitmap_size s)" and ?n = "bitmap_bytes s"
  obtain e where e: "e \<in> set es" "usable e" "bitmap_size s \<le> length_of e" "?phys = base e"
    using bitmap_region_found [OF found] by blast
  have w: "unat ?phys + unat (length_of e) + 4095 < 2 ^ 64" "4096 dvd unat ?phys"
    using e ok by (simp_all add: memmap_ok_def list_all_iff)
  have bs: "bitmap s = ?phys + h" by (simp add: s)
  have n: "?n \<le> 4096 * ((unat (bitmap_size s) + 4095) div 4096)" using T(2) by (simp add: bitmap_inside_def)
  have "4096 * ((unat (bitmap_size s) + 4095) div 4096) \<le> unat (length_of e)"
  proof -
    obtain l where "unat (length_of e) = 4096 * l" using e(1,2) ok by (auto simp: memmap_ok_def list_all_iff elim!: dvdE)
    then show ?thesis using e(3) by (simp add: word_le_nat_alt)
  qed
  with n have len: "?n \<le> unat (length_of e)" by linarith
  have uj: "unat j < 2 ^ 40" using j(1) T(1) unfolding word_less_nat_alt by linarith
  have small: "?n < 2 ^ 64" by (rule le_less_trans [OF len]) simp
  show ?thesis
  proof (rule ccontr)
    assume "region (j * 4096 + h) 4096 \<inter> region (bitmap s) ?n \<noteq> {}"
    then obtain x where x: "in_region (j * 4096 + h) 4096 x" "in_region (bitmap s) ?n x" by auto
    obtain k where k: "k < 4096" "x = j * 4096 + h + of_nat k" using x(1) in_region_offset [of 4096 "j * 4096 + h" x] by auto
    obtain i where i: "i < ?n" "x = ?phys + h + of_nat i"
      using x(2) in_region_offset [of ?n "bitmap s" x] small bs by auto
    have "j * 4096 + of_nat k + h = ?phys + of_nat i + h" using k(2) i(2) by (simp add: algebra_simps)
    then have eq: "j * 4096 + of_nat k = ?phys + of_nat i" by simp
    have "unat (j * 4096) = unat j * 4096" using uj by (simp add: unat_word_ariths)
    then have "unat (j * 4096 + of_nat k) = unat j * 4096 + k" using uj k(1) by (subst unat_add_of_nat64) simp_all
    moreover have "unat (?phys + of_nat i) = unat ?phys + i" using w(1) len i(1) by (intro unat_add_of_nat64) linarith
    ultimately have u: "unat j * 4096 + k = unat ?phys + i" using eq by simp
    obtain q where q: "unat ?phys = 4096 * q" using w(2) by blast
    have "q \<le> unat j \<and> unat j < q + (unat (bitmap_size s) + 4095) div 4096" using u q k(1) i(1) n by linarith
    then have "bitmap_page s ?phys j" by (simp add: bitmap_page_def pages_from_def q)
    then show False using j(2) by (simp add: allocatable_def)
  qed
qed

text \<open>The allocator over the handed-over memory: Limine's tables satisfy the invariant the memory manager needs.\<close>

lemma pmm_Init_handoff:
  assumes hand: "limine_handoff es h old m"
  defines "s \<equiv> pmm_globals es h"
  defines "n \<equiv> bitmap_bytes s"
  shows "\<exists>m'. pmm_Init es h m = Inr (s, m') \<and> pt_ok s n h old m' \<and> free_frames s m' = allocatable_frames es s \<and>
    dom m' = dom m \<and> (\<forall>x. \<not> in_region (bitmap s) n x \<longrightarrow> m' x = m x) \<and>
    (\<forall>p. page_path p \<longrightarrow> walk m' h old p = walk m h old p) \<and>
    (\<forall>p. table_path p \<longrightarrow> node m' h old p = node m h old p)"
proof -
  have s: "s = pmm_globals es h" by (simp add: s_def)
  note H = hand [unfolded limine_handoff_def Let_def, folded s, folded n_def]
  have base: "memmap_ok es" "bitmap_region es (bitmap_size s) \<noteq> 0" "256 \<le> unat (total_pages s)"
      "mapped m (bitmap s) (bitmap_bytes s)" and T: "unat (total_pages s) \<le> 2 ^ 40" "bitmap_inside s"
      and tail: "tail_ok es s m"
    using H unfolding n_def by blast+
  obtain m' where m': "pmm_Init es h m = Inr (s, m')" "bitmap_ok s n m m'"
    using pmm_Init_chain [OF base s] unfolding n_def by blast
  note ok = pmm_Init_ok [OF base s m'(1), folded n_def]
  have fr: "free_frames s m' = allocatable_frames es s" using ok(3) tail by (simp add: allocatable_frames_def)
  have d: "dom m' = dom m" and keep: "\<And>x. \<not> in_region (bitmap s) n x \<Longrightarrow> m' x = m x"
    using m'(2) by (auto simp: bitmap_ok_def)
  have nodes: "page_ok s n m t" "t - h \<notin> allocatable_frames es s" if "table_path p" "node m h old p = Some t" for p t
    using H that by blast+
  have ag: "agree h old m m'" by (rule bitmap_change_agree [OF nodes(1) keep])
  note nd = node_agree [OF ag]
  have dist: "tables_distinct h old m" using H by blast
  have "tables_distinct h old m'"
    unfolding tables_distinct_def
  proof (intro allI impI)
    fix p q t assume "table_path p \<and> table_path q \<and> node m' h old p = Some t \<and> node m' h old q = Some t"
    then show "p = q" using dist nd [of p] nd [of q] unfolding tables_distinct_def by metis
  qed
  moreover have "direct_map_ok s n h m'"
    unfolding direct_map_ok_def
  proof (intro conjI allI impI)
    show "page_aligned h" "unat (total_pages s) \<le> 2 ^ 40" using H T by blast+
    have used: "page_used s m' i = (\<not> allocatable es s i)" if "i < total_pages s" for i
      using pmm_Init_chain [OF base s] m'(1) that tail_ok_free [OF tail that] by auto
    show "page_used s m' 0"
      using used [of 0] base(3) by (simp add: allocatable_def word_less_nat_alt)
    fix i assume i: "i < total_pages s" "\<not> page_used s m' i"
    then have a: "allocatable es s i" using used by blast
    then have "i * 4096 \<in> allocatable_frames es s" using i(1) by (auto simp: allocatable_frames_def)
    then show "mapped m' (i * 4096 + h) 4096" using H mapped_dom [OF d] by blast
    show "region (i * 4096 + h) 4096 \<inter> region (bitmap s) n = {}"
      unfolding n_def by (rule allocatable_apart [OF base(1) s base(2) T i(1) a])
  qed
  ultimately have "pt_ok s n h old m'"
    unfolding pt_ok_def using pmm_ok_inv [OF ok(1)] direct_map_frame nodes nd page_ok_dom [OF d] fr by metis
  moreover have "walk m' h old p = walk m h old p" if "page_path p" for p
    using walk_agree [OF ag, of "[]" p old] that by simp
  ultimately show ?thesis using m'(1) fr keep d nd by blast
qed

section \<open>EarlyInit\<close>

text \<open>What EarlyInit needs of the kernel's own state: the statically sized tables, and a processor with an x2APIC.\<close>

definition boot_ready :: "boot \<Rightarrow> bool" where
  "boot_ready b \<longleftrightarrow> CoreContextes b \<noteq> [] \<and> length (GDTTable (bt_gdt b)) = 3 \<and> length (IDTTable (bt_idt b)) = 256 \<and>
     bit (cpuid1_ecx (mc_cpu (bt_machine b))) 21"

text \<open>The root table in use, at its direct-map address.\<close>

definition current_root :: "u64 \<Rightarrow> boot \<Rightarrow> u64" where
  "current_root h b = (cr3 (mc_cpu (bt_machine b)) AND PTE_ADDRESS) + h"

text \<open>The ACPI tables \<open>am\<close> are part of memory, outside the bitmap and every frame that can be allocated.\<close>

definition acpi_kept :: "memmap_entry list \<Rightarrow> u64 \<Rightarrow> mem \<Rightarrow> mem \<Rightarrow> bool" where
  "acpi_kept es h am m \<longleftrightarrow> am \<subseteq>\<^sub>m m \<and>
     (let s = pmm_globals es h
      in \<forall>x \<in> dom am. \<not> in_region (bitmap s) (bitmap_bytes s) x \<and>
           (\<forall>f \<in> allocatable_frames es s. \<not> in_region (f + h) 4096 x))"

text \<open>Memory \<open>im\<close> that EarlyInit does not touch: outside the page tables as well.\<close>

definition boot_kept :: "memmap_entry list \<Rightarrow> u64 \<Rightarrow> u64 \<Rightarrow> mem \<Rightarrow> mem \<Rightarrow> bool" where
  "boot_kept es h old im m \<longleftrightarrow> acpi_kept es h im m \<and>
     (\<forall>p t x. table_path p \<and> node m h old p = Some t \<and> x \<in> dom im \<longrightarrow> \<not> in_region t 4096 x)"

lemma finite_allocatable: "finite (allocatable_frames es s)"
  by (rule finite_subset [of _ "(\<lambda>i. i * 4096) ` UNIV"]) (auto simp: allocatable_frames_def)

text \<open>
  The page tables after the allocator, the switch and the mapping of the I/O APIC.
\<close>

lemma early_paging:
  assumes hand: "limine_handoff es h ((cr3 c AND PTE_ADDRESS) + h) m" and s: "s = pmm_globals es h"
    and many: "4 \<le> card (allocatable_frames es s)" and keep: "acpi_kept es h am m"
    and large: "no_large_page h ((cr3 c AND PTE_ADDRESS) + h) m A" and high: "bit A 47"
    and w: "mc_cpu w = c" "pmem (mc_paging w) = m"
  shows "\<exists>m1 f m2 m3. pmm_Init es h m = Inr (s, m1) \<and>
    switch_tables s h (w\<lparr>mc_paging := (mc_paging w)\<lparr>pmem := m1\<rparr>\<rparr>) =
      Inr (w\<lparr>mc_paging := \<lparr>pmem = m2, ptlb = (\<lambda>_. None)\<rparr>, mc_cpu := c\<lparr>cr3 := f\<rparr>\<rparr>) \<and>
    MapPage s (f + h) A pa fl h \<lparr>pmem = m2, ptlb = (\<lambda>_. None)\<rparr> = Inr \<lparr>pmem = m3, ptlb = (\<lambda>_. None)\<rparr> \<and>
    f \<in> allocatable_frames es s \<and> f AND PTE_ADDRESS = f \<and> am \<subseteq>\<^sub>m m2 \<and> dom m3 = dom m \<and>
    (\<forall>im. boot_kept es h ((cr3 c AND PTE_ADDRESS) + h) im m \<longrightarrow> im \<subseteq>\<^sub>m m3) \<and>
    pt_ok s (bitmap_bytes s) h (f + h) m3 \<and> walk m3 h (f + h) (path A) = Some (0, pte_for pa fl) \<and>
    (\<forall>va. path va \<noteq> path A \<longrightarrow> walk m3 h (f + h) (path va) =
      (if bit va 47 then walk m h ((cr3 c AND PTE_ADDRESS) + h) (path va) else None))"
proof -
  let ?old = "(cr3 c AND PTE_ADDRESS) + h" and ?n = "bitmap_bytes s"
  obtain m1 where m1: "pmm_Init es h m = Inr (s, m1)" "pt_ok s ?n h ?old m1" "free_frames s m1 = allocatable_frames es s" "dom m1 = dom m"
      "\<forall>x. \<not> in_region (bitmap s) ?n x \<longrightarrow> m1 x = m x" "\<forall>p. page_path p \<longrightarrow> walk m1 h ?old p = walk m h ?old p"
      and nodes1: "\<forall>p. table_path p \<longrightarrow> node m1 h ?old p = node m h ?old p"
    using pmm_Init_handoff [OF hand] unfolding s by blast
  let ?w = "w\<lparr>mc_paging := (mc_paging w)\<lparr>pmem := m1\<rparr>\<rparr>"
  have w1: "pmem (mc_paging ?w) = m1" "mc_cpu ?w = c" using w by simp_all
  have free1: "free_frames s m1 \<noteq> {}" using m1(3) many by auto
  obtain f m2 where sw: "switch_tables s h ?w = Inr (?w\<lparr>mc_paging := \<lparr>pmem = m2, ptlb = (\<lambda>_. None)\<rparr>, mc_cpu := c\<lparr>cr3 := f\<rparr>\<rparr>)"
      "f \<in> free_frames s m1" "f AND PTE_ADDRESS = f" "free_frames s m2 = free_frames s m1 - {f}" "pt_ok s ?n h (f + h) m2"
      "dom m2 = dom m1"
      "\<forall>x. \<not> in_region (bitmap s) ?n x \<longrightarrow> \<not> in_region (f + h) 4096 x \<longrightarrow> m2 x = m1 x"
      "\<forall>va. walk m2 h (f + h) (path va) = (if bit va 47 then walk m1 h ?old (path va) else None)"
      and nodes2: "\<forall>q u. table_path q \<longrightarrow> node m2 h (f + h) q = Some u \<longrightarrow> u = f + h \<or> node m1 h ?old q = Some u"
    using switch_tables_result [of s ?n h ?w, unfolded w1, OF m1(2) free1] by blast
  have f: "f \<in> allocatable_frames es s" using sw(2) m1(3) by simp
  have kept: "im x = m x" "\<not> in_region (bitmap s) ?n x" "g \<in> allocatable_frames es s \<Longrightarrow> \<not> in_region (g + h) 4096 x"
    if "acpi_kept es h im m" "x \<in> dom im" for im x g
    using that unfolding acpi_kept_def s [symmetric] Let_def map_le_def by blast+
  have kept2: "im x = m2 x" if "acpi_kept es h im m" "x \<in> dom im" for im x
    using kept [OF that] f sw(7) m1(5) by simp
  then have am: "am \<subseteq>\<^sub>m m2" using keep by (simp add: map_le_def)
  have small: "no_large_page h (f + h) m2 A"
    using large sw(8) m1(6) page_path_path high by (simp add: no_large_page_def)
  have three: "3 \<le> card (free_frames s m2)"
    using sw(4) f m1(3) many finite_allocatable [of es s] by (simp add: card_Diff_singleton)
  obtain m3 where m3: "MapPage s (f + h) A pa fl h \<lparr>pmem = m2, ptlb = (\<lambda>_. None)\<rparr> = Inr (invlpg A (\<lparr>pmem = m3, ptlb = (\<lambda>_. None)\<rparr>))"
      "pt_ok s ?n h (f + h) m3" "touches_only s ?n h (f + h) m2 m3" "walk m3 h (f + h) (path A) = Some (0, pte_for pa fl)"
      "\<forall>p. page_path p \<longrightarrow> p \<noteq> path A \<longrightarrow> walk m3 h (f + h) p = walk m2 h (f + h) p"
      and nodes3: "\<forall>q t. table_path q \<longrightarrow> node m3 h (f + h) q = Some t \<longrightarrow> node m2 h (f + h) q = Some t \<or> t - h \<in> free_frames s m2"
    using MapPage_memory [of s ?n h "f + h" "\<lparr>pmem = m2, ptlb = (\<lambda>_. None)\<rparr>" A pa fl] sw(5) three small by auto
  have "invlpg A \<lparr>pmem = m3, ptlb = (\<lambda>_. None)\<rparr> = \<lparr>pmem = m3, ptlb = (\<lambda>_. None)\<rparr>" by (simp add: invlpg_def fun_upd_idem)
  then have mp: "MapPage s (f + h) A pa fl h \<lparr>pmem = m2, ptlb = (\<lambda>_. None)\<rparr> = Inr \<lparr>pmem = m3, ptlb = (\<lambda>_. None)\<rparr>" using m3(1) by simp
  have d: "dom m3 = dom m" using m3(3) sw(6) m1(4) by (simp add: touches_only_def)
  have "im x = m3 x" if im: "boot_kept es h ?old im m" "x \<in> dom im" for im x
  proof (rule ccontr)
    assume "im x \<noteq> m3 x"
    have a: "acpi_kept es h im m" using im(1) by (simp add: boot_kept_def)
    then have "m3 x \<noteq> m2 x" using kept2 [OF a im(2)] \<open>im x \<noteq> m3 x\<close> by simp
    then obtain q t where t: "table_path q" "node m3 h (f + h) q = Some t" "in_region t 4096 x"
      using m3(3) kept(2) [OF a im(2)] unfolding touches_only_def by blast
    have "t = (t - h) + h" by simp
    then have "t - h \<notin> free_frames s m2" using kept(3) [OF a im(2), of "t - h"] t(3) sw(4) m1(3) by auto
    then have "t = f + h \<or> node m h ?old q = Some t" using nodes3 nodes2 nodes1 t(1,2) by auto
    then show False using kept(3) [OF a im(2) f] t(1,3) im unfolding boot_kept_def by blast
  qed
  then have im: "\<forall>im. boot_kept es h ?old im m \<longrightarrow> im \<subseteq>\<^sub>m m3" by (auto simp: map_le_def)
  have others: "walk m3 h (f + h) (path va) = (if bit va 47 then walk m h ?old (path va) else None)"
    if "path va \<noteq> path A" for va
    using that m3(5) page_path_path sw(8) m1(6) by simp
  have sw': "switch_tables s h ?w = Inr (w\<lparr>mc_paging := \<lparr>pmem = m2, ptlb = (\<lambda>_. None)\<rparr>, mc_cpu := c\<lparr>cr3 := f\<rparr>\<rparr>)"
    using sw(1) by simp
  show ?thesis
    using m1(1) sw' mp f sw(3) am d im m3(2,4) others by blast
qed

text \<open>The processor once its descriptor tables are loaded, and once EarlyInit is done with root table \<open>f\<close>.\<close>

definition tables_loaded :: "boot \<Rightarrow> gdt_state \<Rightarrow> idt_state \<Rightarrow> cpu" where
  "tables_loaded b g d =
     snd (LoadIDT d (LoadGDT g (LoadCoreContext (context_address (contexts_at b) 0) (mc_cpu (bt_machine b)))))"

definition early_cpu :: "cpu \<Rightarrow> u64 \<Rightarrow> u64 \<Rightarrow> cpu" where
  "early_cpu c f A =
     (let ident = GetLocalApicId c;
          c = c\<lparr>cr3 := f, msr := (msr c)(0x1B := msr c 0x1B OR 0xC00, 0x808 := 0, 0x80F := 0x1FF),
                msr_log := msr_log c @ [(0x1B, msr c 0x1B OR 0xC00), (0x808, 0), (0x80F, 0x1FF)]\<rparr>
      in SetRedirectEntry A 1 33 ident (SetRedirectEntry A 2 32 ident c))"

lemma tables_loaded_simps [simp]:
  "cr3 (tables_loaded b g d) = cr3 (mc_cpu (bt_machine b))"
  "cpuid1_ecx (tables_loaded b g d) = cpuid1_ecx (mc_cpu (bt_machine b))"
  "GetLocalApicId (tables_loaded b g d) = GetLocalApicId (mc_cpu (bt_machine b))"
  "mmio_log (tables_loaded b g d) = mmio_log (mc_cpu (bt_machine b))"
  "interrupts_on (tables_loaded b g d) = interrupts_on (mc_cpu (bt_machine b))"
  by (simp_all add: tables_loaded_def LoadIDT_def LoadGDT_def LoadCoreContext_def GetLocalApicId_def Let_def)

lemma EarlyInit_result:
  assumes ready: "boot_ready b" and h: "h \<noteq> 0" and s: "s = pmm_globals es h"
    and hand: "limine_handoff es h (current_root h b) (pmem (mc_paging (bt_machine b)))"
    and many: "4 \<le> card (allocatable_frames es s)"
    and acpi: "ioapic_found am rsdp h sig madt e phys" "acpi_kept es h am (pmem (mc_paging (bt_machine b)))"
    and A: "A = ucast phys + h" "bit A 47" "no_large_page h (current_root h b) (pmem (mc_paging (bt_machine b))) A"
    and k: "madt_overrides am madt k"
  shows "\<exists>g d f m. EarlyInit stubs h es (Some rsdp) sig b = Inr (b\<lparr>
      bt_machine := \<lparr>mc_cpu = early_cpu (tables_loaded b g d) f A,
        mc_ports = outb 0xA1 0xFF (outb 0x21 0xFF (mc_ports (bt_machine b))), mc_paging = \<lparr>pmem = m, ptlb = (\<lambda>_. None)\<rparr>,
        mc_madt = \<lparr>IOAPICData = e, madt_log = madt_log (mc_madt (bt_machine b)) @ ioapic_messages am madt e k\<rparr>, IOAPICAddress = A\<rparr>,
      bt_pmm := s, bt_gdt := g, bt_idt := fst (LoadIDT d cpu0), CoreContextes := (CoreContextes b)[0 := \<lparr>CoreID = 0, LapicID = 0\<rparr>]\<rparr>) \<and>
    InitIDT stubs (bt_idt b) = Inr d \<and> GDTTable g = map gdt_entry [(0, 0), (0x9A, 0x20), (0x92, 0)] \<and>
    f \<in> allocatable_frames es s \<and> f AND PTE_ADDRESS = f \<and> dom m = dom (pmem (mc_paging (bt_machine b))) \<and>
    (\<forall>im. boot_kept es h (current_root h b) im (pmem (mc_paging (bt_machine b))) \<longrightarrow> im \<subseteq>\<^sub>m m) \<and>
    pt_ok s (bitmap_bytes s) h (f + h) m \<and>
    walk m h (f + h) (path A) = Some (0, pte_for (ucast phys) IOAPIC_page_flags) \<and>
    (\<forall>va. path va \<noteq> path A \<longrightarrow> walk m h (f + h) (path va) =
      (if bit va 47 then walk (pmem (mc_paging (bt_machine b))) h (current_root h b) (path va) else None))"
proof -
  let ?w = "bt_machine b"
  let ?c = "LoadCoreContext (context_address (contexts_at b) 0) (mc_cpu ?w)"
  obtain g where g: "InitGDT (bt_gdt b) ?c = Inr (g, LoadGDT g ?c)" "GDTTable g = map gdt_entry [(0, 0), (0x9A, 0x20), (0x92, 0)]"
    using InitGDT_result [of "bt_gdt b" ?c] ready by (auto simp: boot_ready_def)
  obtain d where d: "InitIDT stubs (bt_idt b) = Inr d"
    using InitIDT_result [of "bt_idt b" stubs] ready by (auto simp: boot_ready_def)
  let ?t = "tables_loaded b g d"
  have root: "(cr3 ?t AND PTE_ADDRESS) + h = current_root h b" by (simp add: current_root_def)
  obtain m1 f m2 m3 where P: "pmm_Init es h (pmem (mc_paging ?w)) = Inr (s, m1)"
      "switch_tables s h (?w\<lparr>mc_cpu := ?t, mc_paging := (mc_paging ?w)\<lparr>pmem := m1\<rparr>\<rparr>) =
        Inr (?w\<lparr>mc_paging := \<lparr>pmem = m2, ptlb = (\<lambda>_. None)\<rparr>, mc_cpu := ?t\<lparr>cr3 := f\<rparr>\<rparr>)"
      "MapPage s (f + h) A (ucast phys) IOAPIC_page_flags h \<lparr>pmem = m2, ptlb = (\<lambda>_. None)\<rparr> = Inr \<lparr>pmem = m3, ptlb = (\<lambda>_. None)\<rparr>"
      and res: "f \<in> allocatable_frames es s" "f AND PTE_ADDRESS = f" "am \<subseteq>\<^sub>m m2" "dom m3 = dom (pmem (mc_paging ?w))"
      "\<forall>im. boot_kept es h (current_root h b) im (pmem (mc_paging ?w)) \<longrightarrow> im \<subseteq>\<^sub>m m3"
      "pt_ok s (bitmap_bytes s) h (f + h) m3" "walk m3 h (f + h) (path A) = Some (0, pte_for (ucast phys) IOAPIC_page_flags)"
      "\<forall>va. path va \<noteq> path A \<longrightarrow> walk m3 h (f + h) (path va) =
        (if bit va 47 then walk (pmem (mc_paging ?w)) h (current_root h b) (path va) else None)"
    using early_paging [of es h ?t "pmem (mc_paging ?w)" s am A "?w\<lparr>mc_cpu := ?t\<rparr>" "ucast phys" IOAPIC_page_flags,
        unfolded root, OF hand s many acpi(2) A(3,2)] by auto
  let ?c4 = "?t\<lparr>cr3 := f, msr := (msr ?t)(0x1B := msr ?t 0x1B OR 0xC00, 0x808 := 0, 0x80F := 0x1FF),
      msr_log := msr_log ?t @ [(0x1B, msr ?t 0x1B OR 0xC00), (0x808, 0), (0x80F, 0x1FF)]\<rparr>"
  have lapic: "InitLAPIC (?t\<lparr>cr3 := f\<rparr>) = Inr ?c4"
    using ready by (simp add: InitLAPIC_enables_x2APIC boot_ready_def)
  let ?w4 = "?w\<lparr>mc_paging := \<lparr>pmem = m2, ptlb = (\<lambda>_. None)\<rparr>, mc_cpu := ?c4\<rparr>"
  have id4: "GetLocalApicId ?c4 = GetLocalApicId ?t" by (simp add: GetLocalApicId_def)
  note am = ioapic_found_le [OF res(3) acpi(1)]
  have l: "InitIOAPIC s (Some rsdp) sig h ?w4 = Inr \<lparr>
      mc_cpu = SetRedirectEntry A 1 33 (GetLocalApicId ?c4) (SetRedirectEntry A 2 32 (GetLocalApicId ?c4) ?c4),
      mc_ports = outb 0xA1 0xFF (outb 0x21 0xFF (mc_ports ?w)), mc_paging = \<lparr>pmem = m3, ptlb = (\<lambda>_. None)\<rparr>,
      mc_madt = \<lparr>IOAPICData = e, madt_log = madt_log (mc_madt ?w) @ ioapic_messages am madt e k\<rparr>, IOAPICAddress = A\<rparr>"
    using InitIOAPIC_exact [of ?w4 rsdp h sig madt e phys s "\<lparr>pmem = m3, ptlb = (\<lambda>_. None)\<rparr>" k]
      am madt_overrides_le [OF res(3) k] ioapic_messages_le [OF res(3) acpi(1)] P(3) res(2) A(1) by auto
  have cs: "set_context 0 0 (CoreContextes b) = Inr ((CoreContextes b)[0 := \<lparr>CoreID = 0, LapicID = 0\<rparr>])"
    using ready by (simp add: set_context_def boot_ready_def)
  have ld: "LoadIDT d (LoadGDT g ?c) = (fst (LoadIDT d cpu0), ?t)"
    by (simp add: tables_loaded_def LoadIDT_def Let_def)
  have "EarlyInit stubs h es (Some rsdp) sig b = Inr (b\<lparr>
      bt_machine := \<lparr>mc_cpu = early_cpu ?t f A,
        mc_ports = outb 0xA1 0xFF (outb 0x21 0xFF (mc_ports ?w)), mc_paging = \<lparr>pmem = m3, ptlb = (\<lambda>_. None)\<rparr>,
        mc_madt = \<lparr>IOAPICData = e, madt_log = madt_log (mc_madt ?w) @ ioapic_messages am madt e k\<rparr>, IOAPICAddress = A\<rparr>,
      bt_pmm := s, bt_gdt := g, bt_idt := fst (LoadIDT d cpu0), CoreContextes := (CoreContextes b)[0 := \<lparr>CoreID = 0, LapicID = 0\<rparr>]\<rparr>)"
    using l id4 by (simp add: EarlyInit_def Let_def cs g(1) d ld h P(1,2) lapic early_cpu_def)
  then show ?thesis using d g(2) res by blast
qed

lemma early_cpu_simps [simp]:
  "cr3 (early_cpu c f A) = f" "idtr (early_cpu c f A) = idtr c" "gdtr (early_cpu c f A) = gdtr c"
  "msr (early_cpu c f A) = (msr c)(0x1B := msr c 0x1B OR 0xC00, 0x808 := 0, 0x80F := 0x1FF)"
  "interrupts_on (early_cpu c f A) = interrupts_on c"
  "mmio_log (early_cpu c f A) = mmio_log c @ redirection A 2 32 (GetLocalApicId c) @ redirection A 1 33 (GetLocalApicId c)"
  using SetRedirectEntry_log [of 2 A 32] SetRedirectEntry_log [of 1 A 33] by (simp_all add: early_cpu_def Let_def)

section \<open>Property\<close>

text \<open>C2: handed a well-formed memory map, page tables outside the frames it may use, four allocatable frames, a higher-half
  I/O APIC address under no large page and readable ACPI tables, EarlyInit returns on a processor with an x2APIC. It then runs on a root
  table of its own, taken from the allocator; the page-table invariant holds; the lower half is unmapped, the higher half is translated as
  before but for the new page of the I/O APIC; vectors below 255 lead to their stubs; pins 2 and 1 go to vectors 32 and 33;
  the local APIC is on; interrupts are still as they were.\<close>

theorem EarlyInit_establishes:
  assumes "boot_ready b" and "h \<noteq> 0" and "s = pmm_globals es h"
    and "limine_handoff es h (current_root h b) (pmem (mc_paging (bt_machine b)))"
    and "4 \<le> card (allocatable_frames es s)"
    and "ioapic_found am rsdp h sig madt e phys" and "acpi_kept es h am (pmem (mc_paging (bt_machine b)))"
    and "A = ucast phys + h" and "bit A 47" and "no_large_page h (current_root h b) (pmem (mc_paging (bt_machine b))) A"
  shows "\<exists>b'. EarlyInit stubs h es (Some rsdp) sig b = Inr b' \<and>
    cr3 (mc_cpu (bt_machine b')) \<in> allocatable_frames es s \<and> bt_pmm b' = s \<and>
    pt_ok s (bitmap_bytes s) h (current_root h b') (pmem (mc_paging (bt_machine b'))) \<and> ptlb (mc_paging (bt_machine b')) = (\<lambda>_. None) \<and>
    walk (pmem (mc_paging (bt_machine b'))) h (current_root h b') (path A) = Some (0, pte_for (ucast phys) IOAPIC_page_flags) \<and>
    (\<forall>va. path va \<noteq> path A \<longrightarrow> walk (pmem (mc_paging (bt_machine b'))) h (current_root h b') (path va) =
      (if bit va 47 then walk (pmem (mc_paging (bt_machine b))) h (current_root h b) (path va) else None)) \<and>
    (\<forall>v < 255. vector_gate (bt_idt b') (mc_cpu (bt_machine b')) v =
      Some \<lparr>gate_handler = handler_of stubs v, gate_selector = 8, gate_ist = 0, gate_type = 0x8E\<rparr>) \<and>
    mmio_log (mc_cpu (bt_machine b')) = mmio_log (mc_cpu (bt_machine b)) @
      redirection A 2 32 (GetLocalApicId (mc_cpu (bt_machine b))) @ redirection A 1 33 (GetLocalApicId (mc_cpu (bt_machine b))) \<and>
    msr (mc_cpu (bt_machine b')) 0x80F = 0x1FF \<and>
    interrupts_on (mc_cpu (bt_machine b')) = interrupts_on (mc_cpu (bt_machine b))"
proof -
  obtain k where k: "madt_overrides am madt k" using ioapic_found_overrides [OF assms(6)] by blast
  obtain g d f m where E: "EarlyInit stubs h es (Some rsdp) sig b = Inr (b\<lparr>
      bt_machine := \<lparr>mc_cpu = early_cpu (tables_loaded b g d) f A,
        mc_ports = outb 0xA1 0xFF (outb 0x21 0xFF (mc_ports (bt_machine b))), mc_paging = \<lparr>pmem = m, ptlb = (\<lambda>_. None)\<rparr>,
        mc_madt = \<lparr>IOAPICData = e, madt_log = madt_log (mc_madt (bt_machine b)) @ ioapic_messages am madt e k\<rparr>, IOAPICAddress = A\<rparr>,
      bt_pmm := s, bt_gdt := g, bt_idt := fst (LoadIDT d cpu0), CoreContextes := (CoreContextes b)[0 := \<lparr>CoreID = 0, LapicID = 0\<rparr>]\<rparr>)"
    and d: "InitIDT stubs (bt_idt b) = Inr d" and res: "f \<in> allocatable_frames es s" "f AND PTE_ADDRESS = f" "pt_ok s (bitmap_bytes s) h (f + h) m"
      "walk m h (f + h) (path A) = Some (0, pte_for (ucast phys) IOAPIC_page_flags)"
      "\<forall>va. path va \<noteq> path A \<longrightarrow> walk m h (f + h) (path va) =
        (if bit va 47 then walk (pmem (mc_paging (bt_machine b))) h (current_root h b) (path va) else None)"
    using EarlyInit_result [OF assms k] by blast
  have i: "idtr (tables_loaded b g d) = idtr (snd (LoadIDT d cpu0))" by (simp add: tables_loaded_def LoadIDT_def Let_def)
  have "length (IDTTable (bt_idt b)) = 256" using assms(1) by (simp add: boot_ready_def)
  from vector_gate_InitIDT [OF this d] i
  have "vector_gate (fst (LoadIDT d cpu0)) (early_cpu (tables_loaded b g d) f A) v =
      Some \<lparr>gate_handler = handler_of stubs v, gate_selector = 8, gate_ist = 0, gate_type = 0x8E\<rparr>" if "v < 255" for v
    using that by simp
  moreover have "(f AND PTE_ADDRESS) + h = f + h" by (simp add: res(2))
  ultimately show ?thesis using E res unfolding current_root_def by simp
qed

section \<open>A machine\<close>

text \<open>
  2 MiB of memory behind a direct map at \<open>demo_hhdm\<close>: the ACPI tables in page 0, an empty root table in page 1, and the memory map of
  the allocator's demonstration.
\<close>

definition early_shift :: u64 where
  "early_shift = demo_hhdm - 0x100000"

definition early_acpi :: mem where
  "early_acpi = (\<lambda>x. acpi_mem0 (x - early_shift))"

definition early_mem :: mem where
  "early_mem = zeroed demo_hhdm 0x200000 ++ early_acpi"

definition early_boot :: boot where
  "early_boot = \<lparr>bt_machine = demo_machine\<lparr>mc_paging := \<lparr>pmem = early_mem, ptlb = (\<lambda>_. None)\<rparr>\<rparr>,
     bt_pmm = \<lparr>bitmap = 0, total_pages = 0, bitmap_size = 0\<rparr>, bt_gdt = gdt_globals 0x8000, bt_idt = idt_globals 0x9000,
     CoreContextes = replicate 256 \<lparr>CoreID = 0, LapicID = 0\<rparr>, contexts_at = 0xA000\<rparr>"

text \<open>Loads from a memory moved by \<open>d\<close>.\<close>

lemma load_bytes_moved: "load_bytes (\<lambda>x. m (x - d)) (a + d) n = Inr bs \<longleftrightarrow> load_bytes m a n = Inr bs"
proof (induction n arbitrary: a bs)
  case (Suc n)
  have "a + d + 1 = (a + 1) + d" by simp
  then have "load_bytes (\<lambda>x. m (x - d)) (a + d + 1) n = Inr bs \<longleftrightarrow> load_bytes m (a + 1) n = Inr bs" for bs
    using Suc by metis
  then show ?case by (auto simp: and_then_eq_Inr split: option.splits)
qed simp

lemma load_moved:
  "load8 (\<lambda>x. m (x - d)) (a + d) = Inr b \<longleftrightarrow> load8 m a = Inr b"
  "load32 (\<lambda>x. m (x - d)) (a + d) = Inr v \<longleftrightarrow> load32 m a = Inr v"
  "load64 (\<lambda>x. m (x - d)) (a + d) = Inr w \<longleftrightarrow> load64 m a = Inr w"
  by (simp_all add: load8_eq_Inr load32_def load64_def and_then_eq_Inr load_bytes_moved)

lemmas load_early = load_moved [of acpi_mem0 early_shift, folded early_acpi_def]

lemma madt_step_moved:
  assumes "madt_step m e a = Some b" and "a + d < e + d"
  shows "madt_step (\<lambda>x. m (x - d)) (e + d) (a + d) = Some (b + d)"
proof -
  have k: "a + d + 1 = (a + 1) + d" "a + d + 8 = (a + 8) + d" by simp_all
  let ?m = "\<lambda>x. m (x - d)"
  from assms(1) obtain ty len where l: "load8 m a = Inr ty" "load8 m (a + 1) = Inr len" "b = a + ucast len"
      "ty = 1 \<Longrightarrow> \<exists>v. load32 m (a + 8) = Inr v"
    by (auto simp: madt_step_def split: if_splits sum.splits)
  then have "load8 ?m (a + d) = Inr ty" "load8 ?m (a + 1 + d) = Inr len" "ty = 1 \<Longrightarrow> \<exists>v. load32 ?m (a + 8 + d) = Inr v"
    by (simp_all add: load_moved)
  then show ?thesis using assms(2) l(3) unfolding madt_step_def k by (auto split: sum.split)
qed

lemma is_ioapic0_moved: "is_ioapic0 (\<lambda>x. m (x - d)) (a + d) = is_ioapic0 m a"
proof -
  have "a + d + 8 = (a + 8) + d" by simp
  then show ?thesis by (simp only: is_ioapic0_def load_moved)
qed

lemma load_early_at:
  "load8 acpi_mem0 (a - early_shift) = Inr b \<Longrightarrow> load8 early_acpi a = Inr b"
  "load32 acpi_mem0 (a - early_shift) = Inr v \<Longrightarrow> load32 early_acpi a = Inr v"
  "load64 acpi_mem0 (a - early_shift) = Inr w \<Longrightarrow> load64 early_acpi a = Inr w"
  using load_early [of "a - early_shift"] by simp_all

lemma early_madt:
  "load32 early_acpi 0xFFFF800000000424 = Inr 0xFEE00000" "load32 early_acpi 0xFFFF800000000428 = Inr 1"
  "load8 early_acpi 0xFFFF800000000436 = Inr 2" "load32 early_acpi 0xFFFF800000000438 = Inr 0xFEC00000"
  "load32 early_acpi 0xFFFF80000000043C = Inr 0" "load32 early_acpi 0xFFFF800000000404 = Inr 74"
proof -
  have "load32 acpi_mem0 0x100424 = Inr 0xFEE00000" "load32 acpi_mem0 0x100428 = Inr 1"
    "load8 acpi_mem0 0x100436 = Inr 2" "load32 acpi_mem0 0x100438 = Inr 0xFEC00000" "load32 acpi_mem0 0x10043C = Inr 0"
    by (simp_all add: acpi_eval)
  then show "load32 early_acpi 0xFFFF800000000424 = Inr 0xFEE00000" "load32 early_acpi 0xFFFF800000000428 = Inr 1"
    "load8 early_acpi 0xFFFF800000000436 = Inr 2" "load32 early_acpi 0xFFFF800000000438 = Inr 0xFEC00000"
    "load32 early_acpi 0xFFFF80000000043C = Inr 0" "load32 early_acpi 0xFFFF800000000404 = Inr 74"
    using acpi_mem0_madt(1) by (auto intro!: load_early_at simp: early_shift_def demo_hhdm_def)
qed

lemma early_chain:
  "madt_chain early_acpi 0xFFFF80000000044A 0xFFFF80000000042C [0xFFFF80000000042C, 0xFFFF800000000434, 0xFFFF800000000440]"
proof -
  note s = acpi_mem0_entries
  show ?thesis
    using madt_step_moved [OF s(1), of early_shift] madt_step_moved [OF s(2), of early_shift] madt_step_moved [OF s(3), of early_shift]
    unfolding early_acpi_def [symmetric] by (simp add: early_shift_def demo_hhdm_def)
qed

lemma early_overrides: "madt_overrides early_acpi (demo_hhdm + 0x400) 1"
proof -
  have b: "load8 acpi_mem0 0x10042C = Inr 0" "load8 acpi_mem0 0x100434 = Inr 1" "load8 acpi_mem0 0x100440 = Inr 2"
    by (simp_all add: acpi_eval)
  have "load8 early_acpi 0xFFFF80000000042C = Inr 0" "load8 early_acpi 0xFFFF800000000434 = Inr 1" "load8 early_acpi 0xFFFF800000000440 = Inr 2"
    using b by (auto intro!: load_early_at simp: early_shift_def demo_hhdm_def)
  then show ?thesis
    using early_madt(6) early_chain unfolding madt_overrides_def
    by (intro exI [of _ 74] exI [of _ "[0xFFFF80000000042C, 0xFFFF800000000434, 0xFFFF800000000440]"])
      (simp add: demo_hhdm_def is_override_def)
qed

lemma early_ioapic:
  "ioapic_found early_acpi (demo_hhdm + 0x100) demo_hhdm (demo_hhdm + 0x500) (demo_hhdm + 0x400) (demo_hhdm + 0x434) 0xFEC00000"
proof -
  let ?d = early_shift
  note num = early_shift_def demo_hhdm_def
  have t: "load64 early_acpi 0xFFFF800000000118 = Inr 0x200" "load32 early_acpi 0xFFFF800000000204 = Inr 52"
    "load64 early_acpi 0xFFFF800000000224 = Inr 0x300" "load64 early_acpi 0xFFFF80000000022C = Inr 0x400"
    "load32 early_acpi 0xFFFF800000000300 = Inr 0x50434146" "load32 early_acpi 0xFFFF800000000400 = Inr 0x43495041"
    "load32 early_acpi 0xFFFF800000000500 = Inr 0x43495041"
    using acpi_mem0_tables by (auto intro!: load_early_at simp: num)
  have "xsdt_lists early_acpi (demo_hhdm + 0x100) demo_hhdm [(0x300, 0x50434146), (0x400, 0x43495041)]"
    using t by (auto simp: xsdt_lists_def less_Suc_eq num)
  from GetTable_find [OF this, of "demo_hhdm + 0x500" "0x43495041"] t
  have g: "GetTable early_acpi (demo_hhdm + 0x100) demo_hhdm (demo_hhdm + 0x500) = Inr (demo_hhdm + 0x400)"
    by (simp add: num)
  have i: "\<not> is_ioapic0 early_acpi 0xFFFF80000000042C" "is_ioapic0 early_acpi 0xFFFF800000000434" "\<not> is_ioapic0 early_acpi 0xFFFF800000000440"
    using acpi_mem0_ioapics is_ioapic0_moved [of acpi_mem0 ?d "0x10042C"] is_ioapic0_moved [of acpi_mem0 ?d "0x100434"]
      is_ioapic0_moved [of acpi_mem0 ?d "0x100440"]
    unfolding early_acpi_def [symmetric] by (simp_all add: num)
  show ?thesis
    unfolding ioapic_found_def
    using g early_madt early_chain i by (auto simp: num intro!: exI [of _ 74] exI [of _ "[0xFFFF80000000042C, 0xFFFF800000000434, 0xFFFF800000000440]"])
qed

text \<open>The root table is a page of zeros, the bitmap, the ACPI page and the allocatable frames are other pages.\<close>

lemma early_page0: "x \<in> dom early_acpi \<Longrightarrow> in_region demo_hhdm 4096 x"
proof -
  assume "x \<in> dom early_acpi"
  then obtain b where "acpi_mem0 (x - early_shift) = Some b" by (auto simp: early_acpi_def)
  moreover have "list_all (\<lambda>b. in_region 0x100000 4096 (fst b)) acpi_bytes"
    by (simp add: acpi_bytes_def in_region_def)
  ultimately have "in_region 0x100000 4096 (x - early_shift)"
    using map_of_SomeD [of acpi_bytes] by (fastforce simp: acpi_mem0_def list_all_iff)
  then show ?thesis by (simp add: in_region_def early_shift_def algebra_simps)
qed

lemma early_mapped: "mapped early_mem (demo_hhdm + of_nat k) c" if "k + c \<le> 0x200000"
proof -
  have "mapped early_mem demo_hhdm 0x200000"
    using mapped_zeroed [of "0x200000" demo_hhdm] by (auto simp: mapped_iff early_mem_def)
  then show ?thesis by (rule mapped_sub) (use that in simp)
qed

lemma early_pages: "page_aligned (demo_hhdm + 0x1000)" "page_aligned demo_hhdm" "page_aligned (demo_hhdm + 0x100000)"
  by (simp_all add: page_aligned_def demo_hhdm_def)

lemma early_off_page0: "\<not> in_region demo_hhdm 4096 x \<Longrightarrow> early_mem x = zeroed demo_hhdm 0x200000 x"
  using early_page0 [of x] by (cases "early_acpi x") (auto simp: early_mem_def map_add_def dom_def)

lemma early_root_empty: "\<forall>i < 512. entry early_mem (demo_hhdm + 0x1000) i = 0"
proof (intro allI impI, rule entry_zero_bytes)
  fix x assume x: "in_region (demo_hhdm + 0x1000) 4096 x"
  have "\<not> in_region demo_hhdm 4096 x"
    using x pages_disjoint [OF early_pages(1,2)] by (auto simp: set_eq_iff)
  moreover have "in_region demo_hhdm 0x200000 x"
  proof -
    obtain k where "k < 4096" "x = demo_hhdm + of_nat (0x1000 + k)"
      using x in_region_offset [of 4096 "demo_hhdm + 0x1000" x] by (auto simp: algebra_simps)
    then show ?thesis using in_region_add [where i = "0x1000 + k" and n = "0x200000" and a = demo_hhdm] by (simp del: of_nat_add)
  qed
  ultimately show "early_mem x = Some 0" by (simp add: early_off_page0 zeroed_def)
qed

lemma early_frames:
  assumes "f \<in> allocatable_frames demo_map demo_pmm"
  shows "\<exists>j. f = of_nat (j * 4096) \<and> 256 \<le> j \<and> j < 512"
proof -
  obtain j where "f = j * 4096" "j < 512" "256 \<le> unat j"
    using assms by (auto simp: allocatable_frames_def allocatable_def)
  then show ?thesis by (intro exI [of _ "unat j"]) (simp add: word_less_nat_alt)
qed

lemma early_four: "4 \<le> card (allocatable_frames demo_map demo_pmm)"
proof -
  have "allocatable demo_map demo_pmm 0x181" "allocatable demo_map demo_pmm 0x182"
    "allocatable demo_map demo_pmm 0x183" "allocatable demo_map demo_pmm 0x184"
    by (simp_all add: allocatable_def usable_page_def locked_page_def touches_def bitmap_page_def pages_from_def
        demo_region, simp_all add: demo_map_def usable_def LIMINE_MEMMAP_USABLE_def)
  moreover have fr: "j * 4096 \<in> allocatable_frames demo_map demo_pmm" if "allocatable demo_map demo_pmm j" "j < 512" for j
    using that by (auto simp: allocatable_frames_def)
  ultimately have "{0x181000, 0x182000, 0x183000, 0x184000} \<subseteq> allocatable_frames demo_map demo_pmm"
    using fr [of "0x181"] fr [of "0x182"] fr [of "0x183"] fr [of "0x184"] by simp
  from card_mono [OF finite_allocatable this] show ?thesis by simp
qed

text \<open>Everything EarlyInit asks for holds here.\<close>

lemma early_root: "current_root demo_hhdm early_boot = demo_hhdm + 0x1000"
  by (simp add: current_root_def early_boot_def demo_machine_def cpu0_def PTE_ADDRESS_def)

lemma early_frame_page:
  assumes "f \<in> allocatable_frames demo_map demo_pmm"
  shows "mapped early_mem (f + demo_hhdm) 4096" and "page_aligned (f + demo_hhdm)" and "f \<noteq> 0" and "f \<noteq> 0x1000"
proof -
  obtain j where j: "f = of_nat (j * 4096)" "256 \<le> j" "j < 512" using early_frames [OF assms] by blast
  show "mapped early_mem (f + demo_hhdm) 4096" using early_mapped [of "j * 4096" 4096] j by (simp add: add.commute del: of_nat_mult)
  have u: "unat f = j * 4096" unfolding j(1) using j(3) by (intro unat_of_nat64) simp
  then have "page_aligned f" by (simp add: page_aligned_def)
  then show "page_aligned (f + demo_hhdm)" using early_pages(2) by (rule page_aligned_add)
  show "f \<noteq> 0" "f \<noteq> 0x1000" using u j(2) by (auto simp: word_unat_eq_iff)
qed

lemma early_handoff: "limine_handoff demo_map demo_hhdm (demo_hhdm + 0x1000) early_mem"
proof -
  let ?r = "demo_hhdm + 0x1000"
  have node: "node early_mem demo_hhdm ?r p = Some t \<longleftrightarrow> p = [] \<and> t = ?r" if "table_path p" for p t
    using node_empty_root [OF early_root_empty that] .
  have bm: "mapped early_mem (demo_hhdm + 0x100000) 64" using early_mapped [of "0x100000" 64] by simp
  have root: "page_ok demo_pmm 64 early_mem ?r"
  proof -
    have "region ?r 4096 \<inter> region (bitmap demo_pmm) 64 = {}"
      using pages_disjoint [OF early_pages(1,3)] in_region_mono [of "demo_hhdm + 0x100000" 64 _ 4096]
      by (auto simp: set_eq_iff demo_hhdm_def)
    then show ?thesis using early_mapped [of "0x1000" 4096] early_pages(1) by (simp add: page_ok_def)
  qed
  have out: "?r - demo_hhdm \<notin> allocatable_frames demo_map demo_pmm" using early_frame_page(4) by auto
  have "tables_distinct demo_hhdm ?r early_mem" unfolding tables_distinct_def using node by metis
  moreover have "page_ok demo_pmm (bitmap_bytes demo_pmm) early_mem t \<and> t - demo_hhdm \<notin> allocatable_frames demo_map demo_pmm"
    if "table_path p \<and> node early_mem demo_hhdm ?r p = Some t" for p t
    using node [of p t] that root out by (simp add: demo_bytes)
  ultimately show ?thesis
    unfolding limine_handoff_def demo_pmm_def [symmetric] Let_def
    using demo_map_ok demo_region bm early_pages(2) early_frame_page(1) whole_bytes_tail_ok [of demo_pmm demo_map early_mem]
      whole_bytes_inside [of demo_pmm] by (simp add: demo_bytes demo_hhdm_def)
qed

lemma early_acpi_kept: "acpi_kept demo_map demo_hhdm early_acpi early_mem"
proof -
  have "\<not> in_region (bitmap demo_pmm) 64 x \<and> \<not> in_region (f + demo_hhdm) 4096 x"
    if "x \<in> dom early_acpi" "f \<in> allocatable_frames demo_map demo_pmm" for x f
  proof -
    note x = early_page0 [OF that(1)]
    have "demo_hhdm \<noteq> f + demo_hhdm" using early_frame_page(3) [OF that(2)] by simp
    then have "\<not> in_region (f + demo_hhdm) 4096 x"
      using x pages_disjoint [OF early_pages(2) early_frame_page(2) [OF that(2)]] by (auto simp: set_eq_iff)
    moreover have "\<not> in_region (demo_hhdm + 0x100000) 64 x"
      using x pages_disjoint [OF early_pages(2,3)] in_region_mono [of "demo_hhdm + 0x100000" 64 x 4096]
      by (auto simp: set_eq_iff)
    ultimately show ?thesis by (simp add: demo_hhdm_def)
  qed
  moreover have "\<exists>f. f \<in> allocatable_frames demo_map demo_pmm" using early_four by (metis all_not_in_conv card.empty not_numeral_le_zero)
  moreover have "early_acpi \<subseteq>\<^sub>m early_mem" by (simp add: early_mem_def map_le_map_add)
  ultimately show ?thesis unfolding acpi_kept_def demo_pmm_def [symmetric] Let_def demo_bytes by blast
qed

theorem EarlyInit_establishes_witness:
  "\<exists>b'. EarlyInit demo_stubs demo_hhdm demo_map (Some (demo_hhdm + 0x100)) (demo_hhdm + 0x500) early_boot = Inr b' \<and>
    walk (pmem (mc_paging (bt_machine b'))) demo_hhdm (current_root demo_hhdm b') (path (0xFEC00000 + demo_hhdm)) = Some (0, 0xFEC0001B) \<and>
    walk (pmem (mc_paging (bt_machine b'))) demo_hhdm (current_root demo_hhdm b') (path 0x400000) = None \<and>
    msr (mc_cpu (bt_machine b')) 0x80F = 0x1FF"
proof -
  have pm: "pmem (mc_paging (bt_machine early_boot)) = early_mem" by (simp add: early_boot_def)
  have ready: "boot_ready early_boot"
    by (simp add: boot_ready_def early_boot_def gdt_globals_def idt_globals_def demo_machine_def cpu0_def bit_iff_odd)
  let ?A = "0xFEC00000 + demo_hhdm"
  have A: "?A = ucast (0xFEC00000 :: u32) + demo_hhdm" by simp
  have high: "bit ?A 47" by (simp add: demo_hhdm_def bit_iff_odd)
  have "walk early_mem demo_hhdm (demo_hhdm + 0x1000) (path va) = None" for va
    using walk_empty_table [OF early_root_empty] page_path_path [of va] by (simp add: page_path_def)
  then have small: "no_large_page demo_hhdm (demo_hhdm + 0x1000) early_mem ?A" by (simp add: no_large_page_def)
  have nz: "demo_hhdm \<noteq> 0" by (simp add: demo_hhdm_def)
  obtain b' where b': "EarlyInit demo_stubs demo_hhdm demo_map (Some (demo_hhdm + 0x100)) (demo_hhdm + 0x500) early_boot = Inr b'"
      "walk (pmem (mc_paging (bt_machine b'))) demo_hhdm (current_root demo_hhdm b') (path ?A) =
        Some (0, pte_for (ucast (0xFEC00000 :: u32)) IOAPIC_page_flags)"
      "\<forall>va. path va \<noteq> path ?A \<longrightarrow> walk (pmem (mc_paging (bt_machine b'))) demo_hhdm (current_root demo_hhdm b') (path va) =
        (if bit va 47 then walk early_mem demo_hhdm (demo_hhdm + 0x1000) (path va) else None)"
      "msr (mc_cpu (bt_machine b')) 0x80F = 0x1FF"
    using EarlyInit_establishes [of early_boot demo_hhdm demo_pmm demo_map early_acpi "demo_hhdm + 0x100" "demo_hhdm + 0x500"
        "demo_hhdm + 0x400" "demo_hhdm + 0x434" "0xFEC00000" ?A demo_stubs, unfolded pm early_root,
        OF ready nz demo_pmm_def early_handoff early_four early_ioapic early_acpi_kept A high small]
    by blast
  have "pte_for (ucast (0xFEC00000 :: u32)) IOAPIC_page_flags = 0xFEC0001B"
    by (simp add: pte_for_def PTE_ADDRESS_def IOAPIC_page_flags_def PTE_WRITABLE_def PTE_PRESENT_def)
  moreover have "path 0x400000 \<noteq> path ?A" by (simp add: path_def pml4_idx_def demo_hhdm_def)
  moreover have "\<not> bit (0x400000 :: u64) 47" by (simp add: bit_iff_odd)
  ultimately show ?thesis using b' by auto
qed

end
