(* ===== verification/Framebuffer.thy ===== *)
theory Framebuffer
  imports Utils
begin

text \<open>
  The framebuffer, \<^verbatim>\<open>kernel/arch/x86_64/boot/framebuffer.cpp\<close> and
  \<^verbatim>\<open>include/boot/framebuffer.hpp\<close>: taking over Limine's first framebuffer, colours, and
  drawing one pixel. The locale \<open>canvas\<close> is the contract of a pixel store towards whatever paints
  with it (the console's characters and its clear-screen loop).
\<close>

section \<open>Data\<close>

record Framebuffer =
  fb_addr :: u64
  fb_width :: u64
  fb_height :: u64
  fb_pitch :: u64
  fb_bpp :: u16
  memory_model :: u8
  red_mask_size :: u8
  red_mask_shift :: u8
  green_mask_size :: u8
  green_mask_shift :: u8
  blue_mask_size :: u8
  blue_mask_shift :: u8

record RGBColor =
  cR :: u8
  cG :: u8
  cB :: u8

text \<open>The zero-initialised static \<^verbatim>\<open>fb\<close>.\<close>

definition zero_fb :: Framebuffer where
  "zero_fb = \<lparr>fb_addr = 0, fb_width = 0, fb_height = 0, fb_pitch = 0, fb_bpp = 0, memory_model = 0,
     red_mask_size = 0, red_mask_shift = 0, green_mask_size = 0, green_mask_shift = 0,
     blue_mask_size = 0, blue_mask_shift = 0\<rparr>"

text \<open>
  The state of the file. Limine's response is None when there is none; each of its
  framebuffer pointers may be null.
\<close>

record graphics =
  fb_ready :: bl
  fb_var :: Framebuffer
  framebuffer_response :: "Framebuffer option list option"

section \<open>Code\<close>

text \<open>A shift by a count that is not a constant takes the count modulo 32, as the processor does.\<close>

definition shl32 :: "u32 \<Rightarrow> u8 \<Rightarrow> u32" where
  "shl32 v bits = push_bit (unat bits mod 32) v"

definition ScaleColorChannel :: "u8 \<Rightarrow> u8 \<Rightarrow> u32" where
  "ScaleColorChannel val bits =
     (if bits = 0 then 0 else ucast val * (shl32 1 bits - 1) div 255)"

definition MakeColor :: "Framebuffer \<Rightarrow> RGBColor \<Rightarrow> u32" where
  "MakeColor fb c =
     shl32 (ScaleColorChannel (cR c) (red_mask_size fb)) (red_mask_shift fb) OR
     shl32 (ScaleColorChannel (cG c) (green_mask_size fb)) (green_mask_shift fb) OR
     shl32 (ScaleColorChannel (cB c) (blue_mask_size fb)) (blue_mask_shift fb)"

definition DrawPixel :: "Framebuffer \<Rightarrow> Vector2 \<Rightarrow> RGBColor \<Rightarrow> mem \<Rightarrow> mem res" where
  "DrawPixel fb position color m =
     (let bytes_per_pixel = (ucast (fb_bpp fb div 8) :: u32);
          offset = (ucast (vy position * fb_pitch fb + vx position * ucast bytes_per_pixel) :: u32)
      in store32 m (fb_addr fb + ucast offset) (MakeColor fb color))"

definition InitFB :: "graphics \<Rightarrow> graphics" where
  "InitFB g =
     (case framebuffer_response g of
        None \<Rightarrow> g
      | Some framebuffers \<Rightarrow>
          (case framebuffers of
             [] \<Rightarrow> g
           | None # _ \<Rightarrow> g
           | Some lfb # _ \<Rightarrow> g\<lparr>fb_var := lfb, fb_ready := ktrue\<rparr>))"

text \<open>The pointer returned is always that of the static \<^verbatim>\<open>fb\<close>.\<close>

definition GetCurrentFramebuffer :: "graphics \<Rightarrow> graphics" where
  "GetCurrentFramebuffer g = (if \<not> truthy (fb_ready g) then InitFB g else g)"

section \<open>The contract of a pixel store\<close>

locale canvas =
  fixes plot :: "'p \<Rightarrow> 'c \<Rightarrow> 'm \<Rightarrow> 'm res" and look :: "'m \<Rightarrow> 'p \<Rightarrow> 'v" and shown :: "'c \<Rightarrow> 'v"
    and inside :: "'p \<Rightarrow> bool" and ok :: "'m \<Rightarrow> bool" and frame :: "'m \<Rightarrow> 'm \<Rightarrow> bool"
  assumes frame_refl: "frame m m"
    and frame_trans: "frame m1 m2 \<Longrightarrow> frame m2 m3 \<Longrightarrow> frame m1 m3"
    and plot_ok: "ok m \<Longrightarrow> inside p \<Longrightarrow> \<exists>m'. plot p c m = Inr m' \<and> ok m' \<and> frame m m' \<and>
      look m' p = shown c \<and> (\<forall>q. inside q \<longrightarrow> q \<noteq> p \<longrightarrow> look m' q = look m q)"
begin

text \<open>Painting a list of points, each once, shows the list and nothing else.\<close>

lemma paint:
  assumes "ok m" and "\<forall>(p, c) \<in> set ps. inside p" and "distinct (map fst ps)"
  shows "\<exists>m'. for_each (\<lambda>(p, c). plot p c) ps m = Inr m' \<and> ok m' \<and> frame m m' \<and>
    (\<forall>(p, c) \<in> set ps. look m' p = shown c) \<and>
    (\<forall>q. inside q \<longrightarrow> q \<notin> fst ` set ps \<longrightarrow> look m' q = look m q)"
  using assms
proof (induction ps arbitrary: m)
  case Nil
  then show ?case by (simp add: frame_refl)
next
  case (Cons a ps)
  obtain p c where a: "a = (p, c)" by fastforce
  obtain m1 where m1: "plot p c m = Inr m1" "ok m1" "frame m m1" "look m1 p = shown c"
      "\<forall>q. inside q \<longrightarrow> q \<noteq> p \<longrightarrow> look m1 q = look m q"
    using plot_ok [OF Cons.prems(1), of p c] Cons.prems(2) a by auto
  obtain m2 where m2: "for_each (\<lambda>(p, c). plot p c) ps m1 = Inr m2" "ok m2" "frame m1 m2"
      "\<forall>(p, c) \<in> set ps. look m2 p = shown c"
      "\<forall>q. inside q \<longrightarrow> q \<notin> fst ` set ps \<longrightarrow> look m2 q = look m1 q"
    using Cons.IH [OF m1(2)] Cons.prems(2,3) by auto
  have "p \<notin> fst ` set ps" "inside p" using Cons.prems(2,3) a by auto
  then have "look m2 p = shown c" using m2(5) m1(4) by simp
  then show ?case
    using m1 m2 a frame_trans [OF m1(3) m2(3)] by auto
qed

text \<open>The loop form: one point and colour per index.\<close>

lemma paint_loop:
  assumes "ok m" and "\<And>i. i \<in> set is \<Longrightarrow> inside (pt i)" and "distinct is" and "inj_on pt (set is)"
  shows "\<exists>m'. for_each (\<lambda>i. plot (pt i) (col i)) is m = Inr m' \<and> ok m' \<and> frame m m' \<and>
    (\<forall>i \<in> set is. look m' (pt i) = shown (col i)) \<and>
    (\<forall>q. inside q \<longrightarrow> q \<notin> pt ` set is \<longrightarrow> look m' q = look m q)"
proof -
  let ?ps = "map (\<lambda>i. (pt i, col i)) is"
  have "map fst ?ps = map pt is" by simp
  then have "distinct (map fst ?ps)" using assms(3,4) by (simp add: distinct_map comp_def)
  then have "\<exists>m'. for_each (\<lambda>(p, c). plot p c) ?ps m = Inr m' \<and> ok m' \<and> frame m m' \<and>
    (\<forall>(p, c) \<in> set ?ps. look m' p = shown c) \<and>
    (\<forall>q. inside q \<longrightarrow> q \<notin> fst ` set ?ps \<longrightarrow> look m' q = look m q)"
    by (intro paint) (use assms in auto)
  then show ?thesis by (auto simp: for_each_map image_image)
qed

end

section \<open>A framebuffer of 32-bit pixels\<close>

definition fb_bytes :: "Framebuffer \<Rightarrow> nat" where
  "fb_bytes fb = unat (fb_height fb) * unat (fb_pitch fb)"

text \<open>32 bits per pixel, rows that fit the pitch, at most 4 GiB, all of it mapped.\<close>

definition fb_ok :: "Framebuffer \<Rightarrow> mem \<Rightarrow> bool" where
  "fb_ok fb m \<longleftrightarrow> fb_bpp fb = 32 \<and> unat (fb_width fb) * 4 \<le> unat (fb_pitch fb) \<and>
     fb_bytes fb \<le> 2 ^ 32 \<and> mapped m (fb_addr fb) (fb_bytes fb)"

definition on_screen :: "Framebuffer \<Rightarrow> Vector2 \<Rightarrow> bool" where
  "on_screen fb p \<longleftrightarrow> vx p < fb_width fb \<and> vy p < fb_height fb"

definition pixel_offset :: "Framebuffer \<Rightarrow> Vector2 \<Rightarrow> nat" where
  "pixel_offset fb p = unat (vy p) * unat (fb_pitch fb) + unat (vx p) * 4"

definition pixel :: "Framebuffer \<Rightarrow> mem \<Rightarrow> Vector2 \<Rightarrow> u32 res" where
  "pixel fb m p = load32 m (fb_addr fb + of_nat (pixel_offset fb p))"

text \<open>Only bytes of the framebuffer differ.\<close>

definition fb_frame :: "Framebuffer \<Rightarrow> mem \<Rightarrow> mem \<Rightarrow> bool" where
  "fb_frame fb m m' \<longleftrightarrow> dom m' = dom m \<and>
     (\<forall>x. \<not> in_region (fb_addr fb) (fb_bytes fb) x \<longrightarrow> m' x = m x)"

lemma pixel_offset_bound:
  assumes "fb_ok fb m" and "on_screen fb p"
  shows "pixel_offset fb p + 4 \<le> fb_bytes fb"
proof -
  have x: "unat (vx p) + 1 \<le> unat (fb_width fb)" and y: "unat (vy p) + 1 \<le> unat (fb_height fb)"
    using assms(2) by (simp_all add: on_screen_def word_less_nat_alt)
  have "unat (vx p) * 4 + 4 \<le> unat (fb_pitch fb)" using x assms(1) by (auto simp: fb_ok_def)
  moreover have "(unat (vy p) + 1) * unat (fb_pitch fb) \<le> fb_bytes fb"
    unfolding fb_bytes_def using y by (rule mult_le_mono1)
  ultimately show ?thesis by (simp add: pixel_offset_def)
qed

lemma pixel_offset_inj:
  assumes "fb_ok fb m" "on_screen fb p" "on_screen fb q" "p \<noteq> q"
  shows "pixel_offset fb p + 4 \<le> pixel_offset fb q \<or> pixel_offset fb q + 4 \<le> pixel_offset fb p"
proof -
  have row: "unat (vx r) * 4 + 4 \<le> unat (fb_pitch fb)" if "on_screen fb r" for r
    using that assms(1) by (auto simp: fb_ok_def on_screen_def word_less_nat_alt)
  have next_row: "pixel_offset fb r + 4 \<le> pixel_offset fb s"
    if "on_screen fb r" "unat (vy r) < unat (vy s)" for r s
  proof -
    have "(unat (vy r) + 1) * unat (fb_pitch fb) \<le> unat (vy s) * unat (fb_pitch fb)"
      using that(2) by (intro mult_le_mono1) simp
    then show ?thesis using row [OF that(1)] by (simp add: pixel_offset_def)
  qed
  show ?thesis
  proof (cases "vy p = vy q")
    case True
    then have "vx p \<noteq> vx q" using assms(4) by (cases p; cases q) simp
    then have "unat (vx p) < unat (vx q) \<or> unat (vx q) < unat (vx p)"
      by (metis nat_neq_iff word_unat_eq_iff)
    then show ?thesis using True by (auto simp: pixel_offset_def)
  next
    case False
    then have "unat (vy p) < unat (vy q) \<or> unat (vy q) < unat (vy p)"
      by (metis nat_neq_iff word_unat_eq_iff)
    then show ?thesis using next_row assms(2,3) by blast
  qed
qed

lemma DrawPixel_offset:
  assumes "fb_ok fb m" and "on_screen fb p"
  shows "DrawPixel fb p c m = store32 m (fb_addr fb + of_nat (pixel_offset fb p)) (MakeColor fb c)"
proof -
  let ?o = "vy p * fb_pitch fb + vx p * ucast (ucast (fb_bpp fb div 8) :: u32)"
  have b: "pixel_offset fb p < 2 ^ 32"
    using pixel_offset_bound [OF assms] assms(1) by (simp add: fb_ok_def)
  have "(32 :: u16) div 8 = 4" by simp
  then have "?o = of_nat (pixel_offset fb p)"
    using assms(1) by (simp add: fb_ok_def pixel_offset_def)
  then have "(ucast (ucast ?o :: u32) :: u64) = of_nat (pixel_offset fb p)"
    using b by (simp add: word_unat_eq_iff unat_of_nat unsigned_ucast_eq unsigned_take_bit_eq take_bit_nat_eq_self)
  then show ?thesis by (simp add: DrawPixel_def Let_def)
qed

lemma DrawPixel_ok:
  assumes ok: "fb_ok fb m" and p: "on_screen fb p"
  shows "\<exists>m'. DrawPixel fb p c m = Inr m' \<and> fb_ok fb m' \<and> fb_frame fb m m' \<and>
    pixel fb m' p = Inr (MakeColor fb c) \<and>
    (\<forall>q. on_screen fb q \<longrightarrow> q \<noteq> p \<longrightarrow> pixel fb m' q = pixel fb m q)"
proof -
  let ?a = "\<lambda>p. fb_addr fb + of_nat (pixel_offset fb p)"
  note b = pixel_offset_bound [OF ok]
  have lim: "fb_bytes fb \<le> 2 ^ 32" and mp: "mapped m (fb_addr fb) (fb_bytes fb)"
    using ok by (simp_all add: fb_ok_def)
  obtain m' where st: "store32 m (?a p) (MakeColor fb c) = Inr m'"
    using dword.st_mapped [OF mapped_sub [OF mp b [OF p]]] by blast
  have d: "dom m' = dom m" by (rule dword.st_dom [OF st])
  have ok': "fb_ok fb m'" using ok mapped_dom [OF d] by (simp add: fb_ok_def)
  have "m' x = m x" if "\<not> in_region (fb_addr fb) (fb_bytes fb) x" for x
  proof (rule dword.st_frame [OF st])
    show "\<not> in_region (?a p) 4 x"
    proof
      assume "in_region (?a p) 4 x"
      then obtain k where k: "k < 4" "x = fb_addr fb + of_nat (pixel_offset fb p + k)"
        by (auto simp: in_region_offset [of 4] add.assoc)
      have o: "pixel_offset fb p + k < fb_bytes fb" using b [OF p] k(1) by linarith
      then have "pixel_offset fb p + k < 2 ^ 64" using lim by simp
      then have "in_region (fb_addr fb) (fb_bytes fb) x" unfolding k(2) using o by (simp only: in_region_add)
      then show False using that by simp
    qed
  qed
  then have fr: "fb_frame fb m m'" using d by (simp add: fb_frame_def)
  have "pixel fb m' q = pixel fb m q" if q: "on_screen fb q" "q \<noteq> p" for q
  proof -
    have "dword.apart (?a p) (?a q)"
    proof -
      have False if "k < 4" "l < 4" "?a p + of_nat k = ?a q + of_nat l" for k l :: nat
      proof -
        have "fb_addr fb + of_nat (pixel_offset fb p + k) = fb_addr fb + of_nat (pixel_offset fb q + l)"
          using that(3) by (simp add: add.assoc)
        then have "pixel_offset fb p + k = pixel_offset fb q + l"
          using b [OF p] b [OF q(1)] that(1,2) lim by (subst (asm) add_of_nat64_cancel) simp_all
        then show False using pixel_offset_inj [OF ok p q(1)] q(2) that(1,2) by auto
      qed
      then show ?thesis by (auto simp: dword.apart_def in_region_offset [of 4])
    qed
    then show ?thesis using dword.ld_st_other [OF st] by (simp add: pixel_def)
  qed
  then show ?thesis
    using DrawPixel_offset [OF ok p] st ok' fr dword.ld_st [OF st] by (simp add: pixel_def)
qed

interpretation screen: canvas "DrawPixel fb" "pixel fb" "\<lambda>c. Inr (MakeColor fb c)" "on_screen fb"
  "fb_ok fb" "fb_frame fb" for fb
  by unfold_locales (use DrawPixel_ok in \<open>auto simp: fb_frame_def\<close>)

section \<open>Colours\<close>

lemma shl32_one: "unat bits < 32 \<Longrightarrow> unat (shl32 1 bits) = 2 ^ unat bits"
  unfolding shl32_def unsigned_push_bit_eq by (simp add: take_bit_nat_eq_self)

lemma ScaleColorChannel_value:
  assumes "unat bits \<le> 24"
  shows "unat (ScaleColorChannel v bits) = unat v * (2 ^ unat bits - 1) div 255"
proof (cases "bits = 0")
  case True
  then show ?thesis by (simp add: ScaleColorChannel_def)
next
  case False
  have p: "(2 :: nat) ^ unat bits \<le> 2 ^ 24" by (rule power_increasing) (use assms in simp_all)
  have one: "unat (shl32 1 bits) = 2 ^ unat bits" using assms by (intro shl32_one) simp
  then have "shl32 1 bits \<noteq> 0" by (metis power_not_zero unsigned_0 zero_neq_numeral)
  then have m: "unat (shl32 1 bits - 1) = 2 ^ unat bits - 1" by (simp add: unat_minus_one one)
  have v: "unat (ucast v :: u32) = unat v"     using less_trans [OF unat_u8_lt [of v], of "2 ^ 32"] by (simp add: unsigned_ucast_eq take_bit_nat_eq_self)
  have "unat v * (2 ^ unat bits - 1) \<le> 255 * 2 ^ 24"
    using p unat_u8_lt [of v] by (intro mult_le_mono) (simp_all del: unat_u8_lt)
  then have "unat (ucast v * (shl32 1 bits - 1) :: u32) = unat v * (2 ^ unat bits - 1)"
    by (simp add: unat_word_ariths m v)
  then show ?thesis using False by (simp add: ScaleColorChannel_def unat_div_distrib)
qed

section \<open>Properties\<close>

text \<open>On a mapped 32-bit framebuffer DrawPixel at a position of the screen sets that pixel to
  the colour's value, leaves every other pixel of the screen as it was, and changes no byte outside the framebuffer.\<close>

lemma DrawPixel_exact:
  assumes "fb_ok fb m" and "on_screen fb p"
  shows "\<exists>m'. DrawPixel fb p c m = Inr m' \<and> pixel fb m' p = Inr (MakeColor fb c) \<and>
    (\<forall>q. on_screen fb q \<longrightarrow> q \<noteq> p \<longrightarrow> pixel fb m' q = pixel fb m q) \<and>
    (\<forall>x. \<not> in_region (fb_addr fb) (fb_bytes fb) x \<longrightarrow> m' x = m x)"
  using DrawPixel_ok [OF assms, of c] by (auto simp: fb_frame_def)

text \<open>A screen of two rows of three pixels, with a pitch of 16 bytes, at 0x1000.\<close>

definition small_fb :: Framebuffer where
  "small_fb = zero_fb\<lparr>fb_addr := 0x1000, fb_width := 3, fb_height := 2, fb_pitch := 16, fb_bpp := 32,
     red_mask_size := 8, red_mask_shift := 16, green_mask_size := 8, green_mask_shift := 8, blue_mask_size := 8\<rparr>"

lemma small_fb_ok: "fb_ok small_fb (zeroed 0x1000 32)"
  using mapped_zeroed [of 32 "0x1000"] by (simp add: fb_ok_def fb_bytes_def small_fb_def zero_fb_def)

lemma DrawPixel_exact_witness:
  "\<exists>m'. DrawPixel small_fb \<lparr>vx = 2, vy = 1\<rparr> \<lparr>cR = 0, cG = 189, cB = 252\<rparr> (zeroed 0x1000 32) = Inr m' \<and>
    pixel small_fb m' \<lparr>vx = 2, vy = 1\<rparr> = Inr 0xBDFC"
proof -
  have "on_screen small_fb \<lparr>vx = 2, vy = 1\<rparr>" by (simp add: on_screen_def small_fb_def)
  moreover have "MakeColor small_fb \<lparr>cR = 0, cG = 189, cB = 252\<rparr> = 0xBDFC"
    by (simp add: MakeColor_def ScaleColorChannel_def shl32_def small_fb_def zero_fb_def push_bit_eq_mult)
  ultimately show ?thesis
    using DrawPixel_exact [OF small_fb_ok, of "\<lparr>vx = 2, vy = 1\<rparr>" "\<lparr>cR = 0, cG = 189, cB = 252\<rparr>"] by auto
qed

text \<open>A colour channel of up to 24 bits is scaled without overflow: the result is the value's
  share of the channel's range rounded down, so 0 stays 0, 255 becomes the largest channel value, and no
  result leaves the channel.\<close>

lemma ScaleColorChannel_exact:
  assumes "unat bits \<le> 24"
  shows "unat (ScaleColorChannel v bits) = unat v * (2 ^ unat bits - 1) div 255 \<and>
    unat (ScaleColorChannel v bits) < 2 ^ unat bits \<and>
    unat (ScaleColorChannel 255 bits) = 2 ^ unat bits - 1"
proof -
  have "unat v * (2 ^ unat bits - 1) \<le> 255 * (2 ^ unat bits - 1)"
    using unat_u8_lt [of v] by (intro mult_le_mono1) (simp del: unat_u8_lt)
  then have "unat v * (2 ^ unat bits - 1) div 255 \<le> 255 * (2 ^ unat bits - 1) div 255"
    by (rule div_le_mono)
  then have "unat v * (2 ^ unat bits - 1) div 255 \<le> 2 ^ unat bits - 1" by simp
  moreover have "(0 :: nat) < 2 ^ unat bits" by simp
  ultimately have "unat v * (2 ^ unat bits - 1) div 255 < 2 ^ unat bits" by linarith
  then show ?thesis using ScaleColorChannel_value [OF assms] by simp
qed

lemma ScaleColorChannel_exact_witness:
  "unat (ScaleColorChannel 128 5) = 15 \<and> unat (ScaleColorChannel 255 5) = 31"
  using ScaleColorChannel_exact [of 5 128] by simp

text \<open>GetCurrentFramebuffer takes Limine's first framebuffer and asks Limine only until it has
  one; without a framebuffer it returns the zeroed static one, on which the first DrawPixel at the
  origin faults at address 0.\<close>

lemma GetCurrentFramebuffer_cases:
  assumes "\<not> truthy (fb_ready g)"
  shows "(\<forall>lfb rest. framebuffer_response g = Some (Some lfb # rest) \<longrightarrow>
      fb_var (GetCurrentFramebuffer g) = lfb \<and>
      GetCurrentFramebuffer (GetCurrentFramebuffer g) = GetCurrentFramebuffer g) \<and>
    (fb_var g = zero_fb \<longrightarrow> framebuffer_response g \<in> {None, Some []} \<longrightarrow> m 0 = None \<longrightarrow>
      DrawPixel (fb_var (GetCurrentFramebuffer g)) \<lparr>vx = 0, vy = 0\<rparr> c m = Inl (PageFault 0))"
  using assms
  by (auto simp: GetCurrentFramebuffer_def InitFB_def DrawPixel_def zero_fb_def store32_def
      numeral_eq_Suc)

lemma GetCurrentFramebuffer_cases_witness:
  "DrawPixel (fb_var (GetCurrentFramebuffer \<lparr>fb_ready = kfalse, fb_var = zero_fb, framebuffer_response = None\<rparr>))
     \<lparr>vx = 0, vy = 0\<rparr> \<lparr>cR = 255, cG = 255, cB = 255\<rparr> Map.empty = Inl (PageFault 0)"
  using GetCurrentFramebuffer_cases [of "\<lparr>fb_ready = kfalse, fb_var = zero_fb, framebuffer_response = None\<rparr>"]
  by simp

end
