(* ===== verification/Spinlock.thy ===== *)
theory Spinlock
  imports Prelude
begin

text \<open>
  The spinlock of \<^verbatim>\<open>kernel/arch/x86_64/include/spinlock.hpp\<close>, first as the two methods
  on the lock word run by one processor that nobody interferes with, then as a
  step relation over any number of processors that lock and unlock in any interleaving.
\<close>

section \<open>One processor\<close>

text \<open>The lock word: 0 = unlocked, 1 = locked.\<close>

type_synonym Spinlock = u8

text \<open>\<^verbatim>\<open>__atomic_test_and_set\<close>: set the byte, return whether it was set before.\<close>

definition test_and_set :: "Spinlock \<Rightarrow> bool \<times> Spinlock" where
  "test_and_set lock_state = (lock_state \<noteq> 0, 1)"

text \<open>
  \<^verbatim>\<open>Lock\<close> repeats the test-and-set until the byte was clear. With nobody else to
  clear it the loop may never be left: None.
\<close>

partial_function (option) Lock_loop :: "Spinlock \<Rightarrow> Spinlock option" where
  "Lock_loop lock_state =
     (let (was, now) = test_and_set lock_state in if was then Lock_loop now else Some now)"

definition Lock :: "Spinlock \<Rightarrow> Spinlock res" where
  "Lock lock_state =
     (case Lock_loop lock_state of None \<Rightarrow> Inl (Spins ''Spinlock::Lock'') | Some l \<Rightarrow> Inr l)"

definition Unlock :: "Spinlock \<Rightarrow> Spinlock" where
  "Unlock lock_state = 0"

lemma Lock_loop_locked: "Lock_loop 1 = None"
proof -
  have "l \<noteq> 1" if "Lock_loop l = Some r" for l r
    by (rule Lock_loop.raw_induct [OF _ that]) (auto simp: test_and_set_def, blast)
  then show ?thesis by (cases "Lock_loop 1") auto
qed

lemma Lock_free: "Lock 0 = Inr 1"
  by (simp add: Lock_def Lock_loop.simps [of 0] test_and_set_def)

lemma Lock_held: "l \<noteq> 0 \<Longrightarrow> Lock l = Inl (Spins ''Spinlock::Lock'')"
  using Lock_loop_locked by (simp add: Lock_def Lock_loop.simps [of l] test_and_set_def)

lemma Lock_cases: "Lock l = (if l = 0 then Inr 1 else Inl (Spins ''Spinlock::Lock''))"
  using Lock_free Lock_held by simp

section \<open>The contract of a lock\<close>

text \<open>
  What the users of a lock rely on: taking it succeeds when it is free and leaves it held,
  taking it again while held never returns, releasing frees it. A section
  that runs under the lock and leaves the lock alone can be run again and
  again, and a second acquisition inside it hangs.
\<close>

locale lock =
  fixes acquire :: "'l \<Rightarrow> 'l res" and release :: "'l \<Rightarrow> 'l" and free :: "'l \<Rightarrow> bool"
  assumes acquire_free: "free l \<Longrightarrow> \<exists>k. acquire l = Inr k \<and> \<not> free k"
    and acquire_held: "\<not> free l \<Longrightarrow> \<exists>w. acquire l = Inl (Spins w)"
    and release_free: "free (release l)"
begin

lemma acquire_Inr_iff: "(\<exists>k. acquire l = Inr k) \<longleftrightarrow> free l"
  using acquire_free acquire_held by fastforce

lemma no_reentry: "acquire l = Inr k \<Longrightarrow> \<exists>w. acquire k = Inl (Spins w)"
  using acquire_free acquire_held by (metis acquire_Inr_iff old.sum.inject(2))

text \<open>A section of code between acquisition and release.\<close>

definition guarded :: "('s \<Rightarrow> 's res) \<Rightarrow> 'l \<times> 's \<Rightarrow> ('l \<times> 's) res" where
  "guarded body = (\<lambda>(l, s). and_then (acquire l) (\<lambda>k. and_then (body s) (\<lambda>s. Inr (release k, s))))"

lemma guarded_free:
  "free l \<Longrightarrow> body s = Inr t \<Longrightarrow> \<exists>k. guarded body (l, s) = Inr (k, t) \<and> free k"
  using acquire_free [of l] release_free by (auto simp: guarded_def)

lemma guarded_held: "\<not> free l \<Longrightarrow> \<exists>w. guarded body (l, s) = Inl (Spins w)"
  using acquire_held [of l] by (auto simp: guarded_def)

end

interpretation spin: lock Lock Unlock "\<lambda>l. l = 0"
  by unfold_locales (simp_all add: Lock_cases Unlock_def)

section \<open>Many processors\<close>

text \<open>
  Each processor is outside, spinning in \<^verbatim>\<open>Lock\<close>, or inside its section. A spinning
  processor's step is one test-and-set of the shared byte.
\<close>

datatype phase = Outside | Spinning | Inside

record 'c locks =
  lock_word :: Spinlock
  phase_of :: "'c \<Rightarrow> phase"

inductive lock_step :: "'c locks \<Rightarrow> 'c locks \<Rightarrow> bool" where
  call: "phase_of s c = Outside \<Longrightarrow> lock_step s (s\<lparr>phase_of := (phase_of s)(c := Spinning)\<rparr>)"
| spin: "phase_of s c = Spinning \<Longrightarrow> test_and_set (lock_word s) = (True, w) \<Longrightarrow>
    lock_step s (s\<lparr>lock_word := w\<rparr>)"
| enter: "phase_of s c = Spinning \<Longrightarrow> test_and_set (lock_word s) = (False, w) \<Longrightarrow>
    lock_step s (s\<lparr>lock_word := w, phase_of := (phase_of s)(c := Inside)\<rparr>)"
| leave: "phase_of s c = Inside \<Longrightarrow>
    lock_step s (s\<lparr>lock_word := Unlock (lock_word s), phase_of := (phase_of s)(c := Outside)\<rparr>)"

inductive_cases lock_stepE: "lock_step s t"

definition locks_start :: "'c locks" where
  "locks_start = \<lparr>lock_word = 0, phase_of = (\<lambda>_. Outside)\<rparr>"

inductive lock_reachable :: "'c locks \<Rightarrow> bool" where
  start: "lock_reachable locks_start"
| step: "lock_reachable s \<Longrightarrow> lock_step s t \<Longrightarrow> lock_reachable t"

text \<open>The byte is set exactly while somebody is inside, and at most one processor is.\<close>

definition lock_inv :: "'c locks \<Rightarrow> bool" where
  "lock_inv s \<longleftrightarrow>
     (\<forall>c d. phase_of s c = Inside \<and> phase_of s d = Inside \<longrightarrow> c = d) \<and>
     (lock_word s = 0 \<longleftrightarrow> (\<forall>c. phase_of s c \<noteq> Inside)) \<and> lock_word s \<in> {0, 1}"

lemma lock_inv_step: "lock_step s t \<Longrightarrow> lock_inv s \<Longrightarrow> lock_inv t"
proof (induction rule: lock_step.induct)
  case (call s c)
  then show ?case by (auto simp: lock_inv_def; metis phase.distinct(4))
next
  case (spin s c w)
  then show ?case by (auto simp: lock_inv_def test_and_set_def)
next
  case (enter s c w)
  then show ?case by (auto simp: lock_inv_def test_and_set_def)
next
  case (leave s c)
  then show ?case by (auto simp: lock_inv_def Unlock_def)
qed

lemma lock_reachable_inv: "lock_reachable s \<Longrightarrow> lock_inv s"
proof (induction rule: lock_reachable.induct)
  case start
  then show ?case by (simp add: lock_inv_def locks_start_def)
next
  case (step s t)
  then show ?case by (blast intro: lock_inv_step)
qed

section \<open>Properties\<close>

text \<open>C23: whatever the interleaving of any number of processors, at most one is between Lock and
  Unlock at any time.\<close>

theorem spinlock_mutual_exclusion:
  assumes "lock_reachable s" and "phase_of s c = Inside" and "phase_of s d = Inside"
  shows "c = d"
  using lock_reachable_inv [OF assms(1)] assms(2,3) by (simp add: lock_inv_def)

definition two_cores :: "bool locks" where
  "two_cores = \<lparr>lock_word = 1, phase_of = (\<lambda>c. if c then Inside else Spinning)\<rparr>"

lemma two_cores_reachable: "lock_reachable two_cores"
proof -
  let ?a = "\<lparr>lock_word = 0, phase_of = (\<lambda>_. Outside)(True := Spinning)\<rparr>"
  let ?b = "\<lparr>lock_word = 0, phase_of = ((\<lambda>_. Outside)(True := Spinning))(False := Spinning)\<rparr>"
  have "lock_step (locks_start :: bool locks) ?a"
    using lock_step.call [of locks_start True] by (simp add: locks_start_def)
  moreover have "lock_step ?a ?b" using lock_step.call [of ?a False] by simp
  moreover have "lock_step ?b two_cores"
    using lock_step.enter [of ?b True 1] by (simp add: two_cores_def test_and_set_def fun_upd_def cong: if_cong)
  ultimately show ?thesis using lock_reachable.intros by blast
qed

theorem spinlock_mutual_exclusion_witness:
  "phase_of two_cores True = Inside \<and> phase_of two_cores False \<noteq> Inside"
  using spinlock_mutual_exclusion [OF two_cores_reachable, of True False] by (auto simp: two_cores_def)

text \<open>C24: the lock makes progress: in every reachable state where nobody is inside, the next
  test-and-set of any spinning processor takes it in, and a processor that is inside can always leave, which
  clears the lock.\<close>

theorem spinlock_progress:
  assumes "lock_reachable s"
  shows "(\<forall>c. phase_of s c = Spinning \<longrightarrow> (\<forall>d. phase_of s d \<noteq> Inside) \<longrightarrow>
      (\<exists>t. lock_step s t \<and> phase_of t c = Inside)) \<and>
    (\<forall>c. phase_of s c = Inside \<longrightarrow> (\<exists>t. lock_step s t \<and> phase_of t c = Outside \<and> lock_word t = 0))"
proof -
  have inv: "lock_inv s" by (rule lock_reachable_inv [OF assms])
  have "\<exists>t. lock_step s t \<and> phase_of t c = Inside"
    if "phase_of s c = Spinning" "\<forall>d. phase_of s d \<noteq> Inside" for c
  proof -
    have "lock_word s = 0" using inv that(2) by (auto simp: lock_inv_def)
    then have "test_and_set (lock_word s) = (False, 1)" by (simp add: test_and_set_def)
    from lock_step.enter [OF that(1) this] show ?thesis by force
  qed
  moreover have "\<exists>t. lock_step s t \<and> phase_of t c = Outside \<and> lock_word t = 0"
    if "phase_of s c = Inside" for c
    using lock_step.leave [OF that] by (force simp: Unlock_def)
  ultimately show ?thesis by blast
qed

theorem spinlock_progress_witness:
  "\<exists>t. lock_step two_cores t \<and> phase_of t True = Outside \<and> lock_word t = 0"
  using spinlock_progress [OF two_cores_reachable] by (auto simp: two_cores_def)

text \<open>The lock is not re-entrant: a processor that takes a free lock and calls Lock again
  before Unlock spins forever.\<close>

lemma spinlock_reentry_hangs:
  "and_then (Lock 0) Lock = Inl (Spins ''Spinlock::Lock'') \<and> and_then (Lock 0) (\<lambda>l. Lock (Unlock l)) = Inr 1"
  by (simp add: Lock_cases Unlock_def)

end
