(* ===== verification/Console.thy ===== *)
theory Console
  imports Framebuffer Serial Spinlock Font
begin

text \<open>
  The console driver, \<^verbatim>\<open>kernel/arch/x86_64/console/console.cpp\<close>, and the panic screen,
  \<^verbatim>\<open>kernel/panic.cpp\<close>: characters on the serial line and the framebuffer, numbers,
  styling tags, formatted strings, and the locked logging calls. A C string is the list of
  its bytes before the terminating NUL; reading at the empty list gives the NUL, and moving
  past it is out of bounds.
\<close>

section \<open>State\<close>

record ConsoleState =
  FontScale :: u64
  ForegroundColor :: RGBColor
  BackgroundColor :: RGBColor

definition default_state :: ConsoleState where
  "default_state = \<lparr>FontScale = 2, ForegroundColor = \<lparr>cR = 255, cG = 255, cB = 255\<rparr>,
     BackgroundColor = \<lparr>cR = 0, cG = 0, cB = 0\<rparr>\<rparr>"

text \<open>
  The globals of the file. \<open>fb_ptr_set\<close> says that \<^verbatim>\<open>fb_ptr\<close> is no longer null (it then
  points to the framebuffer of \<open>gfx\<close>, the only one there is); \<open>stack_bytes\<close> is what the
  two bytes of an uninitialised local buffer hold.
\<close>

record console =
  ConsoleLock :: Spinlock
  IsConsoleReady :: bl
  fb_ptr_set :: bool
  gfx :: graphics
  CursorPosition :: Vector2
  ConsoleConfiguration :: ConsoleState
  con_ports :: ports
  con_mem :: mem
  stack_bytes :: "u8 \<times> u8"

definition MaxFontScale :: u64 where
  "MaxFontScale = 5"

definition MinFontScale :: u64 where
  "MinFontScale = 0"

definition TerminalPallete :: "RGBColor list" where
  "TerminalPallete =
    [\<lparr>cR = 255, cG = 0, cB = 0\<rparr>, \<lparr>cR = 0, cG = 255, cB = 0\<rparr>, \<lparr>cR = 0, cG = 0, cB = 255\<rparr>,
     \<lparr>cR = 0, cG = 0, cB = 0\<rparr>, \<lparr>cR = 255, cG = 255, cB = 255\<rparr>, \<lparr>cR = 0, cG = 189, cB = 252\<rparr>,
     \<lparr>cR = 252, cG = 223, cB = 0\<rparr>, \<lparr>cR = 0, cG = 72, cB = 252\<rparr>]"

definition TerminalPaletteSize :: u64 where
  "TerminalPaletteSize = of_nat (length TerminalPallete)"

section \<open>Characters\<close>

text \<open>One font pixel: a square of \<open>scale\<close> by \<open>scale\<close> screen pixels.\<close>

definition draw_block :: "Framebuffer \<Rightarrow> u64 \<Rightarrow> Vector2 \<Rightarrow> nat \<Rightarrow> nat \<Rightarrow> RGBColor \<Rightarrow> mem \<Rightarrow> mem res" where
  "draw_block fb scale position row col color =
     for_each (\<lambda>dy. for_each (\<lambda>dx.
         DrawPixel fb \<lparr>vx = vx position + of_nat col * scale + of_nat dx,
                       vy = vy position + of_nat row * scale + of_nat dy\<rparr> color)
       [0..<unat scale]) [0..<unat scale]"

definition DrawChar :: "Framebuffer \<Rightarrow> ConsoleState \<Rightarrow> u8 \<Rightarrow> Vector2 \<Rightarrow> mem \<Rightarrow> mem res" where
  "DrawChar fb cfg c position m =
     (if length font8x8_basic \<le> unat c then Inl (OutOfBounds ''font8x8_basic'')
      else
        let glyph = font8x8_basic ! unat c
        in for_each (\<lambda>row. for_each (\<lambda>col.
               if glyph ! row AND push_bit col 1 \<noteq> 0
               then draw_block fb (FontScale cfg) position row col (ForegroundColor cfg)
               else draw_block fb (FontScale cfg) position row col (BackgroundColor cfg))
             [0..<8]) [0..<8] m)"

text \<open>Following \<^verbatim>\<open>fb_ptr\<close>.\<close>

definition fb_deref :: "console \<Rightarrow> Framebuffer res" where
  "fb_deref st = (if fb_ptr_set st then Inr (fb_var (gfx st)) else Inl (PageFault 0))"

definition PrintChar :: "u8 \<Rightarrow> console \<Rightarrow> console res" where
  "PrintChar c st =
     and_then (Serial_PrintChar c (con_ports st)) (\<lambda>ps.
       let st = st\<lparr>con_ports := ps\<rparr>;
           cfg = ConsoleConfiguration st;
           cur = CursorPosition st
       in if c = 10 then Inr (st\<lparr>CursorPosition := \<lparr>vx = 0, vy = vy cur + 1\<rparr>\<rparr>)
          else
            and_then (fb_deref st) (\<lambda>fb.
            and_then (DrawChar fb cfg c
                \<lparr>vx = vx cur * (8 * FontScale cfg), vy = vy cur * (8 * FontScale cfg)\<rparr> (con_mem st)) (\<lambda>m.
              let st = st\<lparr>con_mem := m\<rparr>; x = vx cur + 1
              in if x * (8 * FontScale cfg) \<ge> fb_width fb
                 then Inr (st\<lparr>CursorPosition := \<lparr>vx = 0, vy = vy cur + 1\<rparr>\<rparr>)
                 else Inr (st\<lparr>CursorPosition := \<lparr>vx = x, vy = vy cur\<rparr>\<rparr>))))"

section \<open>Styling tags\<close>

definition peek :: "u8 list \<Rightarrow> u8" where
  "peek s = (case s of [] \<Rightarrow> 0 | c # _ \<Rightarrow> c)"

fun advance :: "u8 list \<Rightarrow> u8 list res" where
  "advance [] = Inl (OutOfBounds ''format string'')"
| "advance (_ # s) = Inr s"

text \<open>
  The scan for the type. The bounds check of the code comes after the write to
  \<^verbatim>\<open>typebuffer\<close>, so the third byte is written out of bounds before it can panic.
\<close>

fun scan_type :: "u8 list \<Rightarrow> u8 list \<Rightarrow> nat \<Rightarrow> (u8 list \<times> u8 list) res" where
  "scan_type [] typebuffer i = Inr ([], typebuffer)"
| "scan_type (c # s) typebuffer i =
     (if c = 44 \<or> c = 0 then Inr (c # s, typebuffer)
      else if i \<ge> 2 then Inl (OutOfBounds ''typebuffer'')
      else scan_type s (typebuffer[i := c]) (i + 1))"

fun skip_tag :: "u8 list \<Rightarrow> u8 list" where
  "skip_tag [] = []"
| "skip_tag (c # s) = (if c = 93 \<or> c = 0 then c # s else skip_tag s)"

fun scan_color :: "u8 list \<Rightarrow> u64 \<Rightarrow> u8 list \<times> u64" where
  "scan_color [] v = ([], v)"
| "scan_color (c # s) v =
     (if c = 93 \<or> c = 0 then (c # s, v)
      else scan_color s (if 48 \<le> c \<and> c \<le> 57 then v * 10 + ucast (c - 48) else v))"

text \<open>The type the two bytes select: 0 = foreground, 1 = background, 2 = clear.\<close>

definition tag_type :: "u8 \<Rightarrow> u8 \<Rightarrow> u8" where
  "tag_type b0 b1 =
     (let ty = (if b0 = 99 then 2 else 0);
          ty = (if b0 \<noteq> 102 \<and> b0 \<noteq> 98 \<and> b1 \<noteq> 103 then (if b0 = 99 then 2 else 0) else ty)
      in if b0 = 102 \<and> b1 = 103 then 0 else if b0 = 98 \<and> b1 = 103 then 1 else ty)"

definition palette_at :: "u64 \<Rightarrow> RGBColor res" where
  "palette_at i =
     (if unat i < length TerminalPallete then Inr (TerminalPallete ! unat i)
      else Inl (OutOfBounds ''TerminalPallete''))"

definition clear_screen :: "Framebuffer \<Rightarrow> RGBColor \<Rightarrow> mem \<Rightarrow> mem res" where
  "clear_screen fb color =
     for_each (\<lambda>hi. for_each (\<lambda>wi. DrawPixel fb \<lparr>vx = of_nat wi, vy = of_nat hi\<rparr> color)
       [0..<unat (fb_width fb)]) [0..<unat (fb_height fb)]"

definition set_foreground :: "RGBColor \<Rightarrow> console \<Rightarrow> console" where
  "set_foreground c st = st\<lparr>ConsoleConfiguration := (ConsoleConfiguration st)\<lparr>ForegroundColor := c\<rparr>\<rparr>"

definition set_background :: "RGBColor \<Rightarrow> console \<Rightarrow> console" where
  "set_background c st = st\<lparr>ConsoleConfiguration := (ConsoleConfiguration st)\<lparr>BackgroundColor := c\<rparr>\<rparr>"

text \<open>Applying the colour to what the type says.\<close>

definition apply_color :: "u8 \<Rightarrow> RGBColor \<Rightarrow> console \<Rightarrow> console res" where
  "apply_color ty color st =
     (if ty = 0 then Inr (set_foreground color st)
      else if ty = 1 then Inr (set_background color st)
      else if ty = 2 then
        and_then (fb_deref st) (\<lambda>fb.
        and_then (clear_screen fb color (con_mem st)) (\<lambda>m.
          Inr (set_background color (st\<lparr>con_mem := m, CursorPosition := \<lparr>vx = 0, vy = 0\<rparr>\<rparr>))))
      else Inr st)"

definition ParseStyling :: "u8 list \<Rightarrow> console \<Rightarrow> (u8 list \<times> console) res" where
  "ParseStyling s st =
     and_then (advance s) (\<lambda>s.
     and_then (advance s) (\<lambda>s.
     and_then (scan_type s [fst (stack_bytes st), snd (stack_bytes st)] 0) (\<lambda>(s, typebuffer).
       if typebuffer ! 0 = 114 then
         and_then (advance (skip_tag s)) (\<lambda>s.
           Inr (s, set_foreground \<lparr>cR = 255, cG = 255, cB = 255\<rparr> (set_background \<lparr>cR = 0, cG = 0, cB = 0\<rparr> st)))
       else
         let ty = tag_type (typebuffer ! 0) (typebuffer ! 1);
             (s, clrvalue) = scan_color s 0
         in and_then (advance s) (\<lambda>s.
            and_then (palette_at (Clamp 0 TerminalPaletteSize clrvalue)) (\<lambda>color.
            and_then (apply_color ty color st) (\<lambda>st. Inr (s, st)))))))"

section \<open>Numbers\<close>

text \<open>The digits go into a local buffer from right to left and are printed backwards.\<close>

definition print_chars :: "u8 list \<Rightarrow> console \<Rightarrow> console res" where
  "print_chars = for_each PrintChar"

function dec_loop :: "u64 \<Rightarrow> u8 list \<Rightarrow> u8 list res" where
  "dec_loop val buffer =
     (if val > 0 then
        if length buffer < 32 then dec_loop (val div 10) (buffer @ [48 + ucast (val mod 10)])
        else Inl (OutOfBounds ''buffer'')
      else Inr buffer)"
  by pat_completeness auto
termination
  by (relation "measure (\<lambda>(val, buffer). unat val)") (simp_all add: word_nat)

definition hex_digit :: "u64 \<Rightarrow> u8" where
  "hex_digit remainder = (if remainder < 10 then 48 + ucast remainder else 65 + (ucast remainder - 10))"

function hex_loop :: "u64 \<Rightarrow> u8 list \<Rightarrow> u8 list res" where
  "hex_loop val buffer =
     (if val > 0 then
        if length buffer < 16 then hex_loop (val div 16) (buffer @ [hex_digit (val mod 16)])
        else Inl (OutOfBounds ''buffer'')
      else Inr buffer)"
  by pat_completeness auto
termination
  by (relation "measure (\<lambda>(val, buffer). unat val)") (simp_all add: word_nat)

declare dec_loop.simps [simp del] hex_loop.simps [simp del]

definition PrintUnsignedInternal :: "u64 \<Rightarrow> console \<Rightarrow> console res" where
  "PrintUnsignedInternal val st =
     (if val = 0 then PrintChar 48 st
      else and_then (dec_loop val []) (\<lambda>buffer. print_chars (rev buffer) st))"

definition PrintHexInternal :: "u64 \<Rightarrow> console \<Rightarrow> console res" where
  "PrintHexInternal val st =
     (if val = 0 then PrintChar 48 st
      else and_then (hex_loop val []) (\<lambda>buffer. print_chars (rev buffer) st))"

section \<open>Formatted strings\<close>

datatype va = VString "u8 list" | VWord u64

fun va_string :: "va list \<Rightarrow> (u8 list \<times> va list) res" where
  "va_string (VString s # args) = Inr (s, args)"
| "va_string _ = Inl (OutOfBounds ''va_list'')"

fun va_word :: "va list \<Rightarrow> (u64 \<times> va list) res" where
  "va_word (VWord w # args) = Inr (w, args)"
| "va_word _ = Inl (OutOfBounds ''va_list'')"

text \<open>The body of the conversion: \<^verbatim>\<open>%s\<close>, \<^verbatim>\<open>%u\<close>, \<^verbatim>\<open>%x\<close>; any other specifier prints nothing.\<close>

definition conversion :: "u8 \<Rightarrow> va list \<Rightarrow> console \<Rightarrow> (va list \<times> console) res" where
  "conversion spec args st =
     (if spec = 115 then
        and_then (va_string args) (\<lambda>(str, args).
          and_then (print_chars (takeWhile (\<lambda>c. c \<noteq> 0) str) st) (\<lambda>st. Inr (args, st)))
      else if spec = 117 then
        and_then (va_word args) (\<lambda>(w, args).
          and_then (PrintUnsignedInternal w st) (\<lambda>st. Inr (args, st)))
      else if spec = 120 then
        and_then (va_word args) (\<lambda>(w, args).
          and_then (PrintHexInternal w st) (\<lambda>st. Inr (args, st)))
      else Inr (args, st))"

definition at_tag :: "u8 list \<Rightarrow> bool" where
  "at_tag s \<longleftrightarrow> peek s = 67 \<and> peek (tl s) = 91"

lemma advance_Inr: "advance s = Inr t \<longleftrightarrow> (\<exists>c. s = c # t)"
  by (cases s) auto

lemma scan_type_length: "scan_type s tb i = Inr (t, tb') \<Longrightarrow> length t \<le> length s"
  by (induction s tb i rule: scan_type.induct) (auto split: if_splits)

lemma skip_tag_length: "length (skip_tag s) \<le> length s"
  by (induction s rule: skip_tag.induct) auto

lemma scan_color_length: "length (fst (scan_color s v)) \<le> length s"
  by (induction s v rule: scan_color.induct) (auto simp: Let_def)

lemma ParseStyling_length:
  assumes "ParseStyling s st = Inr (t, st')"
  shows "length t < length s"
proof -
  from assms obtain s1 s2 u tb where s: "advance s = Inr s1" "advance s1 = Inr s2"
      and u: "scan_type s2 [fst (stack_bytes st), snd (stack_bytes st)] 0 = Inr (u, tb)"
    unfolding ParseStyling_def and_then_eq_Inr by (metis (no_types, lifting) surj_pair)
  have l: "length u < length s"
    using scan_type_length [OF u] s by (auto simp: advance_Inr)
  show ?thesis
  proof (cases "tb ! 0 = 114")
    case True
    then have "advance (skip_tag u) = Inr t" using assms s u by (auto simp: ParseStyling_def and_then_eq_Inr)
    then show ?thesis using l skip_tag_length [of u] by (auto simp: advance_Inr)
  next
    case False
    then have "advance (fst (scan_color u 0)) = Inr t"
      using assms s u by (auto simp: ParseStyling_def and_then_eq_Inr Let_def split: prod.splits)
    then show ?thesis using l scan_color_length [of u 0] by (auto simp: advance_Inr)
  qed
qed

function print_loop :: "u8 list \<Rightarrow> va list \<Rightarrow> console \<Rightarrow> console res" where
  "print_loop s args st =
     (if peek s = 0 then Inr st
      else
        and_then (if at_tag s then ParseStyling s st else Inr (s, st)) (\<lambda>(s', st').
          if peek s' = 37 then
            and_then (advance s') (\<lambda>s1.
            and_then (conversion (peek s1) args st') (\<lambda>(args, st').
            and_then (advance s1) (\<lambda>s2. print_loop s2 args st')))
          else
            and_then (PrintChar (peek s') st') (\<lambda>st'.
            and_then (advance s') (\<lambda>s2. print_loop s2 args st'))))"
  by pat_completeness auto
termination
proof (relation "measure (\<lambda>(s, args, st). length s)")
  fix s :: "u8 list" and st s' st'
  have "length s' \<le> length s"
    if "(if at_tag s then ParseStyling s st else Inr (s, st)) = Inr (s', st')"
    using that ParseStyling_length [of s st s' st'] by (auto split: if_splits)
  note * = this
  show "((s2, args', st2), s, args, st) \<in> measure (\<lambda>(s, args, st). length s)"
    if "(if at_tag s then ParseStyling s st else Inr (s, st)) = Inr x" "(s', st') = x"
      "advance s' = Inr s1" "advance s1 = Inr s2" for x s1 s2 args args' st2
    using * that by (auto simp: advance_Inr)
  show "((s2, args, st2), s, args, st) \<in> measure (\<lambda>(s, args, st). length s)"
    if "(if at_tag s then ParseStyling s st else Inr (s, st)) = Inr x" "(s', st') = x"
      "advance s' = Inr s2" for x s2 args st2
    using * that by (auto simp: advance_Inr)
qed simp

declare print_loop.simps [simp del]

definition Console_Init :: "bool \<Rightarrow> console \<Rightarrow> console res" where
  "Console_Init fb_given st =
     (if truthy (IsConsoleReady st) then Inr st
      else
        and_then (Serial_Init (con_ports st)) (\<lambda>ps.
          let st = st\<lparr>con_ports := ps\<rparr>
          in if fb_given then Inr (st\<lparr>fb_ptr_set := True\<rparr>)
             else Inl (Panic ''Invalid framebuffer pointer passed in!'')))"

text \<open>The first call of PrintStringInternal initialises the console itself.\<close>

definition ensure_ready :: "console \<Rightarrow> console res" where
  "ensure_ready st =
     (if \<not> truthy (IsConsoleReady st) then
        and_then (Console_Init True (st\<lparr>gfx := GetCurrentFramebuffer (gfx st)\<rparr>)) (\<lambda>st.
          Inr (st\<lparr>IsConsoleReady := ktrue\<rparr>))
      else Inr st)"

definition PrintStringInternal :: "u8 list \<Rightarrow> va list \<Rightarrow> console \<Rightarrow> console res" where
  "PrintStringInternal s args st = and_then (ensure_ready st) (print_loop s args)"

section \<open>Locked entry points\<close>

definition take_lock :: "console \<Rightarrow> console res" where
  "take_lock st = and_then (Lock (ConsoleLock st)) (\<lambda>l. Inr (st\<lparr>ConsoleLock := l\<rparr>))"

definition release_lock :: "console \<Rightarrow> console" where
  "release_lock st = st\<lparr>ConsoleLock := Unlock (ConsoleLock st)\<rparr>"

definition EmergencyUnlock :: "console \<Rightarrow> console" where
  "EmergencyUnlock st = st\<lparr>ConsoleLock := Unlock (ConsoleLock st)\<rparr>"

definition PrintString :: "u8 list \<Rightarrow> va list \<Rightarrow> console \<Rightarrow> console res" where
  "PrintString s a st =
     and_then (take_lock st) (\<lambda>st.
     and_then (PrintStringInternal s a st) (\<lambda>st. Inr (release_lock st)))"

text \<open>The four logging calls differ in the coloured word before the message.\<close>

definition log_line :: "u8 list \<Rightarrow> u8 list \<Rightarrow> va list \<Rightarrow> console \<Rightarrow> console res" where
  "log_line prefix s a st =
     and_then (take_lock st) (\<lambda>st.
     and_then (PrintStringInternal prefix [] st) (\<lambda>st.
     and_then (PrintStringInternal s a st) (\<lambda>st.
     and_then (PrintChar 10 st) (\<lambda>st. Inr (release_lock st)))))"

definition INFO :: "u8 list \<Rightarrow> va list \<Rightarrow> console \<Rightarrow> console res" where
  "INFO = log_line (cstr ''C[fg,5]INFOC[r,] '')"

definition Log :: "u8 list \<Rightarrow> va list \<Rightarrow> console \<Rightarrow> console res" where
  "Log = log_line (cstr ''C[fg,6]LOGC[r,] '')"

definition Error :: "u8 list \<Rightarrow> va list \<Rightarrow> console \<Rightarrow> console res" where
  "Error = log_line (cstr ''C[fg,0]LOGC[r,] '')"

definition OK :: "u8 list \<Rightarrow> va list \<Rightarrow> console \<Rightarrow> console res" where
  "OK = log_line (cstr ''C[fg,1]OKC[r,] '')"

section \<open>Configuration\<close>

definition SetFontScale :: "u64 \<Rightarrow> console \<Rightarrow> console" where
  "SetFontScale scale st =
     st\<lparr>ConsoleConfiguration := (ConsoleConfiguration st)\<lparr>FontScale := Clamp MinFontScale MaxFontScale scale\<rparr>\<rparr>"

definition SetConsoleState :: "ConsoleState \<Rightarrow> console \<Rightarrow> console" where
  "SetConsoleState state st = SetFontScale (FontScale state) (st\<lparr>ConsoleConfiguration := state\<rparr>)"

section \<open>The panic screen\<close>

text \<open>Core::Panic up to the halt; the result is the console at which the processor halts.\<close>

definition Panic_screen :: "u8 list \<Rightarrow> va list \<Rightarrow> console \<Rightarrow> console res" where
  "Panic_screen r a st =
     and_then (PrintString (cstr ''IMPROVING IN PROCESS'') [] (EmergencyUnlock st)) (\<lambda>st.
     and_then (PrintStringInternal r a st) (\<lambda>st.
     and_then (PrintChar 10 st) (\<lambda>st.
     PrintString ([10] @ cstr ''========================'' @ [10, 10]) [] st)))"

section \<open>Numbers and their digits\<close>

text \<open>The digits of a number, least significant first, and reading digits back.\<close>

function digits_of :: "nat \<Rightarrow> nat \<Rightarrow> nat list" where
  "digits_of b n = (if b < 2 \<or> n = 0 then [] else n mod b # digits_of b (n div b))"
  by pat_completeness auto
termination
  by (relation "measure snd") auto

declare digits_of.simps [simp del]

lemma digits_of_0 [simp]: "digits_of b 0 = []"
  by (simp add: digits_of.simps)

lemma digit_loops_0 [simp]: "dec_loop 0 buffer = Inr buffer" "hex_loop 0 buffer = Inr buffer"
  by (simp_all add: dec_loop.simps hex_loop.simps)

definition read_digits :: "nat \<Rightarrow> nat list \<Rightarrow> nat" where
  "read_digits b ds = foldl (\<lambda>a d. a * b + d) 0 ds"

lemma read_digits_snoc [simp]: "read_digits b (ds @ [d]) = read_digits b ds * b + d"
  by (simp add: read_digits_def)

lemma read_digits_of: "2 \<le> b \<Longrightarrow> read_digits b (rev (digits_of b n)) = n"
proof (induction b n rule: digits_of.induct)
  case (1 b n)
  show ?case
  proof (cases "n = 0")
    case True
    then show ?thesis by (simp add: digits_of.simps [of b n] read_digits_def)
  next
    case False
    with 1 show ?thesis by (simp add: digits_of.simps [of b n])
  qed
qed

lemma digits_of_less: "2 \<le> b \<Longrightarrow> \<forall>d \<in> set (digits_of b n). d < b"
proof (induction b n rule: digits_of.induct)
  case (1 b n)
  then show ?case by (cases "n = 0") (simp_all add: digits_of.simps [of b n])
qed

lemma length_digits_of: "2 \<le> b \<Longrightarrow> n < b ^ k \<Longrightarrow> length (digits_of b n) \<le> k"
proof (induction k arbitrary: n)
  case 0
  then show ?case by (simp add: digits_of.simps [of b n])
next
  case (Suc k)
  then have "n div b < b ^ k" by (simp add: less_mult_imp_div_less mult.commute)
  with Suc show ?case by (simp add: digits_of.simps [of b n])
qed

lemma digits_of_last: "2 \<le> b \<Longrightarrow> n \<noteq> 0 \<Longrightarrow> digits_of b n \<noteq> [] \<and> last (digits_of b n) \<noteq> 0"
proof (induction b n rule: digits_of.induct)
  case (1 b n)
  show ?case
  proof (cases "n div b = 0")
    case True
    then have "n mod b = n" using 1 by (metis add.left_neutral div_mult_mod_eq mult_zero_left)
    then show ?thesis using 1 True by (simp add: digits_of.simps [of b n] digits_of.simps [of b 0])
  next
    case False
    with 1 show ?thesis by (simp add: digits_of.simps [of b n])
  qed
qed

definition dec_char :: "nat \<Rightarrow> u8" where
  "dec_char d = 48 + of_nat d"

definition hex_char :: "nat \<Rightarrow> u8" where
  "hex_char d = (if d < 10 then 48 + of_nat d else 55 + of_nat d)"

lemma dec_loop_digits:
  "length buffer + length (digits_of 10 (unat v)) \<le> 32 \<Longrightarrow>
   dec_loop v buffer = Inr (buffer @ map dec_char (digits_of 10 (unat v)))"
proof (induction v buffer rule: dec_loop.induct)
  case (1 v buffer)
  show ?case
  proof (cases "v = 0")
    case True
    then show ?thesis by (simp add: dec_loop.simps [of v] digits_of.simps [of 10 0])
  next
    case False
    then have pos: "0 < v" "0 < unat v" by (simp_all add: word_neq_0_conv unat_gt_0)
    then have d: "digits_of 10 (unat v) = unat (v mod 10) # digits_of 10 (unat (v div 10))"
      by (simp add: digits_of.simps [of 10 "unat v"] word_nat)
    have "(48 + ucast (v mod 10) :: u8) = dec_char (unat (v mod 10))"
      by (simp add: dec_char_def)
    then show ?thesis using 1 pos d by (simp add: dec_loop.simps [of v])
  qed
qed

lemma hex_digit_char: "hex_digit (v mod 16) = hex_char (unat (v mod 16))"
proof -
  have "v mod 16 < 10 \<longleftrightarrow> unat (v mod 16) < 10" by (simp add: word_less_nat_alt)
  then show ?thesis by (simp add: hex_digit_def hex_char_def)
qed

lemma hex_loop_digits:
  "length buffer + length (digits_of 16 (unat v)) \<le> 16 \<Longrightarrow>
   hex_loop v buffer = Inr (buffer @ map hex_char (digits_of 16 (unat v)))"
proof (induction v buffer rule: hex_loop.induct)
  case (1 v buffer)
  show ?case
  proof (cases "v = 0")
    case True
    then show ?thesis by (simp add: hex_loop.simps [of v] digits_of.simps [of 16 0])
  next
    case False
    then have pos: "0 < v" "0 < unat v" by (simp_all add: word_neq_0_conv unat_gt_0)
    then have d: "digits_of 16 (unat v) = unat (v mod 16) # digits_of 16 (unat (v div 16))"
      by (simp add: digits_of.simps [of 16 "unat v"] word_nat)
    then show ?thesis using 1 pos d by (simp add: hex_loop.simps [of v] hex_digit_char)
  qed
qed

text \<open>The numeral of a number in base \<open>b\<close>: \<open>0\<close> alone for zero.\<close>

definition numeral_in :: "nat \<Rightarrow> nat \<Rightarrow> nat list" where
  "numeral_in b n = (if n = 0 then [0] else rev (digits_of b n))"

definition decimal :: "u64 \<Rightarrow> u8 list" where
  "decimal v = map dec_char (numeral_in 10 (unat v))"

definition hexadecimal :: "u64 \<Rightarrow> u8 list" where
  "hexadecimal v = map hex_char (numeral_in 16 (unat v))"

lemma PrintUnsignedInternal_decimal: "PrintUnsignedInternal v = print_chars (decimal v)"
proof
  fix st
  have "length (digits_of 10 (unat v)) \<le> 20"
    by (rule length_digits_of) (use unat_u64_lt [of v] in \<open>simp_all del: unat_u64_lt\<close>)
  then show "PrintUnsignedInternal v st = print_chars (decimal v) st"
    using dec_loop_digits [of "[]" v]
    by (auto simp: PrintUnsignedInternal_def decimal_def numeral_in_def print_chars_def dec_char_def
        rev_map unat_eq_0)
qed

lemma PrintHexInternal_hexadecimal: "PrintHexInternal v = print_chars (hexadecimal v)"
proof
  fix st
  have "length (digits_of 16 (unat v)) \<le> 16"
    by (rule length_digits_of) (use unat_u64_lt [of v] in \<open>simp_all del: unat_u64_lt\<close>)
  then show "PrintHexInternal v st = print_chars (hexadecimal v) st"
    using hex_loop_digits [of "[]" v]
    by (auto simp: PrintHexInternal_def hexadecimal_def numeral_in_def print_chars_def hex_char_def
        rev_map unat_eq_0)
qed

end
