(* ===== verification/Console_Output.thy ===== *)
theory Console_Output
  imports Console
begin

text \<open>
  What the console prints: the rendering of a format string as a function of the string
  and its arguments, and the proof that PrintStringInternal sends exactly that through
  PrintChar; numerals; styling tags and where they run off the string; the
  serial transcript; the console lock and the panic screen.
\<close>

section \<open>The rendering of a format string\<close>

text \<open>None when an argument is missing or of the wrong kind, or the string ends in \<open>%\<close>.\<close>

fun render :: "u8 list \<Rightarrow> va list \<Rightarrow> u8 list option" where
  "render [] args = Some []"
| "render (c # s) args =
     (if c = 37 then
        (case s of [] \<Rightarrow> None
         | spec # s' \<Rightarrow>
           if spec = 115 then
             (case args of VString t # args' \<Rightarrow>
                map_option ((@) (takeWhile (\<lambda>c. c \<noteq> 0) t)) (render s' args') | _ \<Rightarrow> None)
           else if spec = 117 then
             (case args of VWord w # args' \<Rightarrow> map_option ((@) (decimal w)) (render s' args') | _ \<Rightarrow> None)
           else if spec = 120 then
             (case args of VWord w # args' \<Rightarrow> map_option ((@) (hexadecimal w)) (render s' args') | _ \<Rightarrow> None)
           else render s' args)
      else map_option (Cons c) (render s args))"

text \<open>A string without NUL and without the start of a tag at any position.\<close>

fun plain :: "u8 list \<Rightarrow> bool" where
  "plain [] \<longleftrightarrow> True"
| "plain (c # s) \<longleftrightarrow> c \<noteq> 0 \<and> \<not> at_tag (c # s) \<and> plain s"

lemma print_chars_Nil [simp]: "print_chars [] st = Inr st"
  by (simp add: print_chars_def)

lemma print_chars_Cons [simp]: "print_chars (c # s) st = and_then (PrintChar c st) (print_chars s)"
  by (simp add: print_chars_def)

lemma print_chars_append: "print_chars (s @ t) st = and_then (print_chars s st) (print_chars t)"
  by (simp add: print_chars_def for_each_append)

lemma peek_simps [simp]: "peek [] = 0" "peek (c # s) = c"
  by (simp_all add: peek_def)

lemma at_tag_Nil [simp]: "\<not> at_tag []"
  by (simp add: at_tag_def)

lemma print_loop_Nil [simp]: "print_loop [] args = Inr"
  by (simp add: fun_eq_iff print_loop.simps [of "[]"])

lemma print_loop_char:
  "c \<noteq> 0 \<Longrightarrow> c \<noteq> 37 \<Longrightarrow> \<not> at_tag (c # s) \<Longrightarrow>
   print_loop (c # s) args st = and_then (PrintChar c st) (print_loop s args)"
  by (simp add: print_loop.simps [of "c # s"])

lemma print_loop_conversion:
  "print_loop (37 # spec # s) args st =
     and_then (conversion spec args st) (\<lambda>(args, st). print_loop s args st)"
  by (simp add: print_loop.simps [of "37 # spec # s"] at_tag_def)

lemma print_loop_percent_end: "print_loop [37] args st = Inl (OutOfBounds ''format string'')"
  by (simp add: print_loop.simps [of "[37]"] at_tag_def conversion_def)

lemma print_loop_render:
  "plain s \<Longrightarrow> render s args = Some out \<Longrightarrow> print_loop s args st = print_chars out st"
proof (induction "length s" arbitrary: s args out st rule: less_induct)
  case less
  show ?case
  proof (cases s)
    case Nil
    then show ?thesis using less.prems by simp
  next
    case (Cons c u)
    show ?thesis
    proof (cases "c = 37")
      case False
      then obtain r where r: "render u args = Some r" "out = c # r" using less.prems(2) Cons by auto
      have "print_loop u args = print_chars r"
        by (rule ext, rule less.hyps) (use less.prems r Cons in auto)
      then show ?thesis using less.prems(1) False Cons r by (simp add: print_loop_char)
    next
      case True
      then obtain spec s' where u: "u = spec # s'" using less.prems(2) Cons by (cases u) auto
      have IH: "print_loop s' args' st' = print_chars r st'" if "render s' args' = Some r" for args' r st'
        by (rule less.hyps [OF _ _ that]) (use less.prems(1) Cons u in auto)
      have s: "print_loop s args st = and_then (conversion spec args st) (\<lambda>(args, st). print_loop s' args st)"
        by (simp add: Cons u True print_loop_conversion)
      have r: "render (37 # spec # s') args = Some out" using less.prems(2) Cons u True by simp
      consider (str) "spec = 115" | (dec) "spec = 117" | (hex) "spec = 120"
        | (other) "spec \<noteq> 115" "spec \<noteq> 117" "spec \<noteq> 120" by blast
      then show ?thesis
      proof cases
        case str
        then obtain t args' r where "args = VString t # args'" "render s' args' = Some r"
            "out = takeWhile (\<lambda>c. c \<noteq> 0) t @ r"
          using r by (auto split: list.splits va.splits)
        then show ?thesis using s str
          by (simp add: IH conversion_def print_chars_append and_then_assoc)
      next
        case dec
        then obtain w args' r where "args = VWord w # args'" "render s' args' = Some r" "out = decimal w @ r"
          using r by (auto split: list.splits va.splits)
        then show ?thesis using s dec
          by (simp add: IH conversion_def print_chars_append and_then_assoc PrintUnsignedInternal_decimal)
      next
        case hex
        then obtain w args' r where "args = VWord w # args'" "render s' args' = Some r" "out = hexadecimal w @ r"
          using r by (auto split: list.splits va.splits)
        then show ?thesis using s hex
          by (simp add: IH conversion_def print_chars_append and_then_assoc PrintHexInternal_hexadecimal)
      next
        case other
        then show ?thesis using s r IH [of args out] by (simp add: conversion_def)
      qed
    qed
  qed
qed

text \<open>Printing a plain prefix before anything else.\<close>

lemma print_loop_prefix:
  "plain s \<Longrightarrow> 37 \<notin> set s \<Longrightarrow> \<not> (s \<noteq> [] \<and> last s = 67 \<and> peek t = 91) \<Longrightarrow>
   print_loop (s @ t) args st = and_then (print_chars s st) (print_loop t args)"
proof (induction s arbitrary: st)
  case Nil
  then show ?case by simp
next
  case (Cons c s)
  have "\<not> at_tag (c # s @ t)"
    using Cons.prems by (cases s) (auto simp: at_tag_def)
  moreover have "\<not> (s \<noteq> [] \<and> last s = 67 \<and> peek t = 91)" using Cons.prems(3) by auto
  ultimately show ?case using Cons by (simp add: print_loop_char and_then_assoc cong: and_then_cong)
qed

section \<open>The parts of the state that printing leaves alone\<close>

lemma PrintChar_lock:
  "PrintChar c (st\<lparr>ConsoleLock := l\<rparr>) = and_then (PrintChar c st) (\<lambda>st. Inr (st\<lparr>ConsoleLock := l\<rparr>))"
proof (cases "Serial_PrintChar c (con_ports st)")
  case (Inr ps)
  let ?cell = "8 * FontScale (ConsoleConfiguration st)"
  show ?thesis
    by (cases "DrawChar (fb_var (gfx st)) (ConsoleConfiguration st) c
        \<lparr>vx = vx (CursorPosition st) * ?cell, vy = vy (CursorPosition st) * ?cell\<rparr> (con_mem st)")
      (simp_all add: Inr PrintChar_def Let_def fb_deref_def)
qed (simp add: PrintChar_def)

lemma print_chars_lock:
  "print_chars s (st\<lparr>ConsoleLock := l\<rparr>) = and_then (print_chars s st) (\<lambda>st. Inr (st\<lparr>ConsoleLock := l\<rparr>))"
  by (induction s arbitrary: st) (simp_all add: PrintChar_lock and_then_assoc cong: and_then_cong)

lemma PrintChar_keeps:
  assumes "PrintChar c st = Inr st'"
  shows "ConsoleLock st' = ConsoleLock st" and "IsConsoleReady st' = IsConsoleReady st"
    and "fb_ptr_set st' = fb_ptr_set st" and "gfx st' = gfx st"
    and "ConsoleConfiguration st' = ConsoleConfiguration st" and "stack_bytes st' = stack_bytes st"
  using assms by (auto simp: PrintChar_def and_then_eq_Inr Let_def split: if_splits)

lemma print_chars_keeps:
  assumes "print_chars s st = Inr st'"
  shows "ConsoleLock st' = ConsoleLock st" and "IsConsoleReady st' = IsConsoleReady st"
    and "fb_ptr_set st' = fb_ptr_set st" and "gfx st' = gfx st"
    and "ConsoleConfiguration st' = ConsoleConfiguration st" and "stack_bytes st' = stack_bytes st"
proof -
  have "ConsoleLock st' = ConsoleLock st \<and> IsConsoleReady st' = IsConsoleReady st \<and>
      fb_ptr_set st' = fb_ptr_set st \<and> gfx st' = gfx st \<and>
      ConsoleConfiguration st' = ConsoleConfiguration st \<and> stack_bytes st' = stack_bytes st"
    using assms
  proof (induction s arbitrary: st)
    case (Cons c s)
    then obtain st1 where "PrintChar c st = Inr st1" "print_chars s st1 = Inr st'"
      by (auto simp: and_then_eq_Inr)
    then show ?case using Cons.IH [of st1] PrintChar_keeps [of c st st1] by simp
  qed simp
  then show "ConsoleLock st' = ConsoleLock st" "IsConsoleReady st' = IsConsoleReady st"
    "fb_ptr_set st' = fb_ptr_set st" "gfx st' = gfx st"
    "ConsoleConfiguration st' = ConsoleConfiguration st" "stack_bytes st' = stack_bytes st" by simp_all
qed

section \<open>The serial transcript\<close>

lemma serial_wait_keeps: "serial_wait s = Some s' \<Longrightarrow> port_in s' = port_in s \<and> port_log s' = port_log s"
proof -
  assume a: "serial_wait s = Some s'"
  from serial_wait_SomeD [OF a] obtain t where "port_now s \<le> t" "uart_ready s t" by blast
  from serial.ends [OF this] a show ?thesis by auto
qed

lemma PrintChar_sent:
  assumes "PrintChar c st = Inr st'"
  shows "sent (con_ports st') = sent (con_ports st) @ [c]"
    and "port_in (con_ports st') = port_in (con_ports st)"
proof -
  obtain ps where "serial_wait (con_ports st) = Some ps" "con_ports st' = outb COM1 c ps"
    using assms
    by (auto simp: PrintChar_def Serial_PrintChar_def and_then_eq_Inr Let_def split: if_splits option.splits)
  then show "sent (con_ports st') = sent (con_ports st) @ [c]"
    "port_in (con_ports st') = port_in (con_ports st)"
    using serial_wait_keeps [of "con_ports st" ps] by (simp_all add: sent_def)
qed

lemma print_chars_sent:
  "print_chars s st = Inr st' \<Longrightarrow>
   sent (con_ports st') = sent (con_ports st) @ s \<and> port_in (con_ports st') = port_in (con_ports st)"
proof (induction s arbitrary: st)
  case (Cons c s)
  then obtain st1 where "PrintChar c st = Inr st1" "print_chars s st1 = Inr st'"
    by (auto simp: and_then_eq_Inr)
  then show ?case using Cons.IH [of st1] PrintChar_sent [of c st st1] by simp
qed simp

section \<open>Tags\<close>

lemma ensure_ready_id: "truthy (IsConsoleReady st) \<Longrightarrow> ensure_ready st = Inr st"
  by (simp add: ensure_ready_def)

lemma PrintStringInternal_ready:
  "truthy (IsConsoleReady st) \<Longrightarrow> PrintStringInternal s args st = print_loop s args st"
  by (simp add: PrintStringInternal_def ensure_ready_id)

lemma scan_color_digits:
  "\<forall>d \<in> set ds. d < 10 \<Longrightarrow>
   scan_color (map dec_char ds @ 93 # t) v = (93 # t, fold (\<lambda>d v. v * 10 + of_nat d) ds v)"
proof (induction ds arbitrary: v)
  case (Cons d ds)
  have d: "d \<in> {0, 1, 2, 3, 4, 5, 6, 7, 8, 9}" using Cons.prems by auto
  then have "48 \<le> dec_char d \<and> dec_char d \<le> 57 \<and> dec_char d \<noteq> 93 \<and> dec_char d \<noteq> 0 \<and>
      (ucast (dec_char d - 48) :: u64) = of_nat d"
    by (auto simp: dec_char_def)
  then show ?case using Cons by simp
qed simp

text \<open>The tag \<^verbatim>\<open>C[fg,N]\<close> or \<^verbatim>\<open>C[bg,N]\<close>.\<close>

definition color_tag :: "u8 \<Rightarrow> nat list \<Rightarrow> u8 list" where
  "color_tag letter ds = [67, 91, letter, 103, 44] @ map dec_char ds @ [93]"

lemma ParseStyling_color:
  assumes "letter = 102 \<or> letter = 98" and "\<forall>d \<in> set ds. d < 10"
  shows "ParseStyling (color_tag letter ds @ t) st =
    and_then (palette_at (Clamp 0 TerminalPaletteSize (fold (\<lambda>d v. v * 10 + of_nat d) ds 0))) (\<lambda>c.
      Inr (t, (if letter = 102 then set_foreground c st else set_background c st)))"
proof -
  have "scan_color (44 # map dec_char ds @ 93 # t) 0 = (93 # t, fold (\<lambda>d v. v * 10 + of_nat d) ds 0)"
    using scan_color_digits [OF assms(2)] by simp
  then show ?thesis
    using assms(1) by (auto simp: ParseStyling_def color_tag_def tag_type_def apply_color_def)
qed

text \<open>The tag that restores the default colours.\<close>

definition default_colors :: "console \<Rightarrow> console" where
  "default_colors st = set_foreground \<lparr>cR = 255, cG = 255, cB = 255\<rparr> (set_background \<lparr>cR = 0, cG = 0, cB = 0\<rparr> st)"

lemma ParseStyling_reset:
  "ParseStyling ([67, 91, 114, 44, 93] @ t) st = Inr (t, default_colors st)"
  by (simp add: ParseStyling_def default_colors_def)

lemma print_loop_tag:
  assumes "at_tag s" and "ParseStyling s st = Inr (c # t, st')" and "c \<noteq> 37"
  shows "print_loop s args st = and_then (PrintChar c st') (print_loop t args)"
proof -
  have "peek s \<noteq> 0" using assms(1) by (auto simp: at_tag_def)
  then show ?thesis using assms by (simp add: print_loop.simps [of s])
qed

lemma print_loop_tag_end:
  assumes "at_tag s" and "ParseStyling s st = Inr ([], st')"
  shows "print_loop s args st = and_then (PrintChar 0 st') (\<lambda>_. Inl (OutOfBounds ''format string''))"
proof -
  have "peek s \<noteq> 0" using assms(1) by (auto simp: at_tag_def)
  then show ?thesis using assms by (simp add: print_loop.simps [of s])
qed

section \<open>The lock and the logging calls\<close>

lemma print_chars_unlocked:
  assumes "ConsoleLock st = 0"
  shows "and_then (print_chars s (st\<lparr>ConsoleLock := l\<rparr>)) (\<lambda>st. Inr (release_lock st)) = print_chars s st"
proof -
  have "and_then (print_chars s (st\<lparr>ConsoleLock := l\<rparr>)) (\<lambda>st. Inr (release_lock st)) =
      and_then (print_chars s st) (\<lambda>st. Inr (st\<lparr>ConsoleLock := 0\<rparr>))"
    by (simp add: print_chars_lock and_then_assoc release_lock_def Unlock_def)
  also have "\<dots> = and_then (print_chars s st) Inr"
    by (intro and_then_cong refl) (use print_chars_keeps(1) assms in fastforce)
  finally show ?thesis by simp
qed

lemma take_lock_free: "ConsoleLock st = 0 \<Longrightarrow> take_lock st = Inr (st\<lparr>ConsoleLock := 1\<rparr>)"
  by (simp add: take_lock_def Lock_cases)

lemma take_lock_held: "ConsoleLock st \<noteq> 0 \<Longrightarrow> take_lock st = Inl (Spins ''Spinlock::Lock'')"
  by (simp add: take_lock_def Lock_cases)

lemma PrintString_render:
  assumes "ConsoleLock st = 0" "truthy (IsConsoleReady st)" "plain s" "render s args = Some out"
  shows "PrintString s args st = print_chars out st"
  using print_loop_render [OF assms(3,4)] print_chars_unlocked [OF assms(1)]
  by (simp add: PrintString_def take_lock_free assms PrintStringInternal_ready)

lemma set_foreground_lock: "set_foreground c (st\<lparr>ConsoleLock := l\<rparr>) = (set_foreground c st)\<lparr>ConsoleLock := l\<rparr>"
  by (simp add: set_foreground_def)

lemma default_colors_lock: "default_colors (st\<lparr>ConsoleLock := l\<rparr>) = (default_colors st)\<lparr>ConsoleLock := l\<rparr>"
  by (simp add: default_colors_def set_foreground_def set_background_def)

lemma styled_fields [simp]:
  "ConsoleLock (set_foreground c st) = ConsoleLock st" "ConsoleLock (default_colors st) = ConsoleLock st"
  "IsConsoleReady (set_foreground c st) = IsConsoleReady st"
  "IsConsoleReady (default_colors st) = IsConsoleReady st"
  by (simp_all add: default_colors_def set_foreground_def set_background_def)

text \<open>The prefix of a logging call: a colour tag, the word, the reset tag, a space.\<close>

definition log_prefix :: "nat \<Rightarrow> u8 list \<Rightarrow> u8 list" where
  "log_prefix d word = color_tag 102 [d] @ word @ [67, 91, 114, 44, 93, 32]"

lemma palette_small:
  "d < 8 \<Longrightarrow> palette_at (Clamp 0 TerminalPaletteSize (of_nat d)) = Inr (TerminalPallete ! d)"
proof -
  assume "d < 8"
  then have "d \<in> {0, 1, 2, 3, 4, 5, 6, 7}" by auto
  then show ?thesis by (auto simp: palette_at_def Clamp_def TerminalPaletteSize_def TerminalPallete_def)
qed

lemma print_loop_log_prefix:
  assumes "d < 8" "plain (a # w)" "37 \<notin> set (a # w)"
  shows "print_loop (log_prefix d (a # w)) [] st =
    and_then (print_chars (a # w) (set_foreground (TerminalPallete ! d) st)) (\<lambda>st.
      PrintChar 32 (default_colors st))"
proof -
  let ?c = "TerminalPallete ! d" and ?r = "[67, 91, 114, 44, 93, 32] :: u8 list"
  have tag: "at_tag (log_prefix d (a # w))" "at_tag ?r"
    by (simp_all add: log_prefix_def color_tag_def at_tag_def)
  have "ParseStyling (log_prefix d (a # w)) st = Inr (a # w @ ?r, set_foreground ?c st)"
    using ParseStyling_color [of 102 "[d]" "(a # w) @ ?r"] assms(1) palette_small [OF assms(1)]
    by (simp add: log_prefix_def)
  then have "print_loop (log_prefix d (a # w)) [] st =
      and_then (PrintChar a (set_foreground ?c st)) (print_loop (w @ ?r) [])"
    by (rule print_loop_tag [OF tag(1)]) (use assms(3) in auto)
  also have "print_loop (w @ ?r) [] = (\<lambda>st. and_then (print_chars w st) (print_loop ?r []))"
    by (rule ext, rule print_loop_prefix) (use assms in auto)
  also have "print_loop ?r [] = (\<lambda>st. PrintChar 32 (default_colors st))"
  proof
    fix st
    have "ParseStyling ?r st = Inr ([32], default_colors st)" using ParseStyling_reset [of "[32]"] by simp
    from print_loop_tag [OF tag(2) this] show "print_loop ?r [] st = PrintChar 32 (default_colors st)" by simp
  qed
  finally show ?thesis by (simp add: and_then_assoc)
qed

lemma log_line_result:
  assumes "d < 8" "plain (a # w)" "37 \<notin> set (a # w)"
    and st: "ConsoleLock st = 0" "truthy (IsConsoleReady st)" and s: "plain s" "render s args = Some out"
  shows "log_line (log_prefix d (a # w)) s args st =
    and_then (print_chars (a # w) (set_foreground (TerminalPallete ! d) st)) (\<lambda>st.
      print_chars ([32] @ out @ [10]) (default_colors st))"
proof -
  let ?st = "set_foreground (TerminalPallete ! d) st"
  have body: "and_then (PrintStringInternal s args st1) (\<lambda>st. and_then (PrintChar 10 st) f) =
      and_then (print_chars (out @ [10]) st1) f" if "truthy (IsConsoleReady st1)" for st1 f
    using that by (simp add: PrintStringInternal_ready print_loop_render [OF s] print_chars_append and_then_assoc)
  have "log_line (log_prefix d (a # w)) s args st =
      and_then (print_chars (a # w) (?st\<lparr>ConsoleLock := 1\<rparr>)) (\<lambda>st1.
      and_then (PrintChar 32 (default_colors st1)) (\<lambda>st2.
      and_then (PrintStringInternal s args st2) (\<lambda>st3.
      and_then (PrintChar 10 st3) (\<lambda>st4. Inr (release_lock st4)))))"
    using st by (simp add: log_line_def take_lock_free PrintStringInternal_ready
        print_loop_log_prefix [OF assms(1-3)] and_then_assoc set_foreground_lock)
  also have "\<dots> = and_then (print_chars (a # w) (?st\<lparr>ConsoleLock := 1\<rparr>)) (\<lambda>st1.
      and_then (PrintChar 32 (default_colors st1)) (\<lambda>st2.
      and_then (print_chars (out @ [10]) st2) (\<lambda>st4. Inr (release_lock st4))))"
  proof (rule and_then_cong [OF refl], rule and_then_cong [OF refl], rule body)
    fix st1 st2
    assume "print_chars (a # w) (?st\<lparr>ConsoleLock := 1\<rparr>) = Inr st1" "PrintChar 32 (default_colors st1) = Inr st2"
    then show "truthy (IsConsoleReady st2)" using print_chars_keeps(2) PrintChar_keeps(2) st(2) by fastforce
  qed
  also have "\<dots> = and_then (print_chars (a # w) ?st) (\<lambda>st1.
      and_then (print_chars ([32] @ out @ [10]) ((default_colors st1)\<lparr>ConsoleLock := 1\<rparr>)) (\<lambda>st4. Inr (release_lock st4)))"
    by (simp add: print_chars_lock [of "a # w"] and_then_assoc default_colors_lock del: print_chars_Cons)
      (simp add: and_then_assoc)
  also have "\<dots> = and_then (print_chars (a # w) ?st) (\<lambda>st1. print_chars ([32] @ out @ [10]) (default_colors st1))"
  proof (rule and_then_cong [OF refl], rule print_chars_unlocked)
    fix st1 assume "print_chars (a # w) ?st = Inr st1"
    then show "ConsoleLock (default_colors st1) = 0" using print_chars_keeps(1) st(1) by fastforce
  qed
  finally show ?thesis .
qed

section \<open>A console to evaluate on\<close>

text \<open>Ready and unlocked, the serial line ready, and a font scale of 0, so that nothing is drawn.\<close>

definition text_console :: console where
  "text_console = \<lparr>ConsoleLock = 0, IsConsoleReady = ktrue, fb_ptr_set = True,
     gfx = \<lparr>fb_ready = ktrue, fb_var = small_fb, framebuffer_response = None\<rparr>,
     CursorPosition = \<lparr>vx = 0, vy = 0\<rparr>, ConsoleConfiguration = default_state\<lparr>FontScale := 0\<rparr>,
     con_ports = \<lparr>port_in = (\<lambda>_ _. 0x20), port_now = 0, port_log = []\<rparr>,
     con_mem = Map.empty, stack_bytes = (0, 0)\<rparr>"

section \<open>Properties\<close>

text \<open>C9: a string with conversions but without styling tags is printed as its rendering: each \<open>%s\<close>,
  \<open>%u\<close>, \<open>%x\<close> replaced by its argument. When the call returns, exactly
  these bytes went to the serial line and the lock is free again.\<close>

theorem PrintString_prints_rendering:
  assumes "ConsoleLock st = 0" and "truthy (IsConsoleReady st)" and "plain s" and "render s args = Some out"
  shows "PrintString s args st = print_chars out st \<and>
    (\<forall>st'. PrintString s args st = Inr st' \<longrightarrow>
       sent (con_ports st') = sent (con_ports st) @ out \<and> ConsoleLock st' = 0)"
  using PrintString_render [OF assms] print_chars_sent print_chars_keeps(1) assms(1) by fastforce

theorem PrintString_prints_rendering_witness:
  "PrintString (cstr ''at %x'') [VWord 0xBEEF] text_console = print_chars (cstr ''at BEEF'') text_console"
proof -
  have h: "hexadecimal 0xBEEF = cstr ''BEEF''"
    by (simp add: hexadecimal_def numeral_in_def digits_of.simps hex_char_def)
  have "render (cstr ''at %x'') [VWord 0xBEEF] = Some (cstr ''at BEEF'')" by (simp add: h)
  then show ?thesis
    using PrintString_prints_rendering [of text_console "cstr ''at %x''" "[VWord 0xBEEF]"]
    by (simp add: text_console_def at_tag_def)
qed

text \<open>C27: \<open>%u\<close> prints the number's decimal numeral: at most 20 digits, no leading zero, and
  reading the digits back gives the number. The 32-byte buffer never overflows.\<close>

theorem PrintUnsigned_decimal:
  "\<exists>ds. PrintUnsignedInternal v = print_chars (map dec_char ds) \<and> read_digits 10 ds = unat v \<and>
    set ds \<subseteq> {..<10} \<and> length ds \<le> 20 \<and> (hd ds = 0) = (ds = [0])"
proof (intro exI conjI)
  let ?ds = "numeral_in 10 (unat v)"
  show "PrintUnsignedInternal v = print_chars (map dec_char ?ds)"
    by (simp add: PrintUnsignedInternal_decimal decimal_def)
  show "read_digits 10 ?ds = unat v" "set ?ds \<subseteq> {..<10}"
    using read_digits_of [of 10] digits_of_less [of 10] by (auto simp: numeral_in_def read_digits_def)
  have "length (digits_of 10 (unat v)) \<le> 20"
    by (rule length_digits_of) (use unat_u64_lt [of v] in \<open>simp_all del: unat_u64_lt\<close>)
  then show "length ?ds \<le> 20" by (simp add: numeral_in_def)
  show "(hd ?ds = 0) = (?ds = [0])"
    using digits_of_last [of 10 "unat v"] by (auto simp: numeral_in_def hd_rev)
qed

text \<open>\<open>%x\<close> prints the number's hexadecimal numeral, at most 16 digits with capital letters and no
  leading zero; reading it back gives the number, and the 16-byte buffer is exactly
  large enough.\<close>

lemma PrintHex_hexadecimal:
  "\<exists>ds. PrintHexInternal v = print_chars (map hex_char ds) \<and> read_digits 16 ds = unat v \<and>
    set ds \<subseteq> {..<16} \<and> length ds \<le> 16 \<and> (hd ds = 0) = (ds = [0])"
proof (intro exI conjI)
  let ?ds = "numeral_in 16 (unat v)"
  show "PrintHexInternal v = print_chars (map hex_char ?ds)"
    by (simp add: PrintHexInternal_hexadecimal hexadecimal_def)
  show "read_digits 16 ?ds = unat v" "set ?ds \<subseteq> {..<16}"
    using read_digits_of [of 16] digits_of_less [of 16] by (auto simp: numeral_in_def read_digits_def)
  have "length (digits_of 16 (unat v)) \<le> 16"
    by (rule length_digits_of) (use unat_u64_lt [of v] in \<open>simp_all del: unat_u64_lt\<close>)
  then show "length ?ds \<le> 16" by (simp add: numeral_in_def)
  show "(hd ?ds = 0) = (?ds = [0])"
    using digits_of_last [of 16 "unat v"] by (auto simp: numeral_in_def hd_rev)
qed

text \<open>INFO prints the word INFO in cyan, then a space, the rendered message and a newline in the
  default colours, and leaves the lock free; Error does the same in red, but with the word LOG where
  its comment says ERR.\<close>

lemma log_call_output:
  assumes "ConsoleLock st = 0" and "truthy (IsConsoleReady st)" and "plain s" and "render s args = Some out"
  shows "INFO s args st =
      and_then (print_chars (cstr ''INFO'') (set_foreground \<lparr>cR = 0, cG = 189, cB = 252\<rparr> st)) (\<lambda>st.
        print_chars ([32] @ out @ [10]) (default_colors st)) \<and>
    Error s args st =
      and_then (print_chars (cstr ''LOG'') (set_foreground \<lparr>cR = 255, cG = 0, cB = 0\<rparr> st)) (\<lambda>st.
        print_chars ([32] @ out @ [10]) (default_colors st))"
proof -
  have "INFO = log_line (log_prefix 5 [73, 78, 70, 79])" "Error = log_line (log_prefix 0 [76, 79, 71])"
    by (simp_all add: INFO_def Error_def log_prefix_def color_tag_def dec_char_def)
  moreover have "TerminalPallete ! 5 = \<lparr>cR = 0, cG = 189, cB = 252\<rparr>" "TerminalPallete ! 0 = \<lparr>cR = 255, cG = 0, cB = 0\<rparr>"
    by (simp_all add: TerminalPallete_def)
  moreover have "plain [73, 78, 70, 79]" "plain [76, 79, 71]" by (simp_all add: at_tag_def)
  ultimately show ?thesis
    using log_line_result [of 5 73 "[78, 70, 79]" st s args out]
      log_line_result [of 0 76 "[79, 71]" st s args out] assms by simp
qed

lemma log_call_output_witness:
  "Error (cstr ''x'') [] text_console =
     and_then (print_chars (cstr ''LOG'') (set_foreground \<lparr>cR = 255, cG = 0, cB = 0\<rparr> text_console)) (\<lambda>st.
       print_chars (cstr '' x'' @ [10]) (default_colors st))"
  using log_call_output [of text_console "cstr ''x''" "[]" "cstr ''x''"]
  by (simp add: text_console_def at_tag_def)

text \<open>A colour tag with a decimal number up to 7 sets the foreground or background to that
  palette entry and continues after the closing bracket; any larger number is
  clamped to 8 and reads one entry past the end of the palette.\<close>

lemma color_tag_palette:
  assumes "letter = 102 \<or> letter = 98" and "set ds \<subseteq> {..<10}" and "read_digits 10 ds < 2 ^ 64"
  shows "ParseStyling (color_tag letter ds @ t) st =
    (if read_digits 10 ds \<le> 7
     then Inr (t, if letter = 102 then set_foreground (TerminalPallete ! read_digits 10 ds) st
                  else set_background (TerminalPallete ! read_digits 10 ds) st)
     else Inl (OutOfBounds ''TerminalPallete''))"
proof -
  let ?n = "read_digits 10 ds"
  have f: "fold (\<lambda>d v. v * 10 + of_nat d) ds (of_nat v) = (of_nat (foldl (\<lambda>a d. a * 10 + d) v ds) :: u64)" for v
  proof (induction ds arbitrary: v)
    case (Cons d ds)
    from Cons.IH [of "v * 10 + d"] show ?case by simp
  qed simp
  have p: "palette_at (Clamp 0 TerminalPaletteSize (of_nat ?n)) = Inl (OutOfBounds ''TerminalPallete'')"
    if "7 < ?n"
  proof -
    have "Clamp 0 TerminalPaletteSize (of_nat ?n) = 8"
      using that assms(3)
      by (simp add: Clamp_def TerminalPaletteSize_def TerminalPallete_def word_less_nat_alt unat_of_nat64 word_unat_eq_iff)
    then show ?thesis by (simp add: palette_at_def TerminalPallete_def)
  qed
  have "ParseStyling (color_tag letter ds @ t) st =
      and_then (palette_at (Clamp 0 TerminalPaletteSize (of_nat ?n))) (\<lambda>c.
        Inr (t, (if letter = 102 then set_foreground c st else set_background c st)))"
    using ParseStyling_color [OF assms(1), of ds t st] assms(2) f [of 0] by (auto simp: read_digits_def)
  then show ?thesis using p palette_small [of ?n] by auto
qed

lemma color_tag_palette_witness:
  "ParseStyling (color_tag 102 [3] @ []) text_console = Inr ([], set_foreground \<lparr>cR = 0, cG = 0, cB = 0\<rparr> text_console) \<and>
   ParseStyling (color_tag 98 [1, 2] @ []) text_console = Inl (OutOfBounds ''TerminalPallete'')"
  using color_tag_palette [of 102 "[3]" "[]" text_console] color_tag_palette [of 98 "[1, 2]" "[]" text_console]
  by (simp add: read_digits_def TerminalPallete_def)

text \<open>The text after a tag is printed without another look at it. So a string that ends in a
  tag prints its terminating NUL and runs past it, and a tag right after a tag is printed as text.\<close>

lemma text_after_tag:
  assumes "plain s" and "37 \<notin> set s"
  shows "print_loop (s @ cstr ''C[r,]'') args st =
      and_then (print_chars s st) (\<lambda>st. and_then (PrintChar 0 (default_colors st)) (\<lambda>_.
        Inl (OutOfBounds ''format string''))) \<and>
    print_loop (s @ cstr ''C[r,]C['' @ t) args st =
      and_then (print_chars s st) (\<lambda>st. and_then (PrintChar 67 (default_colors st)) (print_loop (cstr ''['' @ t) args))"
proof -
  let ?r = "[67, 91, 114, 44, 93] :: u8 list"
  have r: "cstr ''C[r,]'' = ?r" "cstr ''C[r,]C['' @ t = ?r @ 67 # 91 # t" "cstr ''['' @ t = 91 # t"
    by simp_all
  have tag: "at_tag (?r @ u)" for u by (simp add: at_tag_def)
  have "print_loop (?r @ []) args st1 =
      and_then (PrintChar 0 (default_colors st1)) (\<lambda>_. Inl (OutOfBounds ''format string''))" for st1
    by (rule print_loop_tag_end [OF tag ParseStyling_reset])
  moreover have "print_loop (?r @ 67 # 91 # t) args st1 =
      and_then (PrintChar 67 (default_colors st1)) (print_loop (91 # t) args)" for st1
    by (rule print_loop_tag [OF tag ParseStyling_reset]) simp
  moreover have "print_loop (s @ ?r @ u) args st = and_then (print_chars s st) (print_loop (?r @ u) args)" for u
    by (rule print_loop_prefix) (use assms in auto)
  ultimately show ?thesis unfolding r by (metis (no_types, lifting) append_Nil2 and_then_cong)
qed

lemma text_after_tag_witness:
  "print_loop (cstr ''ok'' @ cstr ''C[r,]'') [] text_console =
     and_then (print_chars (cstr ''ok'') text_console) (\<lambda>st. and_then (PrintChar 0 (default_colors st)) (\<lambda>_.
       Inl (OutOfBounds ''format string'')))"
  using text_after_tag [of "cstr ''ok''" "[]" text_console] by (simp add: at_tag_def)

text \<open>A tag whose type has three or more characters writes past the two-byte type buffer before
  the check that was meant to panic is reached.\<close>

lemma tag_type_overruns_buffer:
  assumes "a \<notin> {0, 44}" and "b \<notin> {0, 44}" and "c \<notin> {0, 44}"
  shows "ParseStyling (cstr ''C['' @ [a, b, c] @ t) st = Inl (OutOfBounds ''typebuffer'')"
  using assms by (simp add: ParseStyling_def)

lemma tag_type_overruns_buffer_witness:
  "ParseStyling (cstr ''C['' @ [102, 103, 32] @ cstr '',1]x'') text_console = Inl (OutOfBounds ''typebuffer'')"
  by (rule tag_type_overruns_buffer) simp_all

text \<open>The panic screen, whatever the state of the lock.\<close>

lemma Panic_screen_render:
  assumes "truthy (IsConsoleReady st)" and "plain r" and "render r args = Some out"
  shows "Panic_screen r args st =
      print_chars (cstr ''IMPROVING IN PROCESS'' @ out @ [10, 10] @ cstr ''========================'' @ [10, 10])
        (st\<lparr>ConsoleLock := 0\<rparr>)"
proof -
  let ?u = "st\<lparr>ConsoleLock := 0\<rparr>" and ?i = "cstr ''IMPROVING IN PROCESS''"
    and ?e = "[10] @ cstr ''========================'' @ [10, 10]"
  have i: "plain ?i" "render ?i [] = Some ?i" and e: "plain ?e" "render ?e [] = Some ?e"
    by (simp_all add: at_tag_def)
  have u: "ConsoleLock ?u = 0" "truthy (IsConsoleReady ?u)" using assms(1) by simp_all
  have l: "?i @ out @ [10, 10] @ cstr ''========================'' @ [10, 10] = ?i @ (out @ [10]) @ ?e"
    by (simp only: append_assoc append.simps)
  have "Panic_screen r args st =
      and_then (print_chars ?i ?u) (\<lambda>st1. and_then (print_chars (out @ [10]) st1) (\<lambda>st2. print_chars ?e st2))"
    unfolding Panic_screen_def EmergencyUnlock_def Unlock_def PrintString_render [OF u i]
  proof (rule and_then_cong [OF refl])
    fix st1 assume st1: "print_chars ?i ?u = Inr st1"
    then have r1: "ConsoleLock st1 = 0" "truthy (IsConsoleReady st1)" using print_chars_keeps(1,2) u by fastforce+
    have "and_then (print_chars (out @ [10]) st1) (PrintString ?e []) = and_then (print_chars (out @ [10]) st1) (print_chars ?e)"
    proof (rule and_then_cong [OF refl])
      fix st2 assume "print_chars (out @ [10]) st1 = Inr st2"
      then have "ConsoleLock st2 = 0" "truthy (IsConsoleReady st2)" using print_chars_keeps(1,2) r1 by fastforce+
      then show "PrintString ?e [] st2 = print_chars ?e st2" using PrintString_render e by blast
    qed
    then show "and_then (PrintStringInternal r args st1) (\<lambda>st. and_then (PrintChar 10 st) (PrintString ?e [])) =
        and_then (print_chars (out @ [10]) st1) (\<lambda>st2. print_chars ?e st2)"
      using r1 by (simp add: PrintStringInternal_ready print_loop_render [OF assms(2,3)] print_chars_append and_then_assoc
          del: print_chars_Cons) (simp add: and_then_assoc)
  qed
  then show "Panic_screen r args st = print_chars (?i @ out @ [10, 10] @ cstr ''========================'' @ [10, 10]) ?u"
    unfolding l print_chars_append [of ?i] print_chars_append [of "out @ [10]"] .
qed

text \<open>C36: a print call while the console lock is held never returns, but the panic screen does not
  depend on the lock: it frees it first, prints its frame and the rendered message, and leaves it free.\<close>

theorem Panic_ignores_lock:
  assumes "truthy (IsConsoleReady st)" and "plain r" and "render r args = Some out" and "ConsoleLock st \<noteq> 0"
  shows "PrintString r args st = Inl (Spins ''Spinlock::Lock'') \<and>
    Panic_screen r args st =
      print_chars (cstr ''IMPROVING IN PROCESS'' @ out @ [10, 10] @ cstr ''========================'' @ [10, 10])
        (st\<lparr>ConsoleLock := 0\<rparr>)"
  by (simp add: PrintString_def take_lock_held assms(4) Panic_screen_render [OF assms(1-3)])

theorem Panic_ignores_lock_witness:
  "PrintString (cstr ''x'') [] (text_console\<lparr>ConsoleLock := 1\<rparr>) = Inl (Spins ''Spinlock::Lock'')"
  using Panic_ignores_lock [of "text_console\<lparr>ConsoleLock := 1\<rparr>" "cstr ''x''" "[]" "cstr ''x''"]
  by (simp add: text_console_def at_tag_def)

end
