(* ===== verification/Interrupts.thy ===== *)
theory Interrupts
  imports Console_Output Apic
begin

text \<open>
  Interrupt dispatch, \<^verbatim>\<open>cpu/int.cpp\<close>: the table of handlers for the external interrupts,
  its registration, the handler of external interrupts and that of processor exceptions. Handlers are
  code addresses; what runs at an address is a parameter of the dispatcher.
\<close>

section \<open>State\<close>

record interrupt_frame =
  fr_r15 :: u64  fr_r14 :: u64  fr_r13 :: u64  fr_r12 :: u64  fr_r11 :: u64  fr_r10 :: u64  fr_r9 :: u64  fr_r8 :: u64
  fr_rbp :: u64  fr_rdi :: u64  fr_rsi :: u64  fr_rdx :: u64  fr_rcx :: u64  fr_rbx :: u64  fr_rax :: u64
  int_no :: u64
  error_code :: u64
  fr_rip :: u64  fr_cs :: u64  fr_rflags :: u64

text \<open>The console, the processor, the handler table, the address of the I/O APIC and the keyboard's shift flag.\<close>

record kernel =
  k_console :: console
  k_cpu :: cpu
  ExternalInterruptHandlers :: "u64 list"
  k_ioapic :: u64
  shift :: bl

definition ISRNames :: "string list" where
  "ISRNames =
    [''Divide By Zero Exception'', ''Debug Exception'', ''Non-Maskable Interrupt'', ''Breakpoint Exception'',
     ''Overflow Exception'', ''Bound Range Exceeded'', ''Invalid Opcode'', ''Device Not Available'',
     ''Double Fault'', ''Coprocessor Segment Overrun'', ''Invalid TSS'', ''Segment Not Present'',
     ''Stack-Segment Fault'', ''General Protection Fault'', ''Page Fault'', ''Reserved'',
     ''x87 Floating-Point Exception'', ''Alignment Check'', ''Machine Check'', ''SIMD Floating-Point Exception'',
     ''Virtualization Exception'', ''Control Protection Exception'', ''Reserved'', ''Reserved'',
     ''Reserved'', ''Reserved'', ''Reserved'', ''Reserved'',
     ''Hypervisor Injection Exception'', ''VMM Communication Exception'', ''Security Exception'', ''Reserved'']"

section \<open>Code\<close>

text \<open>
  Meant as a 32-bit read at gs:0; but in the operand order of the assembler the instruction stores the register of the result, which nothing has
  set before (\<open>junk\<close>), to gs:0. That value is then returned. No code of the kernel calls it.
\<close>

definition GetCoreIDViaGS :: "u32 \<Rightarrow> mem \<Rightarrow> cpu \<Rightarrow> (u32 \<times> mem) res" where
  "GetCoreIDViaGS junk m c = and_then (store32 m (msr c IA32_GS_BASE + 0) junk) (\<lambda>m. Inr (junk, m))"

text \<open>So it overwrites the processor's own number, the first member of the core context, and never reads it.\<close>

lemma GetCoreIDViaGS_destroys:
  assumes "GetCoreIDViaGS junk m c = Inr (i, m')"
  shows "i = junk \<and> load32 m' (msr c IA32_GS_BASE) = Inr junk"
  using assms dword.ld_st by (auto simp: GetCoreIDViaGS_def and_then_eq_Inr)

text \<open>\<^verbatim>\<open>Core::Halt\<close>: interrupts off, then the processor stops for good.\<close>

definition Halt :: "kernel \<Rightarrow> kernel" where
  "Halt k = k\<lparr>k_cpu := cli (k_cpu k)\<rparr>"

text \<open>The result is the state in which the panic halts.\<close>

definition ISRHandler :: "interrupt_frame \<Rightarrow> kernel \<Rightarrow> kernel res" where
  "ISRHandler int_frame k =
     (let CoreID = (0 :: u64)
      in if length ISRNames \<le> unat (int_no int_frame) then Inl (OutOfBounds ''ISRNames'')
         else and_then (Panic_screen (cstr ''Core %u has encountered a %s'')
                  [VWord CoreID, VString (cstr (ISRNames ! unat (int_no int_frame)))] (k_console k)) (\<lambda>c.
              Inr (Halt (k\<lparr>k_console := c\<rparr>))))"

definition LogFromIRQ :: "u8 list \<Rightarrow> va list \<Rightarrow> kernel \<Rightarrow> kernel res" where
  "LogFromIRQ fmt args k =
     and_then (PrintStringInternal fmt args (k_console k)) (\<lambda>c. Inr (k\<lparr>k_console := c\<rparr>))"

definition RegisterInterrupt :: "u64 \<Rightarrow> u64 \<Rightarrow> kernel \<Rightarrow> kernel res" where
  "RegisterInterrupt int_num hnd k =
     (if int_num > 256 then LogFromIRQ (cstr ''CPU::Intterupts::RegisterInterrupt: The x86_64 arch cannot register an interrupt higher than 256, provided id: %u'') [VWord int_num] k
      else if int_num < 31 then LogFromIRQ (cstr ''CPU::Intterupts::RegisterInterrupt: The x86_64 arch cannot register an interrupt lower than 31, provided id: %u'') [VWord int_num] k
      else if hnd = 0 then LogFromIRQ (cstr ''CPU::Intterupts::RegisterInterrupt: Invalid handler function pointer for interrupt %u, handler %x'') [VWord int_num, VWord hnd] k
      else if length (ExternalInterruptHandlers k) \<le> unat (int_num - 32) then Inl (OutOfBounds ''ExternalInterruptHandlers'')
      else Inr (k\<lparr>ExternalInterruptHandlers := (ExternalInterruptHandlers k)[unat (int_num - 32) := hnd]\<rparr>))"

text \<open>\<open>call a\<close> is the code at address \<open>a\<close>.\<close>

definition IRQHandler :: "(u64 \<Rightarrow> interrupt_frame \<Rightarrow> kernel \<Rightarrow> kernel res) \<Rightarrow> interrupt_frame \<Rightarrow> kernel \<Rightarrow> kernel res" where
  "IRQHandler call int_frame k =
     (let i = int_no int_frame - 32
      in if length (ExternalInterruptHandlers k) \<le> unat i then Inl (OutOfBounds ''ExternalInterruptHandlers'')
         else
           and_then
             (if ExternalInterruptHandlers k ! unat i \<noteq> 0 then call (ExternalInterruptHandlers k ! unat i) int_frame k
              else if int_no int_frame = 32 then Inr k
              else and_then (INFO (cstr ''No interrupt handler registered for interrupt %u'') [VWord (int_no int_frame)] (k_console k))
                     (\<lambda>c. Inr (k\<lparr>k_console := c\<rparr>)))
             (\<lambda>k. Inr (k\<lparr>k_cpu := SendEOI (k_ioapic k) (k_cpu k)\<rparr>)))"

section \<open>The handler table\<close>

definition table_ok :: "kernel \<Rightarrow> bool" where
  "table_ok k \<longleftrightarrow> length (ExternalInterruptHandlers k) = 32"

text \<open>Interrupts 32 to 63 with a handler that is not null.\<close>

lemma RegisterInterrupt_in_range:
  assumes "table_ok k" and "i < 32" and "h \<noteq> 0"
  shows "RegisterInterrupt (32 + of_nat i) h k =
    Inr (k\<lparr>ExternalInterruptHandlers := (ExternalInterruptHandlers k)[i := h]\<rparr>)"
proof -
  have u: "unat (32 + of_nat i :: u64) = 32 + i" using assms(2) by (simp add: unat_word_ariths unat_of_nat64)
  then have "\<not> 256 < (32 + of_nat i :: u64)" "\<not> (32 + of_nat i :: u64) < 31" using assms(2) by (simp_all add: word_less_nat_alt)
  moreover have "unat (32 + of_nat i - 32 :: u64) = i" using assms(2) by (simp add: unat_of_nat64)
  ultimately show ?thesis using assms by (simp add: RegisterInterrupt_def table_ok_def)
qed

interpretation handlers: slots 32 "\<lambda>i. RegisterInterrupt (32 + of_nat i)" "\<lambda>k i. ExternalInterruptHandlers k ! i"
  "\<lambda>h. h" table_ok "\<lambda>h. h \<noteq> 0"
  by unfold_locales (use RegisterInterrupt_in_range in \<open>auto simp: table_ok_def\<close>)

section \<open>Properties\<close>

text \<open>A kernel for the witnesses: the text console, and nothing registered.\<close>

definition kernel0 :: kernel where
  "kernel0 = \<lparr>k_console = text_console, k_cpu = cpu0, ExternalInterruptHandlers = replicate 32 0,
     k_ioapic = 0xFED00000, shift = 0\<rparr>"

text \<open>C20: once RegisterInterrupt has stored handlers for distinct interrupts 32 to 63, each of these interrupts is dispatched
  to its own handler, once, followed by the two end-of-interrupt signals.\<close>

theorem registered_handler_runs:
  assumes "table_ok k" and "distinct is" and "\<forall>i \<in> set is. i < 32 \<and> h i \<noteq> 0" and "j \<in> set is"
    and "int_no fr = 32 + of_nat j"
  shows "\<exists>k'. for_each (\<lambda>i. RegisterInterrupt (32 + of_nat i) (h i)) is k = Inr k' \<and>
    IRQHandler call fr k' = and_then (call (h j) fr k') (\<lambda>k. Inr (k\<lparr>k_cpu := SendEOI (k_ioapic k) (k_cpu k)\<rparr>))"
proof -
  obtain k' where k': "for_each (\<lambda>i. RegisterInterrupt (32 + of_nat i) (h i)) is k = Inr k'" "table_ok k'"
      "\<forall>i. ExternalInterruptHandlers k' ! i = (if i \<in> set is then h i else ExternalInterruptHandlers k ! i)"
    using handlers.fill [OF assms(1,2,3)] by blast
  have j: "j < 32" "h j \<noteq> 0" using assms(3,4) by auto
  then have "unat (int_no fr - 32) = j" using assms(5) by (simp add: unat_of_nat64)
  then have "IRQHandler call fr k' = and_then (call (h j) fr k') (\<lambda>k. Inr (k\<lparr>k_cpu := SendEOI (k_ioapic k) (k_cpu k)\<rparr>))"
    using k'(2,3) assms(4) j by (simp add: IRQHandler_def table_ok_def Let_def)
  then show ?thesis using k'(1) by blast
qed

definition frame_of :: "u64 \<Rightarrow> interrupt_frame" where
  "frame_of n = \<lparr>fr_r15 = 0, fr_r14 = 0, fr_r13 = 0, fr_r12 = 0, fr_r11 = 0, fr_r10 = 0, fr_r9 = 0, fr_r8 = 0,
     fr_rbp = 0, fr_rdi = 0, fr_rsi = 0, fr_rdx = 0, fr_rcx = 0, fr_rbx = 0, fr_rax = 0,
     int_no = n, error_code = 0, fr_rip = 0, fr_cs = 8, fr_rflags = 0\<rparr>"

theorem registered_handler_runs_witness:
  "\<exists>k'. for_each (\<lambda>i. RegisterInterrupt (32 + of_nat i) (0x1000 + of_nat i)) [1, 4] kernel0 = Inr k' \<and>
    IRQHandler (\<lambda>a fr k. if a = 0x1004 then Inr (k\<lparr>shift := 7\<rparr>) else Inl (Panic ''wrong handler'')) (frame_of 36) k' =
      Inr (k'\<lparr>shift := 7, k_cpu := SendEOI (k_ioapic k') (k_cpu k')\<rparr>)"
proof -
  have "table_ok kernel0" by (simp add: kernel0_def table_ok_def)
  from registered_handler_runs [OF this, of "[1, 4]" "\<lambda>i. 0x1000 + of_nat i" 4 "frame_of 36"
      "\<lambda>a fr k. if a = 0x1004 then Inr (k\<lparr>shift := 7\<rparr>) else Inl (Panic ''wrong handler'')"]
  show ?thesis by (auto simp: frame_of_def)
qed

text \<open>C39: the range check of RegisterInterrupt does not match its table of 32: interrupt 31 and interrupts 64 to 256
  pass it and are stored outside the table.\<close>

theorem RegisterInterrupt_range:
  assumes "table_ok k" and "h \<noteq> 0" and "31 \<le> unat n" and "unat n \<le> 256"
  shows "RegisterInterrupt n h k = (if 32 \<le> unat n \<and> unat n < 64
    then Inr (k\<lparr>ExternalInterruptHandlers := (ExternalInterruptHandlers k)[unat n - 32 := h]\<rparr>)
    else Inl (OutOfBounds ''ExternalInterruptHandlers''))"
proof -
  have g: "\<not> 256 < n" "\<not> n < 31" using assms(3,4) by (simp_all add: word_less_nat_alt)
  have r: "RegisterInterrupt n h k = (if 32 \<le> unat (n - 32) then Inl (OutOfBounds ''ExternalInterruptHandlers'')
      else Inr (k\<lparr>ExternalInterruptHandlers := (ExternalInterruptHandlers k)[unat (n - 32) := h]\<rparr>))"
    using g assms(1,2) by (simp add: RegisterInterrupt_def table_ok_def)
  show ?thesis
  proof (cases "32 \<le> unat n")
    case True
    then have "unat (n - 32) = unat n - 32" by (simp add: unat_sub word_le_nat_alt)
    then show ?thesis using True r by auto
  next
    case False
    then have "n = 31" using assms(3) by (simp add: word_unat_eq_iff)
    moreover have "unat (31 - 32 :: u64) = 18446744073709551615"
      by (simp add: unsigned_minus_1_eq_mask mask_eq_exp_minus_1)
    ultimately show ?thesis using r by simp
  qed
qed

theorem RegisterInterrupt_range_witness:
  "RegisterInterrupt 31 0x1000 kernel0 = Inl (OutOfBounds ''ExternalInterruptHandlers'') \<and>
   RegisterInterrupt 64 0x1000 kernel0 = Inl (OutOfBounds ''ExternalInterruptHandlers'')"
  using RegisterInterrupt_range [of kernel0 "0x1000" 31] RegisterInterrupt_range [of kernel0 "0x1000" 64]
  by (simp add: kernel0_def table_ok_def)

text \<open>C38: an interrupt without a handler that arrives while the interrupted code holds the console lock hangs the processor:
  the dispatcher prints with the locked call and never gets to the end-of-interrupt signal. The timer interrupt is exempt.\<close>

theorem unhandled_interrupt_hangs:
  assumes "table_ok k" and "ConsoleLock (k_console k) \<noteq> 0" and "i < 32" and "ExternalInterruptHandlers k ! i = 0"
    and "int_no fr = 32 + of_nat i"
  shows "IRQHandler call fr k = (if i = 0 then Inr (k\<lparr>k_cpu := SendEOI (k_ioapic k) (k_cpu k)\<rparr>) else Inl (Spins ''Spinlock::Lock''))"
proof -
  have u: "unat (int_no fr - 32) = i" using assms(3,5) by (simp add: unat_of_nat64)
  have e: "int_no fr = 32 \<longleftrightarrow> i = 0" using assms(3,5) u by auto
  have "INFO s a (k_console k) = Inl (Spins ''Spinlock::Lock'')" for s a
    using take_lock_held [OF assms(2)] by (simp add: INFO_def log_line_def)
  then show ?thesis using u e assms(1,3,4) by (auto simp: IRQHandler_def table_ok_def Let_def)
qed

theorem unhandled_interrupt_hangs_witness:
  "IRQHandler (\<lambda>_ _ k. Inr k) (frame_of 33) (kernel0\<lparr>k_console := text_console\<lparr>ConsoleLock := 1\<rparr>\<rparr>) = Inl (Spins ''Spinlock::Lock'')"
  using unhandled_interrupt_hangs [of "kernel0\<lparr>k_console := text_console\<lparr>ConsoleLock := 1\<rparr>\<rparr>" 1 "frame_of 33" "\<lambda>_ _ k. Inr k"]
  by (simp add: kernel0_def table_ok_def frame_of_def)

text \<open>A processor exception prints the panic screen with the exception's own name, also when the interrupted code holds the
  console lock, and stops with interrupts off. (The core number printed is always 0.)\<close>

lemma ISRHandler_names_exception:
  assumes "unat (int_no fr) < 32" and "truthy (IsConsoleReady (k_console k))"
  shows "ISRHandler fr k = and_then (print_chars
      (cstr ''IMPROVING IN PROCESS'' @ cstr ''Core 0 has encountered a '' @ cstr (ISRNames ! unat (int_no fr)) @ [10, 10] @
       cstr ''========================'' @ [10, 10]) (k_console k\<lparr>ConsoleLock := 0\<rparr>)) (\<lambda>c.
    Inr (k\<lparr>k_console := c, k_cpu := cli (k_cpu k)\<rparr>))"
proof -
  let ?n = "cstr (ISRNames ! unat (int_no fr))"
  have len: "length ISRNames = 32" by (simp add: ISRNames_def)
  have names: "list_all (\<lambda>s. list_all (\<lambda>c. c \<noteq> 0) (cstr s)) ISRNames" by (simp add: ISRNames_def)
  then have nz: "takeWhile (\<lambda>c. c \<noteq> 0) ?n = ?n"
    using assms(1) len by (simp add: list_all_length takeWhile_eq_all_conv list_all_iff [symmetric])
  have z: "decimal 0 = [48]" by (simp add: decimal_def numeral_in_def digits_of.simps dec_char_def)
  have "render (cstr ''Core %u has encountered a %s'') [VWord 0, VString ?n] =
      Some (cstr ''Core 0 has encountered a '' @ ?n)"
    by (simp add: nz z)
  from Panic_screen_render [OF assms(2) _ this]
  show ?thesis using len assms(1) by (simp add: ISRHandler_def Halt_def at_tag_def)
qed

lemma ISRHandler_names_exception_witness:
  "ISRHandler (frame_of 14) (kernel0\<lparr>k_console := text_console\<lparr>ConsoleLock := 1\<rparr>\<rparr>) = and_then (print_chars
      (cstr ''IMPROVING IN PROCESS'' @ cstr ''Core 0 has encountered a '' @ cstr ''Page Fault'' @ [10, 10] @
       cstr ''========================'' @ [10, 10]) text_console) (\<lambda>c.
    Inr (kernel0\<lparr>k_console := c, k_cpu := cli cpu0\<rparr>))"
  using ISRHandler_names_exception [of "frame_of 14" "kernel0\<lparr>k_console := text_console\<lparr>ConsoleLock := 1\<rparr>\<rparr>"]
  by (simp add: frame_of_def kernel0_def text_console_def ISRNames_def)

end
