(* ===== verification/Console_Screen.thy ===== *)
theory Console_Screen
  imports Console
begin

text \<open>
  What the console draws: a character fills its cell with the glyph and touches no
  other pixel, the clear-screen loop fills the screen, and how the cursor moves: it wraps at the right edge,
  but nothing stops it at the bottom one.
\<close>

section \<open>A character cell\<close>

text \<open>The square of eight font pixels at a position, and the colour of each of its font pixels.\<close>

definition in_cell :: "nat \<Rightarrow> Vector2 \<Rightarrow> Vector2 \<Rightarrow> bool" where
  "in_cell s pos p \<longleftrightarrow>
     unat (vx pos) \<le> unat (vx p) \<and> unat (vx p) < unat (vx pos) + 8 * s \<and>
     unat (vy pos) \<le> unat (vy p) \<and> unat (vy p) < unat (vy pos) + 8 * s"

definition glyph_color :: "ConsoleState \<Rightarrow> u8 \<Rightarrow> nat \<Rightarrow> nat \<Rightarrow> RGBColor" where
  "glyph_color cfg c row col =
     (if bit (font8x8_basic ! unat c ! row) col then ForegroundColor cfg else BackgroundColor cfg)"

definition cell_fits :: "Framebuffer \<Rightarrow> nat \<Rightarrow> Vector2 \<Rightarrow> bool" where
  "cell_fits fb s pos \<longleftrightarrow>
     unat (vx pos) + 8 * s \<le> unat (fb_width fb) \<and> unat (vy pos) + 8 * s \<le> unat (fb_height fb)"

text \<open>The loops as one loop over (row, column) and (dy, dx).\<close>

definition glyph_indices :: "nat \<Rightarrow> ((nat \<times> nat) \<times> (nat \<times> nat)) list" where
  "glyph_indices s = List.product (List.product [0..<8] [0..<8]) (List.product [0..<s] [0..<s])"

definition glyph_point :: "u64 \<Rightarrow> Vector2 \<Rightarrow> (nat \<times> nat) \<times> (nat \<times> nat) \<Rightarrow> Vector2" where
  "glyph_point scale pos = (\<lambda>((row, col), (dy, dx)).
     \<lparr>vx = vx pos + of_nat col * scale + of_nat dx, vy = vy pos + of_nat row * scale + of_nat dy\<rparr>)"

lemma DrawChar_loop:
  assumes "unat c < 128"
  shows "DrawChar fb cfg c pos m =
    for_each (\<lambda>i. DrawPixel fb (glyph_point (FontScale cfg) pos i) (glyph_color cfg c (fst (fst i)) (snd (fst i))))
      (glyph_indices (unat (FontScale cfg))) m"
proof -
  let ?s = "unat (FontScale cfg)"
  have block: "draw_block fb (FontScale cfg) pos row col k =
      for_each (\<lambda>d. DrawPixel fb (glyph_point (FontScale cfg) pos ((row, col), d)) k)
        (List.product [0..<?s] [0..<?s])" for row col k
    by (simp add: fun_eq_iff draw_block_def for_each_product glyph_point_def case_prod_unfold)
  have cell: "(if font8x8_basic ! unat c ! row AND push_bit col 1 \<noteq> 0
      then draw_block fb (FontScale cfg) pos row col (ForegroundColor cfg)
      else draw_block fb (FontScale cfg) pos row col (BackgroundColor cfg)) =
      for_each (\<lambda>d. DrawPixel fb (glyph_point (FontScale cfg) pos ((row, col), d)) (glyph_color cfg c row col))
        (List.product [0..<?s] [0..<?s])" for row col
    by (simp add: block glyph_color_def bit_iff_and_push_bit_not_eq_0)
  let ?F = "\<lambda>rc d. DrawPixel fb (glyph_point (FontScale cfg) pos (rc, d)) (glyph_color cfg c (fst rc) (snd rc))"
  let ?D = "List.product [0..<?s] [0..<?s]"
  have "DrawChar fb cfg c pos m =
      for_each (\<lambda>row. for_each (\<lambda>col. for_each (?F (row, col)) ?D) [0..<8]) [0..<8] m"
    using assms unfolding DrawChar_def Let_def cell by (simp add: case_prod_unfold)
  also have "\<dots> = for_each (\<lambda>rc. for_each (?F rc) ?D) (List.product [0..<8] [0..<8]) m"
    using for_each_product [of "\<lambda>row col. for_each (?F (row, col)) ?D"] by (simp add: case_prod_unfold)
  also have "\<dots> = for_each (\<lambda>(rc, d). ?F rc d) (glyph_indices ?s) m"
    by (simp add: for_each_product glyph_indices_def)
  finally show ?thesis by (simp add: case_prod_unfold)
qed

lemma glyph_index_iff:
  "((row, col), (dy, dx)) \<in> set (glyph_indices s) \<longleftrightarrow> row < 8 \<and> col < 8 \<and> dy < s \<and> dx < s"
  by (auto simp: glyph_indices_def)

lemma glyph_point_unat:
  assumes "cell_fits fb (unat scale) pos" and "((row, col), (dy, dx)) \<in> set (glyph_indices (unat scale))"
  shows "unat (vx (glyph_point scale pos ((row, col), (dy, dx)))) = unat (vx pos) + (col * unat scale + dx)"
    and "unat (vy (glyph_point scale pos ((row, col), (dy, dx)))) = unat (vy pos) + (row * unat scale + dy)"
    and "col * unat scale + dx < 8 * unat scale" and "row * unat scale + dy < 8 * unat scale"
proof -
  have i: "row < 8" "col < 8" "dy < unat scale" "dx < unat scale"
    using assms(2) by (simp_all add: glyph_index_iff)
  have b: "k * unat scale + j < 8 * unat scale" if "k < 8" "j < unat scale" for k j
  proof -
    have "Suc k * unat scale \<le> 8 * unat scale" by (rule mult_le_mono1) (use that in simp)
    then show ?thesis using that(2) unfolding mult_Suc by linarith
  qed
  then show "col * unat scale + dx < 8 * unat scale" "row * unat scale + dy < 8 * unat scale"
    using i by blast+
  have lim: "unat (fb_width fb) < 2 ^ 64" "unat (fb_height fb) < 2 ^ 64" by simp_all
  have eq: "x + of_nat k * scale + of_nat j = x + of_nat (k * unat scale + j)" for x :: u64 and k j
    by simp
  have "unat (vx pos) + (col * unat scale + dx) < 2 ^ 64" "unat (vy pos) + (row * unat scale + dy) < 2 ^ 64"
    using b [OF i(2,4)] b [OF i(1,3)] assms(1) lim unfolding cell_fits_def by linarith+
  then show "unat (vx (glyph_point scale pos ((row, col), (dy, dx)))) = unat (vx pos) + (col * unat scale + dx)"
    and "unat (vy (glyph_point scale pos ((row, col), (dy, dx)))) = unat (vy pos) + (row * unat scale + dy)"
    unfolding glyph_point_def by (simp_all only: prod.case Vector2.simps eq unat_add_of_nat64)
qed

lemma glyph_points_inj:
  assumes "cell_fits fb (unat scale) pos"
  shows "inj_on (glyph_point scale pos) (set (glyph_indices (unat scale)))"
proof (rule inj_onI)
  fix i j
  assume ij: "i \<in> set (glyph_indices (unat scale))" "j \<in> set (glyph_indices (unat scale))"
    and eq: "glyph_point scale pos i = glyph_point scale pos j"
  obtain r c dy dx r' c' dy' dx' where i: "i = ((r, c), (dy, dx))" and j: "j = ((r', c'), (dy', dx'))"
    by (metis surj_pair)
  have d: "dy < unat scale" "dx < unat scale" "dy' < unat scale" "dx' < unat scale"
    using ij by (simp_all add: i j glyph_index_iff)
  have "c * unat scale + dx = c' * unat scale + dx'" "r * unat scale + dy = r' * unat scale + dy'"
    using eq glyph_point_unat(1,2) [OF assms] ij unfolding i j by (metis add_left_cancel)+
  then have "(c * unat scale + dx) div unat scale = (c' * unat scale + dx') div unat scale"
    "(c * unat scale + dx) mod unat scale = (c' * unat scale + dx') mod unat scale"
    "(r * unat scale + dy) div unat scale = (r' * unat scale + dy') div unat scale"
    "(r * unat scale + dy) mod unat scale = (r' * unat scale + dy') mod unat scale" by simp_all
  then show "i = j" using d by (simp add: i j)
qed

lemma DrawChar_cell:
  assumes ok: "fb_ok fb m" and c: "unat c < 128" and fits: "cell_fits fb (unat (FontScale cfg)) pos"
  shows "\<exists>m'. DrawChar fb cfg c pos m = Inr m' \<and> fb_ok fb m' \<and> fb_frame fb m m' \<and>
    (\<forall>p. on_screen fb p \<longrightarrow> pixel fb m' p =
       (if in_cell (unat (FontScale cfg)) pos p
        then Inr (MakeColor fb (glyph_color cfg c ((unat (vy p) - unat (vy pos)) div unat (FontScale cfg))
                                                  ((unat (vx p) - unat (vx pos)) div unat (FontScale cfg))))
        else pixel fb m p))"
proof -
  let ?s = "unat (FontScale cfg)" and ?pt = "glyph_point (FontScale cfg) pos"
  let ?is = "glyph_indices ?s" and ?col = "\<lambda>i. glyph_color cfg c (fst (fst i)) (snd (fst i))"
  note pt = glyph_point_unat [OF fits]
  have inside: "on_screen fb (?pt i)" "in_cell ?s pos (?pt i)" if "i \<in> set ?is" for i
  proof -
    obtain r k dy dx where i: "i = ((r, k), (dy, dx))" by (metis surj_pair)
    show "on_screen fb (?pt i)" "in_cell ?s pos (?pt i)"
      using pt [OF that [unfolded i]] fits unfolding i
      by (simp_all add: on_screen_def in_cell_def cell_fits_def word_less_nat_alt)
  qed
  have "distinct ?is" by (simp add: glyph_indices_def distinct_product)
  from screen.paint_loop [OF ok inside(1) this glyph_points_inj [OF fits], of ?col]
  obtain m' where m': "for_each (\<lambda>i. DrawPixel fb (?pt i) (?col i)) ?is m = Inr m'" "fb_ok fb m'" "fb_frame fb m m'"
      "\<forall>i \<in> set ?is. pixel fb m' (?pt i) = Inr (MakeColor fb (?col i))"
      "\<forall>q. on_screen fb q \<longrightarrow> q \<notin> ?pt ` set ?is \<longrightarrow> pixel fb m' q = pixel fb m q" by blast
  have "\<exists>i \<in> set ?is. p = ?pt i \<and> fst i = ((unat (vy p) - unat (vy pos)) div ?s, (unat (vx p) - unat (vx pos)) div ?s)"
    if "in_cell ?s pos p" for p
  proof -
    let ?y = "unat (vy p) - unat (vy pos)" and ?x = "unat (vx p) - unat (vx pos)"
    let ?i = "((?y div ?s, ?x div ?s), (?y mod ?s, ?x mod ?s))"
    have xy: "?x < 8 * ?s" "?y < 8 * ?s" "unat (vx p) = unat (vx pos) + ?x" "unat (vy p) = unat (vy pos) + ?y"
      using that unfolding in_cell_def by linarith+
    then have "0 < ?s" by linarith
    then have i: "?i \<in> set ?is" using xy(1,2) by (simp add: glyph_index_iff less_mult_imp_div_less)
    have "p = ?pt ?i"
      using pt(1,2) [OF i] xy(3,4) by (cases p; cases "?pt ?i") (simp add: word_unat_eq_iff)
    then show ?thesis using i by (intro bexI [of _ ?i]) simp_all
  qed
  then have "pixel fb m' p = (if in_cell ?s pos p
        then Inr (MakeColor fb (glyph_color cfg c ((unat (vy p) - unat (vy pos)) div ?s) ((unat (vx p) - unat (vx pos)) div ?s)))
        else pixel fb m p)" if "on_screen fb p" for p
    using that m'(4,5) inside(2) by fastforce
  then show ?thesis using m' DrawChar_loop [OF c] by auto
qed

section \<open>Printing a character\<close>

text \<open>The side of a cell in pixels, and the pixel position of the cursor.\<close>

definition cell_size :: "console \<Rightarrow> nat" where
  "cell_size st = 8 * unat (FontScale (ConsoleConfiguration st))"

definition cursor_pos :: "console \<Rightarrow> Vector2" where
  "cursor_pos st = \<lparr>vx = vx (CursorPosition st) * (8 * FontScale (ConsoleConfiguration st)),
                    vy = vy (CursorPosition st) * (8 * FontScale (ConsoleConfiguration st))\<rparr>"

text \<open>A console that can draw: a framebuffer it may use, a live serial line, a scale of 1 to 5.\<close>

definition console_ok :: "console \<Rightarrow> bool" where
  "console_ok st \<longleftrightarrow> fb_ptr_set st \<and> fb_ok (fb_var (gfx st)) (con_mem st) \<and> uart_alive (con_ports st) \<and>
     1 \<le> unat (FontScale (ConsoleConfiguration st)) \<and> unat (FontScale (ConsoleConfiguration st)) \<le> 5"

text \<open>The cursor's cell lies on the screen.\<close>

definition cursor_fits :: "console \<Rightarrow> bool" where
  "cursor_fits st \<longleftrightarrow>
     (unat (vx (CursorPosition st)) + 1) * cell_size st \<le> unat (fb_width (fb_var (gfx st))) \<and>
     (unat (vy (CursorPosition st)) + 1) * cell_size st \<le> unat (fb_height (fb_var (gfx st)))"

lemma unat_cell:
  assumes "unat k * (8 * unat scale) < 2 ^ 64" and "unat scale \<le> 5"
  shows "unat (k * (8 * scale) :: u64) = unat k * (8 * unat scale)"
proof -
  have "unat (8 * scale) = 8 * unat scale" using assms(2) by (simp add: unat_word_ariths)
  then show ?thesis using assms(1) by (simp add: unat_word_ariths)
qed

lemma cursor_pos_unat:
  assumes "console_ok st" and "cursor_fits st"
  shows "unat (vx (cursor_pos st)) = unat (vx (CursorPosition st)) * cell_size st"
    and "unat (vy (cursor_pos st)) = unat (vy (CursorPosition st)) * cell_size st"
    and "cell_fits (fb_var (gfx st)) (unat (FontScale (ConsoleConfiguration st))) (cursor_pos st)"
proof -
  let ?fb = "fb_var (gfx st)"
  have f: "unat (vx (CursorPosition st)) * cell_size st + cell_size st \<le> unat (fb_width ?fb)"
    "unat (vy (CursorPosition st)) * cell_size st + cell_size st \<le> unat (fb_height ?fb)"
    using assms(2) by (simp_all add: cursor_fits_def)
  moreover have "unat (fb_width ?fb) < 2 ^ 64" "unat (fb_height ?fb) < 2 ^ 64" by simp_all
  ultimately have "unat (vx (CursorPosition st)) * cell_size st < 2 ^ 64"
    "unat (vy (CursorPosition st)) * cell_size st < 2 ^ 64" by linarith+
  then show u: "unat (vx (cursor_pos st)) = unat (vx (CursorPosition st)) * cell_size st"
    "unat (vy (cursor_pos st)) = unat (vy (CursorPosition st)) * cell_size st"
    using assms(1) by (simp_all add: cursor_pos_def cell_size_def console_ok_def unat_cell)
  show "cell_fits ?fb (unat (FontScale (ConsoleConfiguration st))) (cursor_pos st)"
    using f u by (simp add: cell_fits_def cell_size_def)
qed

text \<open>Where the cursor goes after a character other than a newline.\<close>

definition cursor_next :: "console \<Rightarrow> Vector2" where
  "cursor_next st =
     (let cur = CursorPosition st
      in if (unat (vx cur) + 1) * cell_size st \<ge> unat (fb_width (fb_var (gfx st)))
         then \<lparr>vx = 0, vy = vy cur + 1\<rparr> else \<lparr>vx = vx cur + 1, vy = vy cur\<rparr>)"

lemma PrintChar_at_cursor:
  assumes ok: "console_ok st" and fits: "cursor_fits st" and c: "unat c < 128" "c \<noteq> 10"
  shows "\<exists>st' n m'. PrintChar c st = Inr st' \<and>
    DrawChar (fb_var (gfx st)) (ConsoleConfiguration st) c (cursor_pos st) (con_mem st) = Inr m' \<and>
    st' = st\<lparr>con_ports := outb COM1 c (con_ports st\<lparr>port_now := n\<rparr>), con_mem := m', CursorPosition := cursor_next st\<rparr>"
proof -
  let ?fb = "fb_var (gfx st)" and ?cfg = "ConsoleConfiguration st" and ?cur = "CursorPosition st"
  obtain n where n: "Serial_PrintChar c (con_ports st) = Inr (outb COM1 c (con_ports st\<lparr>port_now := n\<rparr>))"
    using Serial_PrintChar_alive ok by (auto simp: console_ok_def)
  obtain m' where m': "DrawChar ?fb ?cfg c (cursor_pos st) (con_mem st) = Inr m'"
    using DrawChar_cell [OF _ c(1) cursor_pos_unat(3) [OF ok fits]] ok by (auto simp: console_ok_def)
  have x1: "(unat (vx ?cur) + 1) * cell_size st \<le> unat (fb_width ?fb)" using fits by (simp add: cursor_fits_def)
  have pos: "1 \<le> cell_size st" using ok by (simp add: cell_size_def console_ok_def)
  have w: "unat (fb_width ?fb) < 2 ^ 64" by simp
  have "unat (vx ?cur) + 1 \<le> (unat (vx ?cur) + 1) * cell_size st"
    using mult_le_mono2 [OF pos, of "unat (vx ?cur) + 1"] by simp
  then have "unat (vx ?cur) + unat (1 :: u64) < 2 ^ 64" using x1 w unfolding unsigned_1 by linarith
  then have u1: "unat (vx ?cur + 1) = unat (vx ?cur) + 1" by (simp add: unat_add64)
  then have "unat ((vx ?cur + 1) * (8 * FontScale ?cfg)) = (unat (vx ?cur) + 1) * cell_size st"
    using le_less_trans [OF x1 w] ok unat_cell [of "vx ?cur + 1" "FontScale ?cfg"] by (simp add: cell_size_def console_ok_def)
  then have wrap: "fb_width ?fb \<le> (vx ?cur + 1) * (8 * FontScale ?cfg) \<longleftrightarrow>
      unat (fb_width ?fb) \<le> (unat (vx ?cur) + 1) * cell_size st"
    by (simp only: word_le_nat_alt)
  have "fb_deref st = Inr ?fb" using ok by (simp add: fb_deref_def console_ok_def)
  then have "PrintChar c st = Inr (st\<lparr>con_ports := outb COM1 c (con_ports st\<lparr>port_now := n\<rparr>), con_mem := m',
      CursorPosition := cursor_next st\<rparr>)"
    using n m' c(2) wrap
    by (auto simp: PrintChar_def Let_def fb_deref_def cursor_pos_def cursor_next_def split: if_splits)
  then show ?thesis using m' by blast
qed

section \<open>Clearing the screen\<close>

lemma clear_screen_fills:
  assumes ok: "fb_ok fb m"
  shows "\<exists>m'. clear_screen fb color m = Inr m' \<and> fb_ok fb m' \<and> fb_frame fb m m' \<and>
    (\<forall>p. on_screen fb p \<longrightarrow> pixel fb m' p = Inr (MakeColor fb color))"
proof -
  let ?is = "List.product [0..<unat (fb_height fb)] [0..<unat (fb_width fb)]"
  let ?pt = "\<lambda>(hi, wi). \<lparr>vx = of_nat wi, vy = of_nat hi\<rparr> :: Vector2"
  have lim: "k < 2 ^ 64" if "k < unat (fb_height fb) \<or> k < unat (fb_width fb)" for k
    using that unat_u64_lt [of "fb_height fb"] unat_u64_lt [of "fb_width fb"] by (auto simp del: unat_u64_lt)
  have loop: "clear_screen fb color m = for_each (\<lambda>i. DrawPixel fb (?pt i) color) ?is m"
    by (simp add: clear_screen_def for_each_product) (simp add: case_prod_unfold)
  have inj: "inj_on ?pt (set ?is)"
    by (rule inj_onI) (auto, (metis lim of_nat64_inject)+)
  have inside: "on_screen fb (?pt i)" if "i \<in> set ?is" for i
    using that by (auto simp: on_screen_def word_less_nat_alt unat_of_nat64 lim [simplified])
  have d: "distinct ?is" by (simp add: distinct_product)
  obtain m' where m': "for_each (\<lambda>i. DrawPixel fb (?pt i) color) ?is m = Inr m'" "fb_ok fb m'" "fb_frame fb m m'"
      "\<forall>i \<in> set ?is. pixel fb m' (?pt i) = Inr (MakeColor fb color)"
    using screen.paint_loop [OF ok inside d inj, of "\<lambda>_. color"] by blast
  have "pixel fb m' p = Inr (MakeColor fb color)" if "on_screen fb p" for p
  proof -
    have "(unat (vy p), unat (vx p)) \<in> set ?is"
      using that by (simp add: on_screen_def word_less_nat_alt)
    moreover have "?pt (unat (vy p), unat (vx p)) = p" by simp
    ultimately show ?thesis using m'(4) by metis
  qed
  then show ?thesis using m' loop by metis
qed

section \<open>Printing a text\<close>

text \<open>The cursor as one number: cells in reading order on a screen of \<open>cols\<close> columns.\<close>

definition cursor_index :: "nat \<Rightarrow> console \<Rightarrow> nat" where
  "cursor_index cols st = unat (vy (CursorPosition st)) * cols + unat (vx (CursorPosition st))"

text \<open>A screen of whole cells with the cursor in one of its columns.\<close>

definition grid_ok :: "nat \<Rightarrow> nat \<Rightarrow> console \<Rightarrow> bool" where
  "grid_ok cols rows st \<longleftrightarrow> console_ok st \<and>
     unat (fb_width (fb_var (gfx st))) = cols * cell_size st \<and>
     rows * cell_size st \<le> unat (fb_height (fb_var (gfx st))) \<and>
     unat (vx (CursorPosition st)) < cols"

lemma grid_cursor_fits:
  assumes "grid_ok cols rows st" and "cursor_index cols st < rows * cols"
  shows "cursor_fits st"
proof -
  let ?x = "unat (vx (CursorPosition st))" and ?y = "unat (vy (CursorPosition st))"
  have g: "unat (fb_width (fb_var (gfx st))) = cols * cell_size st"
    "rows * cell_size st \<le> unat (fb_height (fb_var (gfx st)))" "?x < cols"
    using assms(1) by (simp_all add: grid_ok_def)
  have "?y * cols < rows * cols" using assms(2) unfolding cursor_index_def by linarith
  then have y: "?y + 1 \<le> rows" by simp
  have "(?x + 1) * cell_size st \<le> cols * cell_size st" "(?y + 1) * cell_size st \<le> rows * cell_size st"
    using g(3) y by (intro mult_le_mono1; simp)+
  then show ?thesis using g unfolding cursor_fits_def by linarith
qed

lemma grid_step:
  assumes g: "grid_ok cols rows st" and i: "cursor_index cols st < rows * cols" and c: "unat c < 128" "c \<noteq> 10"
  shows "\<exists>st'. PrintChar c st = Inr st' \<and> grid_ok cols rows st' \<and> cursor_index cols st' = Suc (cursor_index cols st) \<and>
    fb_frame (fb_var (gfx st)) (con_mem st) (con_mem st')"
proof -
  let ?x = "unat (vx (CursorPosition st))" and ?y = "unat (vy (CursorPosition st))"
  have ok: "console_ok st" using g by (simp add: grid_ok_def)
  note fits = grid_cursor_fits [OF g i]
  obtain st' n m' where st': "PrintChar c st = Inr st'"
      "DrawChar (fb_var (gfx st)) (ConsoleConfiguration st) c (cursor_pos st) (con_mem st) = Inr m'"
      "st' = st\<lparr>con_ports := outb COM1 c (con_ports st\<lparr>port_now := n\<rparr>), con_mem := m', CursorPosition := cursor_next st\<rparr>"
    using PrintChar_at_cursor [OF ok fits c] by blast
  have m': "fb_ok (fb_var (gfx st)) m'" "fb_frame (fb_var (gfx st)) (con_mem st) m'"
    using DrawChar_cell [OF _ c(1) cursor_pos_unat(3) [OF ok fits], of "con_mem st"] st'(2) ok
    by (auto simp: console_ok_def)
  have "uart_alive (con_ports st')"
    using ok uart_alive_cong [of "con_ports st'" "con_ports st"] by (simp add: st'(3) console_ok_def)
  then have ok': "console_ok st'" using ok m'(1) by (simp add: st'(3) console_ok_def)
  have pos: "0 < cell_size st" using ok by (simp add: cell_size_def console_ok_def)
  have w: "unat (fb_width (fb_var (gfx st))) = cols * cell_size st" "?x < cols"
    using g by (simp_all add: grid_ok_def)
  have big: "unat (v :: u64) < 2 ^ 64" for v by simp
  have fx: "(?x + 1) * 1 \<le> (?x + 1) * cell_size st" "(?y + 1) * 1 \<le> (?y + 1) * cell_size st"
    using pos by (intro mult_le_mono2; simp)+
  have "?x + unat (1 :: u64) < 2 ^ 64"
    using le_less_trans [OF order_trans [OF fx(1) fits [unfolded cursor_fits_def, THEN conjunct1]] big] by simp
  moreover have "?y + unat (1 :: u64) < 2 ^ 64"
    using le_less_trans [OF order_trans [OF fx(2) fits [unfolded cursor_fits_def, THEN conjunct2]] big] by simp
  ultimately have u: "unat (vx (CursorPosition st) + 1) = ?x + 1" "unat (vy (CursorPosition st) + 1) = ?y + 1"
    by (simp_all add: unat_add64)
  have "(cols * cell_size st \<le> (?x + 1) * cell_size st) = (cols \<le> ?x + 1)"
    using pos unfolding mult_le_cancel2 by simp
  then have nxt: "cursor_next st = (if cols \<le> ?x + 1 then \<lparr>vx = 0, vy = vy (CursorPosition st) + 1\<rparr>
      else \<lparr>vx = vx (CursorPosition st) + 1, vy = vy (CursorPosition st)\<rparr>)"
    by (simp only: cursor_next_def Let_def w(1))
  have s: "cell_size st' = cell_size st" by (simp add: st'(3) cell_size_def)
  have "grid_ok cols rows st' \<and> cursor_index cols st' = Suc (cursor_index cols st)"
  proof (cases "cols \<le> ?x + 1")
    case True
    then have "cols = ?x + 1" using w(2) by simp
    then show ?thesis using g ok' s nxt True u by (simp add: grid_ok_def st'(3) cursor_index_def)
  next
    case False
    then show ?thesis using g ok' s nxt u by (simp add: grid_ok_def st'(3) cursor_index_def)
  qed
  moreover have "con_mem st' = m'" by (simp add: st'(3))
  ultimately show ?thesis using st'(1) m'(2) by blast
qed

lemma grid_text:
  "grid_ok cols rows st \<Longrightarrow> cursor_index cols st + length s \<le> rows * cols \<Longrightarrow>
   \<forall>c \<in> set s. unat c < 128 \<and> c \<noteq> 10 \<Longrightarrow>
   \<exists>st'. print_chars s st = Inr st' \<and> grid_ok cols rows st' \<and>
     cursor_index cols st' = cursor_index cols st + length s"
proof (induction s arbitrary: st)
  case Nil
  then show ?case by (simp add: print_chars_def)
next
  case (Cons c s)
  then obtain st1 where st1: "PrintChar c st = Inr st1" "grid_ok cols rows st1"
      "cursor_index cols st1 = Suc (cursor_index cols st)"
    using grid_step [of cols rows st c] by auto
  obtain st' where "print_chars s st1 = Inr st'" "grid_ok cols rows st'"
      "cursor_index cols st' = cursor_index cols st1 + length s"
    using Cons.IH [OF st1(2)] Cons.prems st1(3) by auto
  then show ?case using st1 by (auto simp: print_chars_def)
qed

section \<open>Below the last row\<close>

lemma store32_unmapped: "m a = None \<Longrightarrow> store32 m a v = Inl (PageFault a)"
  by (simp add: store32_def numeral_eq_Suc)

lemma glyph_indices_first: "0 < s \<Longrightarrow> \<exists>rest. glyph_indices s = ((0, 0), (0, 0)) # rest"
proof -
  assume "0 < s"
  then have "[0..<s] = 0 # [1..<s]" by (simp add: upt_conv_Cons)
  moreover have "[0..<8] = (0 :: nat) # [1..<8]" by (simp add: upt_conv_Cons)
  ultimately show ?thesis by (simp add: glyph_indices_def)
qed

lemma DrawPixel_below:
  assumes "fb_bytes fb < 2 ^ 32" and "m (fb_addr fb + of_nat (fb_bytes fb)) = None"
  shows "DrawPixel fb \<lparr>vx = 0, vy = fb_height fb\<rparr> c m = Inl (PageFault (fb_addr fb + of_nat (fb_bytes fb)))"
proof -
  have "fb_height fb * fb_pitch fb = of_nat (fb_bytes fb)" by (simp add: fb_bytes_def)
  then have "(ucast (ucast (fb_height fb * fb_pitch fb) :: u32) :: u64) = of_nat (fb_bytes fb)"
    using assms(1)
    by (simp add: word_unat_eq_iff unat_of_nat unsigned_ucast_eq unsigned_take_bit_eq take_bit_nat_eq_self)
  then show ?thesis using assms(2) by (simp add: DrawPixel_def store32_unmapped)
qed

section \<open>A screen to evaluate on\<close>

text \<open>16 by 8 pixels at 0x1000: two cells at scale 1.\<close>

definition strip_fb :: Framebuffer where
  "strip_fb = small_fb\<lparr>fb_width := 16, fb_height := 8, fb_pitch := 64\<rparr>"

definition strip_console :: console where
  "strip_console = \<lparr>ConsoleLock = 0, IsConsoleReady = ktrue, fb_ptr_set = True,
     gfx = \<lparr>fb_ready = ktrue, fb_var = strip_fb, framebuffer_response = None\<rparr>,
     CursorPosition = \<lparr>vx = 0, vy = 0\<rparr>, ConsoleConfiguration = default_state\<lparr>FontScale := 1\<rparr>,
     con_ports = \<lparr>port_in = (\<lambda>_ _. 0x20), port_now = 0, port_log = []\<rparr>,
     con_mem = zeroed 0x1000 512, stack_bytes = (0, 0)\<rparr>"

lemma strip_fb_ok: "fb_ok strip_fb (zeroed 0x1000 512)"
  using mapped_zeroed [of 512 "0x1000"]
  by (simp add: fb_ok_def fb_bytes_def strip_fb_def small_fb_def zero_fb_def)

lemma strip_console_ok: "console_ok strip_console"
  using strip_fb_ok
  by (simp add: console_ok_def strip_console_def default_state_def uart_alive_def uart_ready_def) auto

lemma strip_grid: "grid_ok 2 1 strip_console"
  using strip_console_ok
  by (simp add: grid_ok_def cell_size_def strip_console_def strip_fb_def default_state_def)

lemma strip_fits: "cursor_fits strip_console"
  by (simp add: cursor_fits_def cell_size_def strip_console_def strip_fb_def default_state_def)

section \<open>Properties\<close>

text \<open>C15: with the cursor's cell on the screen, PrintChar of a character of the font draws its
  glyph, scaled, in the foreground colour on the background colour into exactly that cell, changes no other pixel,
  sends the character to the serial line, and moves the cursor one cell on, to the next row when the
  row is full.\<close>

theorem PrintChar_draws_glyph:
  assumes "console_ok st" and "cursor_fits st" and "unat c < 128" and "c \<noteq> 10"
  shows "\<exists>st'. PrintChar c st = Inr st' \<and> CursorPosition st' = cursor_next st \<and>
    sent (con_ports st') = sent (con_ports st) @ [c] \<and>
    (\<forall>p. on_screen (fb_var (gfx st)) p \<longrightarrow> pixel (fb_var (gfx st)) (con_mem st') p =
      (let s = unat (FontScale (ConsoleConfiguration st)); pos = cursor_pos st
       in if in_cell s pos p
          then Inr (MakeColor (fb_var (gfx st)) (glyph_color (ConsoleConfiguration st) c
                 ((unat (vy p) - unat (vy pos)) div s) ((unat (vx p) - unat (vx pos)) div s)))
          else pixel (fb_var (gfx st)) (con_mem st) p))"
proof -
  obtain st' n m' where st': "PrintChar c st = Inr st'"
      "DrawChar (fb_var (gfx st)) (ConsoleConfiguration st) c (cursor_pos st) (con_mem st) = Inr m'"
      "st' = st\<lparr>con_ports := outb COM1 c (con_ports st\<lparr>port_now := n\<rparr>), con_mem := m', CursorPosition := cursor_next st\<rparr>"
    using PrintChar_at_cursor [OF assms] by blast
  have "fb_ok (fb_var (gfx st)) (con_mem st)" using assms(1) by (simp add: console_ok_def)
  from DrawChar_cell [OF this assms(3) cursor_pos_unat(3) [OF assms(1,2)]] st'(2)
  show ?thesis using st'(1) by (simp add: st'(3) sent_outb Let_def)
qed

theorem PrintChar_draws_glyph_witness:
  "\<exists>st'. PrintChar 65 strip_console = Inr st' \<and> CursorPosition st' = \<lparr>vx = 1, vy = 0\<rparr> \<and>
    pixel strip_fb (con_mem st') \<lparr>vx = 2, vy = 0\<rparr> = Inr 0xFFFFFF \<and>
    pixel strip_fb (con_mem st') \<lparr>vx = 0, vy = 0\<rparr> = Inr 0"
proof -
  have fb: "fb_var (gfx strip_console) = strip_fb" and cur: "cursor_pos strip_console = \<lparr>vx = 0, vy = 0\<rparr>"
    and s: "unat (FontScale (ConsoleConfiguration strip_console)) = 1"
    by (simp_all add: strip_console_def cursor_pos_def default_state_def)
  have "glyph_color (ConsoleConfiguration strip_console) 65 0 2 = \<lparr>cR = 255, cG = 255, cB = 255\<rparr>"
    "glyph_color (ConsoleConfiguration strip_console) 65 0 0 = \<lparr>cR = 0, cG = 0, cB = 0\<rparr>"
    by (simp_all add: glyph_color_def font8x8_basic_def strip_console_def default_state_def bit_iff_odd)
  moreover have "MakeColor strip_fb \<lparr>cR = 255, cG = 255, cB = 255\<rparr> = 0xFFFFFF"
    "MakeColor strip_fb \<lparr>cR = 0, cG = 0, cB = 0\<rparr> = 0"
    by (simp_all add: MakeColor_def ScaleColorChannel_def shl32_def strip_fb_def small_fb_def zero_fb_def push_bit_eq_mult)
  moreover have "cursor_next strip_console = \<lparr>vx = 1, vy = 0\<rparr>"
    by (simp add: cursor_next_def cell_size_def strip_console_def strip_fb_def default_state_def)
  moreover have "on_screen strip_fb \<lparr>vx = 2, vy = 0\<rparr>" "on_screen strip_fb \<lparr>vx = 0, vy = 0\<rparr>"
    by (simp_all add: on_screen_def strip_fb_def)
  ultimately show ?thesis
    using PrintChar_draws_glyph [OF strip_console_ok strip_fits, of 65]
    by (auto simp: fb cur s in_cell_def Let_def)
qed

text \<open>On a screen of whole character cells, a text without newlines that is no longer than the
  cells left from the cursor on is printed to its end: no access leaves the framebuffer, and the
  cursor has advanced by its length in reading order.\<close>

lemma text_that_fits_is_printed:
  assumes "grid_ok cols rows st" and "cursor_index cols st + length s \<le> rows * cols"
    and "\<forall>c \<in> set s. unat c < 128 \<and> c \<noteq> 10"
  shows "\<exists>st'. print_chars s st = Inr st' \<and> grid_ok cols rows st' \<and>
    cursor_index cols st' = cursor_index cols st + length s"
  by (rule grid_text [OF assms])

lemma text_that_fits_is_printed_witness:
  "\<exists>st'. print_chars (cstr ''OK'') strip_console = Inr st' \<and> cursor_index 2 st' = 2"
proof -
  have i: "cursor_index 2 strip_console = 0" by (simp add: cursor_index_def strip_console_def)
  show ?thesis using text_that_fits_is_printed [OF strip_grid, of "cstr ''OK''"] by (auto simp: i)
qed

text \<open>The console does not scroll: a character printed in the row just below the screen is drawn
  behind the framebuffer, which faults when the framebuffer is not followed by mapped memory.\<close>

lemma no_scrolling:
  assumes "fb_ptr_set st" and "uart_alive (con_ports st)" and "cursor_pos st = \<lparr>vx = 0, vy = fb_height (fb_var (gfx st))\<rparr>"
    and "0 < unat (FontScale (ConsoleConfiguration st))" and "unat c < 128" and "c \<noteq> 10"
    and "fb_bytes (fb_var (gfx st)) < 2 ^ 32"
    and "con_mem st (fb_addr (fb_var (gfx st)) + of_nat (fb_bytes (fb_var (gfx st)))) = None"
  shows "PrintChar c st = Inl (PageFault (fb_addr (fb_var (gfx st)) + of_nat (fb_bytes (fb_var (gfx st)))))"
proof -
  let ?fb = "fb_var (gfx st)" and ?cfg = "ConsoleConfiguration st"
  obtain n where n: "Serial_PrintChar c (con_ports st) = Inr (outb COM1 c (con_ports st\<lparr>port_now := n\<rparr>))"
    using Serial_PrintChar_alive [OF assms(2)] by blast
  obtain rest where "glyph_indices (unat (FontScale ?cfg)) = ((0, 0), (0, 0)) # rest"
    using glyph_indices_first [OF assms(4)] by blast
  then have "DrawChar ?fb ?cfg c (cursor_pos st) (con_mem st) = Inl (PageFault (fb_addr ?fb + of_nat (fb_bytes ?fb)))"
    using DrawPixel_below [OF assms(7), of "con_mem st", OF assms(8)] by (simp add: DrawChar_loop [OF assms(5)] glyph_point_def assms(3))
  then show ?thesis using n assms(1,6) by (simp add: PrintChar_def Let_def fb_deref_def cursor_pos_def)
qed

lemma no_scrolling_witness:
  "PrintChar 65 (strip_console\<lparr>CursorPosition := \<lparr>vx = 0, vy = 1\<rparr>\<rparr>) = Inl (PageFault 0x1200)"
proof -
  let ?st = "strip_console\<lparr>CursorPosition := \<lparr>vx = 0, vy = 1\<rparr>\<rparr>"
  have fb: "fb_var (gfx ?st) = strip_fb" "fb_addr strip_fb = 0x1000" "fb_bytes strip_fb = 512" "fb_height strip_fb = 8"
    by (simp_all add: strip_console_def strip_fb_def small_fb_def fb_bytes_def)
  have "cursor_pos ?st = \<lparr>vx = 0, vy = 8\<rparr>" "0 < unat (FontScale (ConsoleConfiguration ?st))"
    by (simp_all add: cursor_pos_def strip_console_def default_state_def)
  moreover have "con_mem ?st 0x1200 = None" by (simp add: strip_console_def zeroed_def in_region_def)
  moreover have "fb_ptr_set ?st" "uart_alive (con_ports ?st)"
    using strip_console_ok by (simp_all add: console_ok_def strip_console_def)
  ultimately show ?thesis using no_scrolling [of ?st 65] unfolding fb by simp
qed

text \<open>The clear tag's loop sets every pixel of the screen to the colour and nothing else in
  memory changes.\<close>

lemma clear_screen_fills_screen:
  assumes "fb_ok fb m"
  shows "\<exists>m'. clear_screen fb color m = Inr m' \<and>
    (\<forall>p. on_screen fb p \<longrightarrow> pixel fb m' p = Inr (MakeColor fb color)) \<and>
    (\<forall>x. \<not> in_region (fb_addr fb) (fb_bytes fb) x \<longrightarrow> m' x = m x)"
  using clear_screen_fills [OF assms, of color] by (auto simp: fb_frame_def)

lemma clear_screen_fills_screen_witness:
  "\<exists>m'. clear_screen small_fb \<lparr>cR = 0, cG = 0, cB = 255\<rparr> (zeroed 0x1000 32) = Inr m' \<and>
    pixel small_fb m' \<lparr>vx = 1, vy = 1\<rparr> = Inr 255"
proof -
  have "MakeColor small_fb \<lparr>cR = 0, cG = 0, cB = 255\<rparr> = 255"
    by (simp add: MakeColor_def ScaleColorChannel_def shl32_def small_fb_def zero_fb_def push_bit_eq_mult)
  moreover have "on_screen small_fb \<lparr>vx = 1, vy = 1\<rparr>" by (simp add: on_screen_def small_fb_def)
  ultimately show ?thesis using clear_screen_fills_screen [OF small_fb_ok] by metis
qed

end
