(* ===== verification/Console_State.thy ===== *)
theory Console_State
  imports Console_Output Console_Screen
begin

text \<open>
  A predicate on the console's state that drawing a character, changing a colour, clearing the screen and taking or freeing the
  lock keep is kept by every printing call, whatever the format string and its arguments are. The predicate that matters is
  the console's well-formedness.
\<close>

section \<open>Invariants of printing\<close>

locale console_invariant =
  fixes inv :: "console \<Rightarrow> bool"
  assumes char_inv: "inv st \<Longrightarrow> PrintChar c st = Inr st' \<Longrightarrow> inv st'"
    and color_inv: "inv st \<Longrightarrow> inv (set_foreground k st)" "inv st \<Longrightarrow> inv (set_background k st)"
    and clear_inv: "inv st \<Longrightarrow> clear_screen (fb_var (gfx st)) k (con_mem st) = Inr m \<Longrightarrow>
      inv (st\<lparr>con_mem := m, CursorPosition := \<lparr>vx = 0, vy = 0\<rparr>\<rparr>)"
    and lock_inv: "inv st \<Longrightarrow> inv (st\<lparr>ConsoleLock := l\<rparr>)"
    and ready_inv: "inv st \<Longrightarrow> truthy (IsConsoleReady st)"
begin

lemma chars_inv: "inv st \<Longrightarrow> print_chars s st = Inr st' \<Longrightarrow> inv st'"
  unfolding print_chars_def by (erule for_each_invariant) (auto intro: char_inv)

lemma numbers_inv:
  "inv st \<Longrightarrow> PrintUnsignedInternal w st = Inr st' \<Longrightarrow> inv st'"
  "inv st \<Longrightarrow> PrintHexInternal w st = Inr st' \<Longrightarrow> inv st'"
  by (auto simp: PrintUnsignedInternal_def PrintHexInternal_def and_then_eq_Inr split: if_splits intro: char_inv chars_inv)

lemma conversion_inv: "inv st \<Longrightarrow> conversion c args st = Inr (args', st') \<Longrightarrow> inv st'"
  by (auto simp: conversion_def and_then_eq_Inr split: if_splits intro: chars_inv numbers_inv)

lemma apply_color_inv:
  assumes "inv st" and "apply_color ty k st = Inr st'"
  shows "inv st'"
  using assms
  by (auto simp: apply_color_def and_then_eq_Inr fb_deref_def split: if_splits intro: color_inv clear_inv)

lemma styling_inv: "inv st \<Longrightarrow> ParseStyling s st = Inr (s', st') \<Longrightarrow> inv st'"
  by (auto simp: ParseStyling_def and_then_eq_Inr Let_def split: if_splits prod.splits intro: apply_color_inv color_inv)

lemma loop_inv: "inv st \<Longrightarrow> print_loop s args st = Inr st' \<Longrightarrow> inv st'"
proof (induction s args st rule: print_loop.induct)
  case (1 s args st)
  show ?case
  proof (cases "peek s = 0")
    case True
    then show ?thesis using 1(3,4) by (simp add: print_loop.simps)
  next
    case False
    then obtain s1 st1 where t: "(if at_tag s then ParseStyling s st else Inr (s, st)) = Inr (s1, st1)"
      using 1(4) by (subst (asm) print_loop.simps) (auto simp: and_then_eq_Inr)
    have i: "inv st1" using t 1(3) styling_inv by (auto split: if_splits)
    show ?thesis
    proof (cases "peek s1 = 37")
      case True
      then obtain s2 s3 args' st2 where u: "advance s1 = Inr s2" "conversion (peek s2) args st1 = Inr (args', st2)"
          "advance s2 = Inr s3" "print_loop s3 args' st2 = Inr st'"
        using 1(4) False t by (subst (asm) print_loop.simps) (auto simp: and_then_eq_Inr)
      show ?thesis by (rule 1(1) [OF False t refl True u(1,2) refl u(3) conversion_inv [OF i u(2)] u(4)])
    next
      case no: False
      then obtain st2 s2 where u: "PrintChar (peek s1) st1 = Inr st2" "advance s1 = Inr s2" "print_loop s2 args st2 = Inr st'"
        using 1(4) False t by (subst (asm) print_loop.simps) (auto simp: and_then_eq_Inr)
      show ?thesis by (rule 1(2) [OF False t refl no u(1,2) char_inv [OF i u(1)] u(3)])
    qed
  qed
qed

lemma internal_inv: "inv st \<Longrightarrow> PrintStringInternal s args st = Inr st' \<Longrightarrow> inv st'"
  using loop_inv by (simp add: PrintStringInternal_ready ready_inv)

lemma take_lock_inv: "inv st \<Longrightarrow> take_lock st = Inr st' \<Longrightarrow> inv st'"
  by (auto simp: take_lock_def and_then_eq_Inr intro: lock_inv)

lemma string_inv: "inv st \<Longrightarrow> PrintString s args st = Inr st' \<Longrightarrow> inv st' \<and> ConsoleLock st' = 0"
  by (auto simp: PrintString_def and_then_eq_Inr release_lock_def Unlock_def intro: lock_inv internal_inv take_lock_inv)

lemma line_inv: "inv st \<Longrightarrow> log_line p s args st = Inr st' \<Longrightarrow> inv st' \<and> ConsoleLock st' = 0"
  unfolding log_line_def and_then_eq_Inr release_lock_def Unlock_def sum.inject
  by (elim exE conjE, hypsubst) (auto intro!: lock_inv dest!: char_inv [rotated] internal_inv [rotated] take_lock_inv [rotated])

end

section \<open>Well-formed consoles\<close>

text \<open>Drawing keeps the set of mapped addresses, so a framebuffer stays usable.\<close>

lemma DrawPixel_dom: "DrawPixel fb p k m = Inr m' \<Longrightarrow> dom m' = dom m"
  unfolding DrawPixel_def Let_def by (rule dword.st_dom)

lemma for_each_dom:
  fixes m :: mem
  assumes "for_each f xs m = Inr m'" and "\<And>x m m'. f x m = Inr m' \<Longrightarrow> dom m' = dom m"
  shows "dom m' = dom m"
  using for_each_invariant [where I = "\<lambda>u. dom u = dom m", OF assms(1) refl] assms(2) by simp

lemma clear_screen_dom: "clear_screen fb k m = Inr m' \<Longrightarrow> dom m' = dom m"
  unfolding clear_screen_def by (erule for_each_dom, erule for_each_dom, erule DrawPixel_dom)

lemma draw_block_dom: "draw_block fb scale p row col k m = Inr m' \<Longrightarrow> dom m' = dom m"
  unfolding draw_block_def by (erule for_each_dom, erule for_each_dom, erule DrawPixel_dom)

lemma DrawChar_dom: "DrawChar fb cfg c p m = Inr m' \<Longrightarrow> dom m' = dom m"
  unfolding DrawChar_def Let_def
  by (split if_split_asm, simp, erule for_each_dom, erule for_each_dom, split if_split_asm, (erule draw_block_dom)+)

lemma fb_ok_dom: "dom m' = dom m \<Longrightarrow> fb_ok fb m' = fb_ok fb m"
  using mapped_dom [of m' m] by (simp add: fb_ok_def)

definition console_wf :: "console \<Rightarrow> bool" where
  "console_wf st \<longleftrightarrow> console_ok st \<and> truthy (IsConsoleReady st)"

lemma PrintChar_wf:
  assumes "console_wf st" and "PrintChar c st = Inr st'"
  shows "console_wf st' \<and> dom (con_mem st') = dom (con_mem st)"
proof -
  have "con_mem st' = con_mem st \<or> (\<exists>fb p. DrawChar fb (ConsoleConfiguration st) c p (con_mem st) = Inr (con_mem st'))"
    using assms(2) by (auto simp: PrintChar_def and_then_eq_Inr Let_def split: if_splits)
  then have dom: "dom (con_mem st') = dom (con_mem st)" by (elim disjE exE) (simp, erule DrawChar_dom)
  obtain ps where ps: "Serial_PrintChar c (con_ports st) = Inr ps" using assms(2) by (auto simp: PrintChar_def and_then_eq_Inr)
  then have "port_in ps = port_in (con_ports st)"
    using serial_wait_keeps [of "con_ports st"] by (auto simp: Serial_PrintChar_def split: option.splits)
  moreover have "con_ports st' = ps"
    using assms(2) ps by (auto simp: PrintChar_def and_then_eq_Inr Let_def split: if_splits)
  ultimately have "uart_alive (con_ports st')" using assms(1) uart_alive_cong [of "con_ports st'" "con_ports st"] by (simp add: console_wf_def console_ok_def)
  then show ?thesis
    using assms(1) PrintChar_keeps [OF assms(2)] fb_ok_dom [OF dom] dom by (simp add: console_wf_def console_ok_def)
qed

interpretation wf: console_invariant "\<lambda>st. console_wf st \<and> gfx st = g \<and> dom (con_mem st) = d" for g d
proof
  show "console_wf st' \<and> gfx st' = g \<and> dom (con_mem st') = d"
    if "console_wf st \<and> gfx st = g \<and> dom (con_mem st) = d" "PrintChar c st = Inr st'" for st c st'
    using that PrintChar_wf [of st c st'] PrintChar_keeps(4) [of c st st'] by simp
  show "console_wf (st\<lparr>con_mem := m, CursorPosition := \<lparr>vx = 0, vy = 0\<rparr>\<rparr>) \<and>
      gfx (st\<lparr>con_mem := m, CursorPosition := \<lparr>vx = 0, vy = 0\<rparr>\<rparr>) = g \<and>
      dom (con_mem (st\<lparr>con_mem := m, CursorPosition := \<lparr>vx = 0, vy = 0\<rparr>\<rparr>)) = d"
    if "console_wf st \<and> gfx st = g \<and> dom (con_mem st) = d" "clear_screen (fb_var (gfx st)) k (con_mem st) = Inr m" for st k m
    using that(1) clear_screen_dom [OF that(2)] fb_ok_dom [OF clear_screen_dom [OF that(2)], of "fb_var (gfx st)"]
    by (auto simp: console_wf_def console_ok_def simp del: domIff)
qed (auto simp: console_wf_def console_ok_def set_foreground_def set_background_def)

section \<open>Property\<close>

text \<open>The calls of the console's interface that print a formatted string.\<close>

datatype print_call = Call_PrintString | Call_INFO | Call_Log | Call_Error | Call_OK

fun run_call :: "print_call \<Rightarrow> u8 list \<Rightarrow> va list \<Rightarrow> console \<Rightarrow> console res" where
  "run_call Call_PrintString = PrintString"
| "run_call Call_INFO = INFO"
| "run_call Call_Log = Log"
| "run_call Call_Error = Error"
| "run_call Call_OK = OK"

text \<open>C13: every printing call keeps the console well-formed when it returns, whatever its format string, its tags and its arguments:
  the framebuffer stays the one it was and mapped, the serial line alive, the font scale in range, the console ready; no
  address becomes mapped or unmapped, and the lock is free.\<close>

theorem printing_keeps_console_wf:
  assumes "console_wf st" and "run_call f s args st = Inr st'"
  shows "console_wf st' \<and> gfx st' = gfx st \<and> dom (con_mem st') = dom (con_mem st) \<and> ConsoleLock st' = 0"
  using assms wf.string_inv [of st "gfx st" "dom (con_mem st)" s args st']
    wf.line_inv [of st "gfx st" "dom (con_mem st)" _ s args st']
  by (cases f) (auto simp: INFO_def Log_def Error_def OK_def)

theorem printing_keeps_console_wf_witness:
  "\<exists>st'. run_call Call_PrintString (cstr ''OK'') [] strip_console = Inr st' \<and> console_wf st' \<and> ConsoleLock st' = 0"
proof -
  have wf: "console_wf strip_console" using strip_console_ok by (simp add: console_wf_def strip_console_def)
  have "PrintString (cstr ''OK'') [] strip_console = print_chars (cstr ''OK'') strip_console"
    by (rule PrintString_render) (simp_all add: strip_console_def at_tag_def)
  moreover have "cursor_index 2 strip_console = 0" by (simp add: cursor_index_def strip_console_def)
  then have "\<exists>st'. print_chars (cstr ''OK'') strip_console = Inr st'"
    using grid_text [OF strip_grid, of "cstr ''OK''"] by auto
  ultimately show ?thesis using printing_keeps_console_wf [OF wf, of Call_PrintString] by auto
qed

end
