(* ===== verification/Console_Log.thy ===== *)
theory Console_Log
  imports Console_State
begin

text \<open>
  Printing logged messages. The components below the console record a message as an event; here an event is printed with
  the console's own calls (\<^verbatim>\<open>console.cpp\<close>), and \<open>prints\<close> says of a call that it succeeds on a screen with room for its text:
  it sends exactly that text, draws inside the framebuffer only and moves the cursor by at most the text's room.
\<close>

section \<open>Room on the screen\<close>

text \<open>A newline may use up the rest of its row.\<close>

definition text_room :: "nat \<Rightarrow> u8 list \<Rightarrow> nat" where
  "text_room cols s = sum_list (map (\<lambda>c. if c = 10 then cols else 1) s)"

lemma text_room_simps [simp]:
  "text_room cols [] = 0" "text_room cols (c # s) = (if c = 10 then cols else 1) + text_room cols s"
  "text_room cols (s @ t) = text_room cols s + text_room cols t"
  by (simp_all add: text_room_def)

definition screen_ok :: "nat \<Rightarrow> nat \<Rightarrow> console \<Rightarrow> bool" where
  "screen_ok cols rows st \<longleftrightarrow> grid_ok cols rows st \<and> ConsoleLock st = 0 \<and> truthy (IsConsoleReady st)"

definition printed :: "u8 list \<Rightarrow> console \<Rightarrow> console \<Rightarrow> bool" where
  "printed s st st' \<longleftrightarrow> sent (con_ports st') = sent (con_ports st) @ s \<and> port_in (con_ports st') = port_in (con_ports st) \<and>
     gfx st' = gfx st \<and> fb_frame (fb_var (gfx st)) (con_mem st) (con_mem st')"

definition prints :: "nat \<Rightarrow> nat \<Rightarrow> u8 list \<Rightarrow> console \<Rightarrow> console res \<Rightarrow> bool" where
  "prints cols rows s st r \<longleftrightarrow> (\<exists>st'. r = Inr st' \<and> screen_ok cols rows st' \<and> printed s st st' \<and>
     cursor_index cols st' \<le> cursor_index cols st + text_room cols s)"

definition has_room :: "nat \<Rightarrow> nat \<Rightarrow> u8 list \<Rightarrow> console \<Rightarrow> bool" where
  "has_room cols rows s st \<longleftrightarrow> cursor_index cols st + text_room cols s \<le> rows * cols"

definition ascii :: "u8 list \<Rightarrow> bool" where
  "ascii s \<longleftrightarrow> (\<forall>c \<in> set s. unat c < 128)"

lemma ascii_simps [simp]: "ascii []" "ascii (c # s) \<longleftrightarrow> unat c < 128 \<and> ascii s" "ascii (s @ t) \<longleftrightarrow> ascii s \<and> ascii t"
  by (auto simp: ascii_def)

lemma printed_refl [simp]: "printed [] st st"
  by (simp add: printed_def fb_frame_def)

lemma printed_trans: "printed s st st1 \<Longrightarrow> printed t st1 st' \<Longrightarrow> printed (s @ t) st st'"
  by (auto simp: printed_def fb_frame_def)

lemma prints_then:
  assumes "prints cols rows s st r" and "has_room cols rows (s @ t) st"
    and "\<And>st1. r = Inr st1 \<Longrightarrow> screen_ok cols rows st1 \<Longrightarrow> printed s st st1 \<Longrightarrow> has_room cols rows t st1 \<Longrightarrow> prints cols rows t st1 (f st1)"
  shows "prints cols rows (s @ t) st (and_then r f)"
proof -
  obtain st1 where 1: "r = Inr st1" "screen_ok cols rows st1" "printed s st st1"
      "cursor_index cols st1 \<le> cursor_index cols st + text_room cols s"
    using assms(1) by (auto simp: prints_def)
  then have "has_room cols rows t st1" using assms(2) by (simp add: has_room_def)
  from assms(3) [OF 1(1-3) this] show ?thesis using 1 printed_trans by (fastforce simp: prints_def)
qed

lemma prints_Nil: "screen_ok cols rows st \<Longrightarrow> prints cols rows [] st (Inr st)"
  by (simp add: prints_def)

section \<open>Characters\<close>

lemma grid_newline:
  assumes "grid_ok cols rows st"
  shows "\<exists>st'. PrintChar 10 st = Inr st' \<and> grid_ok cols rows st' \<and> cursor_index cols st' \<le> cursor_index cols st + cols \<and>
    con_mem st' = con_mem st"
proof -
  obtain n where n: "Serial_PrintChar 10 (con_ports st) = Inr (outb COM1 10 (con_ports st\<lparr>port_now := n\<rparr>))"
    using Serial_PrintChar_alive assms by (auto simp: grid_ok_def console_ok_def)
  let ?st = "st\<lparr>con_ports := outb COM1 10 (con_ports st\<lparr>port_now := n\<rparr>), CursorPosition := \<lparr>vx = 0, vy = vy (CursorPosition st) + 1\<rparr>\<rparr>"
  have "PrintChar 10 st = Inr ?st" using n by (simp add: PrintChar_def Let_def)
  moreover have "uart_alive (con_ports ?st)"
    using assms uart_alive_cong [of "con_ports ?st" "con_ports st"] by (simp add: grid_ok_def console_ok_def)
  then have "grid_ok cols rows ?st" using assms by (simp add: grid_ok_def console_ok_def cell_size_def)
  moreover have "unat (vy (CursorPosition st) + 1) \<le> unat (vy (CursorPosition st)) + 1"
    by (simp add: unat_word_ariths)
  then have "unat (vy (CursorPosition st) + 1) * cols \<le> (unat (vy (CursorPosition st)) + 1) * cols" by (rule mult_le_mono1)
  then have "cursor_index cols ?st \<le> cursor_index cols st + cols" by (simp add: cursor_index_def)
  ultimately show ?thesis by (intro exI [of _ ?st]) simp
qed

text \<open>One character, and a text, on a grid; whether the lock is held does not matter.\<close>

lemma grid_char:
  assumes g: "grid_ok cols rows st" and c: "unat c < 128" and room: "has_room cols rows [c] st"
  shows "\<exists>st'. PrintChar c st = Inr st' \<and> grid_ok cols rows st' \<and>
    cursor_index cols st' \<le> cursor_index cols st + text_room cols [c] \<and> fb_frame (fb_var (gfx st)) (con_mem st) (con_mem st')"
proof (cases "c = 10")
  case True
  then show ?thesis using grid_newline [OF g] by (auto simp: fb_frame_def)
next
  case False
  then show ?thesis using grid_step [OF g _ c] room by (auto simp: has_room_def)
qed

lemma grid_chars:
  "grid_ok cols rows st \<Longrightarrow> ascii s \<Longrightarrow> has_room cols rows s st \<Longrightarrow>
   \<exists>st'. print_chars s st = Inr st' \<and> grid_ok cols rows st' \<and> cursor_index cols st' \<le> cursor_index cols st + text_room cols s"
proof (induction s arbitrary: st)
  case Nil
  then show ?case by simp
next
  case (Cons c s)
  have "has_room cols rows [c] st" using Cons.prems(3) by (auto simp: has_room_def)
  then obtain st1 where 1: "PrintChar c st = Inr st1" "grid_ok cols rows st1"
      "cursor_index cols st1 \<le> cursor_index cols st + text_room cols [c]"
    using grid_char [OF Cons.prems(1)] Cons.prems(2) by auto
  then have "has_room cols rows s st1" using Cons.prems(3) by (auto simp: has_room_def)
  then obtain st' where "print_chars s st1 = Inr st'" "grid_ok cols rows st'" "cursor_index cols st' \<le> cursor_index cols st1 + text_room cols s"
    using Cons.IH [OF 1(2)] Cons.prems(2) by auto
  then show ?case using 1 by (intro exI [of _ st']) auto
qed

lemma prints_char:
  assumes s: "screen_ok cols rows st" and c: "unat c < 128" and room: "has_room cols rows [c] st"
  shows "prints cols rows [c] st (PrintChar c st)"
proof -
  have g: "grid_ok cols rows st" using s by (simp add: screen_ok_def)
  from grid_char [OF this c room] obtain st' where st': "PrintChar c st = Inr st'" "grid_ok cols rows st'"
      "cursor_index cols st' \<le> cursor_index cols st + text_room cols [c]" "fb_frame (fb_var (gfx st)) (con_mem st) (con_mem st')"
    by blast
  then show ?thesis
    using s PrintChar_keeps [OF st'(1)] PrintChar_sent [OF st'(1)] unfolding prints_def by (auto simp: screen_ok_def printed_def)
qed

lemma prints_chars: "screen_ok cols rows st \<Longrightarrow> ascii s \<Longrightarrow> has_room cols rows s st \<Longrightarrow> prints cols rows s st (print_chars s st)"
proof (induction s arbitrary: st)
  case Nil
  then show ?case by (simp add: prints_Nil)
next
  case (Cons c s)
  have "has_room cols rows [c] st" using Cons.prems(3) by (auto simp: has_room_def)
  then have "prints cols rows [c] st (PrintChar c st)" using Cons.prems by (intro prints_char) simp_all
  then have "prints cols rows ([c] @ s) st (and_then (PrintChar c st) (print_chars s))"
    by (rule prints_then) (use Cons in simp_all)
  then show ?case by simp
qed

lemma ascii_numbers [simp]: "ascii (hexadecimal w)" "ascii (decimal w)"
proof -
  have h: "unat (hex_char d) < 128" if "d < 16" for d
  proof -
    have "d \<in> {0, 1, 2, 3, 4, 5, 6, 7, 8, 9, 10, 11, 12, 13, 14, 15}" using that by simp presburger
    then show ?thesis by (auto simp: hex_char_def)
  qed
  have d: "unat (dec_char d) < 128" if "d < 10" for d
  proof -
    have "d \<in> {0, 1, 2, 3, 4, 5, 6, 7, 8, 9}" using that by auto
    then show ?thesis by (auto simp: dec_char_def)
  qed
  have "\<forall>d \<in> set (numeral_in 16 (unat w)). d < 16" "\<forall>d \<in> set (numeral_in 10 (unat w)). d < 10"
    using digits_of_less [of 16] digits_of_less [of 10] by (auto simp: numeral_in_def)
  then show "ascii (hexadecimal w)" "ascii (decimal w)"
    using h d by (auto simp: ascii_def hexadecimal_def decimal_def)
qed

text \<open>Colours do not matter.\<close>

lemma colored [simp]:
  "screen_ok cols rows (set_foreground k st) = screen_ok cols rows st" "screen_ok cols rows (default_colors st) = screen_ok cols rows st"
  "has_room cols rows s (set_foreground k st) = has_room cols rows s st" "has_room cols rows s (default_colors st) = has_room cols rows s st"
  "prints cols rows s (set_foreground k st) r = prints cols rows s st r" "prints cols rows s (default_colors st) r = prints cols rows s st r"
  by (simp_all add: screen_ok_def grid_ok_def console_ok_def cell_size_def has_room_def cursor_index_def prints_def printed_def
      default_colors_def set_foreground_def set_background_def)

section \<open>Events\<close>

fun log_call :: "log_kind \<Rightarrow> u8 list \<Rightarrow> va list \<Rightarrow> console \<Rightarrow> console res" where
  "log_call KInfo = INFO"
| "log_call KLog = Log"
| "log_call KError = Error"
| "log_call KOk = OK"

definition print_event :: "log_event \<Rightarrow> console \<Rightarrow> console res" where
  "print_event ev = (case ev of (k, fmt, args) \<Rightarrow> log_call k (cstr fmt) (map VWord args))"

definition print_events :: "log_event list \<Rightarrow> console \<Rightarrow> console res" where
  "print_events = for_each print_event"

text \<open>The text of an event: the word of its kind, a space, the rendered message, a newline.\<close>

fun kind_word :: "log_kind \<Rightarrow> string" where
  "kind_word KInfo = ''INFO''"
| "kind_word KLog = ''LOG''"
| "kind_word KError = ''LOG''"
| "kind_word KOk = ''OK''"

definition line_text :: "log_kind \<Rightarrow> u8 list \<Rightarrow> u8 list" where
  "line_text k out = cstr (kind_word k) @ [32] @ out @ [10]"

definition event_text :: "log_event \<Rightarrow> u8 list" where
  "event_text ev = (case ev of (k, fmt, args) \<Rightarrow> line_text k (the (render (cstr fmt) (map VWord args))))"

definition printable :: "log_event \<Rightarrow> bool" where
  "printable ev \<longleftrightarrow> (case ev of (k, fmt, args) \<Rightarrow> plain (cstr fmt) \<and> ascii (event_text ev) \<and>
     render (cstr fmt) (map VWord args) \<noteq> None)"

lemma log_call_result:
  assumes st: "ConsoleLock st = 0" "truthy (IsConsoleReady st)" and s: "plain s" "render s args = Some out"
  shows "\<exists>d. log_call k s args st = and_then (print_chars (cstr (kind_word k)) (set_foreground (TerminalPallete ! d) st)) (\<lambda>st.
    print_chars ([32] @ out @ [10]) (default_colors st))"
proof -
  have "\<exists>d a w. d < 8 \<and> plain (a # w) \<and> 37 \<notin> set (a # w) \<and> log_call k = log_line (log_prefix d (a # w)) \<and> cstr (kind_word k) = a # w"
  proof (cases k)
    case KInfo
    then show ?thesis by (intro exI [of _ 5] exI [of _ 73] exI [of _ "[78, 70, 79]"])
      (simp add: INFO_def log_prefix_def color_tag_def dec_char_def at_tag_def)
  next
    case KLog
    then show ?thesis by (intro exI [of _ 6] exI [of _ 76] exI [of _ "[79, 71]"])
      (simp add: Log_def log_prefix_def color_tag_def dec_char_def at_tag_def)
  next
    case KError
    then show ?thesis by (intro exI [of _ 0] exI [of _ 76] exI [of _ "[79, 71]"])
      (simp add: Error_def log_prefix_def color_tag_def dec_char_def at_tag_def)
  next
    case KOk
    then show ?thesis by (intro exI [of _ 1] exI [of _ 79] exI [of _ "[75]"])
      (simp add: OK_def log_prefix_def color_tag_def dec_char_def at_tag_def)
  qed
  then show ?thesis using log_line_result [OF _ _ _ st s] by metis
qed

lemma prints_line:
  assumes s: "screen_ok cols rows st" and f: "plain fmt" "render fmt args = Some out" and a: "ascii out"
    and room: "has_room cols rows (line_text k out) st"
  shows "prints cols rows (line_text k out) st (log_call k fmt args st)"
proof -
  have "ConsoleLock st = 0" "truthy (IsConsoleReady st)" using s by (simp_all add: screen_ok_def)
  from log_call_result [OF this f] obtain d where
    c: "log_call k fmt args st = and_then (print_chars (cstr (kind_word k)) (set_foreground (TerminalPallete ! d) st)) (\<lambda>st.
      print_chars ([32] @ out @ [10]) (default_colors st))" by blast
  have w: "ascii (cstr (kind_word k))" by (cases k) simp_all
  have room1: "has_room cols rows (cstr (kind_word k) @ [32] @ out @ [10]) st" using room by (simp add: line_text_def)
  then have "has_room cols rows (cstr (kind_word k)) st" by (simp add: has_room_def)
  then have "prints cols rows (cstr (kind_word k)) st (print_chars (cstr (kind_word k)) (set_foreground (TerminalPallete ! d) st))"
    using prints_chars [of cols rows "set_foreground (TerminalPallete ! d) st"] s w by simp
  then have "prints cols rows (cstr (kind_word k) @ [32] @ out @ [10]) st (log_call k fmt args st)"
    unfolding c
  proof (rule prints_then [OF _ room1])
    fix st1 assume "screen_ok cols rows st1" "has_room cols rows ([32] @ out @ [10]) st1"
    then show "prints cols rows ([32] @ out @ [10]) st1 (print_chars ([32] @ out @ [10]) (default_colors st1))"
      using prints_chars [of cols rows "default_colors st1" "[32] @ out @ [10]"] a by simp
  qed
  then show ?thesis by (simp add: line_text_def)
qed

lemma prints_event:
  assumes "screen_ok cols rows st" and "printable ev" and "has_room cols rows (event_text ev) st"
  shows "prints cols rows (event_text ev) st (print_event ev st)"
proof -
  obtain k fmt args where ev: "ev = (k, fmt, args)" by (cases ev) auto
  obtain out where out: "plain (cstr fmt)" "render (cstr fmt) (map VWord args) = Some out" "ascii (line_text k out)"
    using assms(2) by (auto simp: ev printable_def event_text_def)
  then have "ascii out" by (simp add: line_text_def)
  from prints_line [OF assms(1) out(1,2) this] show ?thesis
    using assms(3) out(2) by (simp add: ev event_text_def print_event_def)
qed

definition events_text :: "log_event list \<Rightarrow> u8 list" where
  "events_text evs = concat (map event_text evs)"

lemma events_text_simps [simp]:
  "events_text [] = []" "events_text (e # es) = event_text e @ events_text es"
  "events_text (es @ fs) = events_text es @ events_text fs"
  by (simp_all add: events_text_def)

lemma prints_events:
  "screen_ok cols rows st \<Longrightarrow> list_all printable evs \<Longrightarrow> has_room cols rows (events_text evs) st \<Longrightarrow>
   prints cols rows (events_text evs) st (print_events evs st)"
proof (induction evs arbitrary: st)
  case Nil
  then show ?case by (simp add: prints_Nil print_events_def)
next
  case (Cons e evs)
  have "has_room cols rows (event_text e) st" using Cons.prems(3) by (simp add: has_room_def)
  then have "prints cols rows (event_text e) st (print_event e st)" using Cons.prems by (intro prints_event) simp_all
  then have "prints cols rows (event_text e @ events_text evs) st (and_then (print_event e st) (print_events evs))"
    by (rule prints_then) (use Cons in simp_all)
  then show ?case by (simp add: print_events_def)
qed

section \<open>The first message\<close>

text \<open>A console that nothing has been printed on: the first framebuffer of the boot loader is usable, \<open>cols\<close> by \<open>rows\<close> cells fit.\<close>

definition fresh_console :: "nat \<Rightarrow> nat \<Rightarrow> Framebuffer \<Rightarrow> console \<Rightarrow> bool" where
  "fresh_console cols rows fb st \<longleftrightarrow> ConsoleLock st = 0 \<and> \<not> truthy (IsConsoleReady st) \<and> \<not> truthy (fb_ready (gfx st)) \<and>
     (\<exists>rest. framebuffer_response (gfx st) = Some (Some fb # rest)) \<and> fb_ok fb (con_mem st) \<and> uart_alive (con_ports st) \<and>
     1 \<le> unat (FontScale (ConsoleConfiguration st)) \<and> unat (FontScale (ConsoleConfiguration st)) \<le> 5 \<and>
     unat (fb_width fb) = cols * cell_size st \<and> rows * cell_size st \<le> unat (fb_height fb) \<and>
     CursorPosition st = \<lparr>vx = 0, vy = 0\<rparr> \<and> 0 < cols"

text \<open>What the initialisation of the serial line sends: the divisor's byte and the sequence that clears the terminal.\<close>

definition clear_text :: "u8 list" where
  "clear_text = [3, 27, 91, 50, 74, 27, 91, 72]"

lemma ensure_ready_fresh:
  assumes "fresh_console cols rows fb st"
  shows "\<exists>st1. ensure_ready st = Inr st1 \<and> screen_ok cols rows st1 \<and> fb_var (gfx st1) = fb \<and> con_mem st1 = con_mem st \<and>
    cursor_index cols st1 = 0 \<and> port_in (con_ports st1) = port_in (con_ports st) \<and>
    truthy (fb_ready (gfx st1)) \<and> sent (con_ports st1) = sent (con_ports st) @ clear_text"
proof -
  obtain s' b b' where s': "Serial_Init (con_ports st) = Inr s'" "port_in s' = port_in (con_ports st)"
      "port_log s' = port_log (con_ports st) @
        [(COM1 + 1, 0), (COM1 + 3, b OR 0x80), (COM1, 3), (COM1 + 1, 0), (COM1 + 3, b' AND NOT 0x80),
         (COM1 + 3, 3), (COM1 + 2, 0xC7), (COM1 + 2, 8)] @ map (Pair COM1) [27, 91, 50, 74, 27, 91, 72]"
    using Serial_Init_sequence [of "con_ports st"] assms by (auto simp: fresh_console_def)
  obtain rest where g: "GetCurrentFramebuffer (gfx st) = (gfx st)\<lparr>fb_var := fb, fb_ready := ktrue\<rparr>"
    using assms by (auto simp: fresh_console_def GetCurrentFramebuffer_def InitFB_def)
  let ?st1 = "st\<lparr>gfx := (gfx st)\<lparr>fb_var := fb, fb_ready := ktrue\<rparr>, con_ports := s', fb_ptr_set := True, IsConsoleReady := ktrue\<rparr>"
  have "ensure_ready st = Inr ?st1"
    using assms s'(1) g by (simp add: ensure_ready_def Console_Init_def fresh_console_def Let_def)
  moreover have "uart_alive s'" using assms uart_alive_cong [OF s'(2)] by (simp add: fresh_console_def)
  then have "screen_ok cols rows ?st1"
    using assms by (simp add: screen_ok_def grid_ok_def console_ok_def fresh_console_def cell_size_def)
  moreover have "sent s' = sent (con_ports st) @ clear_text"
    using s'(3) by (simp add: sent_def COM1_def clear_text_def)
  ultimately show ?thesis
    using assms s'(2) by (intro exI [of _ ?st1]) (simp add: cursor_index_def fresh_console_def)
qed

lemma ensure_ready_lock:
  "ensure_ready (st\<lparr>ConsoleLock := l\<rparr>) = and_then (ensure_ready st) (\<lambda>st. Inr (st\<lparr>ConsoleLock := l\<rparr>))"
  by (cases "Serial_Init (con_ports st)") (simp_all add: ensure_ready_def Console_Init_def Let_def)

lemma ensure_ready_ready: "ensure_ready st = Inr st1 \<Longrightarrow> truthy (IsConsoleReady st1) \<and> ConsoleLock st1 = ConsoleLock st"
  by (auto simp: ensure_ready_def Console_Init_def and_then_eq_Inr Let_def split: if_splits)

lemma log_line_first:
  assumes "ConsoleLock st = 0"
  shows "log_line p s args st = and_then (ensure_ready st) (log_line p s args)"
proof (cases "ensure_ready st")
  case (Inl e)
  then show ?thesis
    using assms by (simp add: log_line_def take_lock_free PrintStringInternal_def ensure_ready_lock)
next
  case (Inr st1)
  then have r: "truthy (IsConsoleReady st1)" "ConsoleLock st1 = 0" using ensure_ready_ready assms by auto
  then show ?thesis
    using assms Inr by (simp add: log_line_def take_lock_free PrintStringInternal_def ensure_ready_lock ensure_ready_id)
qed

lemma print_events_first:
  assumes "ConsoleLock st = 0" and "evs \<noteq> []"
  shows "print_events evs st = and_then (ensure_ready st) (print_events evs)"
proof -
  obtain k fmt args evs' where evs: "evs = (k, fmt, args) # evs'" using assms(2) by (metis neq_Nil_conv prod_cases3)
  have "log_call k f a st = and_then (ensure_ready st) (log_call k f a)" for f a
    by (cases k) (simp_all add: INFO_def Log_def Error_def OK_def log_line_first [OF assms(1)])
  moreover have "print_events evs = (\<lambda>st. and_then (log_call k (cstr fmt) (map VWord args) st) (print_events evs'))"
    by (rule ext) (simp add: evs print_events_def print_event_def)
  ultimately show ?thesis by (simp add: and_then_assoc)
qed

section \<open>A console for the demonstrations\<close>

text \<open>80 by 25 characters of one font pixel per pixel.\<close>

definition page_fb :: Framebuffer where
  "page_fb = zero_fb\<lparr>fb_addr := 0x100000, fb_width := 640, fb_height := 200, fb_pitch := 2560, fb_bpp := 32\<rparr>"

definition page_console :: console where
  "page_console = text_console\<lparr>gfx := \<lparr>fb_ready = ktrue, fb_var = page_fb, framebuffer_response = None\<rparr>,
     ConsoleConfiguration := default_state\<lparr>FontScale := 1\<rparr>, con_mem := zeroed 0x100000 512000\<rparr>"

lemma page_console_simps [simp]:
  "ConsoleLock page_console = 0" "IsConsoleReady page_console = ktrue" "CursorPosition page_console = \<lparr>vx = 0, vy = 0\<rparr>"
  "con_ports page_console = \<lparr>port_in = (\<lambda>_ _. 0x20), port_now = 0, port_log = []\<rparr>"
  by (simp_all add: page_console_def text_console_def)

lemma page_grid: "grid_ok 80 25 page_console"
proof -
  have "fb_ok page_fb (zeroed 0x100000 512000)"
    using mapped_zeroed [of 512000 "0x100000"] by (simp add: fb_ok_def fb_bytes_def page_fb_def zero_fb_def)
  moreover have "uart_alive (con_ports page_console)" by (auto simp: uart_alive_def uart_ready_def)
  ultimately have "console_ok page_console"
    by (simp add: console_ok_def page_console_def text_console_def default_state_def)
  then show ?thesis
    by (simp add: grid_ok_def cell_size_def page_console_def text_console_def default_state_def page_fb_def)
qed

lemma page_screen: "screen_ok 80 25 page_console"
  using page_grid by (simp add: screen_ok_def)

section \<open>Property\<close>

text \<open>C35: on a ready screen with room for the line, each of INFO, Log, Error and OK returns with the lock free: it has sent its word, a space,
  the rendered message and a newline, nothing outside the framebuffer has changed, and the screen is ready for the next call. Error's
  word is LOG, where its comment says ERR.\<close>

theorem log_call_prints:
  assumes "screen_ok cols rows st" and "plain fmt" and "render fmt args = Some out" and "ascii out"
    and "has_room cols rows (line_text k out) st"
  shows "\<exists>st'. log_call k fmt args st = Inr st' \<and> screen_ok cols rows st' \<and>
    sent (con_ports st') = sent (con_ports st) @ cstr (kind_word k) @ [32] @ out @ [10] \<and>
    dom (con_mem st') = dom (con_mem st) \<and>
    (\<forall>x. \<not> in_region (fb_addr (fb_var (gfx st))) (fb_bytes (fb_var (gfx st))) x \<longrightarrow> con_mem st' x = con_mem st x)"
  using prints_line [OF assms] by (auto simp: prints_def printed_def line_text_def fb_frame_def)

theorem log_call_prints_witness:
  "\<exists>st'. Error (cstr ''at %x'') [VWord 0xBEEF] page_console = Inr st' \<and> sent (con_ports st') = cstr ''LOG at BEEF'' @ [10] \<and>
    con_mem st' 0 = None"
proof -
  have "hexadecimal 0xBEEF = cstr ''BEEF''" by (simp add: hexadecimal_def numeral_in_def digits_of.simps hex_char_def)
  then have r: "plain (cstr ''at %x'')" "render (cstr ''at %x'') [VWord 0xBEEF] = Some (cstr ''at BEEF'')" "ascii (cstr ''at BEEF'')"
    by (simp_all add: at_tag_def)
  have "has_room 80 25 (line_text KError (cstr ''at BEEF'')) page_console"
    by (simp add: has_room_def cursor_index_def line_text_def)
  moreover have "sent (con_ports page_console) = []" "con_mem page_console 0 = None"
    "\<not> in_region (fb_addr (fb_var (gfx page_console))) (fb_bytes (fb_var (gfx page_console))) 0"
    by (simp_all add: sent_def page_console_def text_console_def zeroed_def in_region_def page_fb_def fb_bytes_def zero_fb_def)
  ultimately show ?thesis
    using log_call_prints [OF page_screen r, of KError] by auto
qed

end
