(* ===== verification/Keyboard.thy ===== *)
theory Keyboard
  imports Interrupts Console_Log
begin

text \<open>
  The keyboard driver, \<^verbatim>\<open>kernel/keyboard.cpp\<close>, and the PS/2 controller commands of
  \<^verbatim>\<open>arch/x86_64/init.cpp\<close>: scancode tables, the interrupt handler with its shift flag, and
  the waits for the controller. The theorems relate a sequence of scancodes to the text it types, and say when the
  initialisation returns.
\<close>

section \<open>Scancodes\<close>

text \<open>The initialisers of the two tables of 128; the entries not listed are 0. \<^verbatim>\<open>'\b'\<close> is 8, the quotes are 39 and 34.\<close>

definition kbd_us :: "u8 list" where
  "kbd_us =
    ([0, 27] @ cstr ''1234567890-='' @ [8] @
     [9] @ cstr ''qwertyuiop[]'' @ [10] @
     [0] @ cstr ''asdfghjkl;'' @ [39, 96] @
     [0, 92] @ cstr ''zxcvbnm,./'' @ [0] @
     [0, 0, 32]) @ replicate 70 0"

definition kbd_us_uppercase :: "u8 list" where
  "kbd_us_uppercase =
    ([0, 27] @ cstr ''!@#$%^&*()-='' @ [8] @
     [9] @ cstr ''QWERTYUIOP{}'' @ [10] @
     [0] @ cstr ''ASDFGHJKL:'' @ [34, 124] @
     [0, 124] @ cstr ''ZXCVBNM<>?'' @ [0] @
     [0, 0, 32]) @ replicate 70 0"

lemma kbd_length [simp]: "length kbd_us = 128" "length kbd_us_uppercase = 128"
  by (simp_all add: kbd_us_def kbd_us_uppercase_def)

section \<open>The interrupt handler\<close>

definition KeyboardInterruptHandler :: "interrupt_frame \<Rightarrow> kernel \<Rightarrow> kernel res" where
  "KeyboardInterruptHandler int_frame k =
     (let (scancode, ps) = inb 0x60 (con_ports (k_console k));
          k = k\<lparr>k_console := (k_console k)\<lparr>con_ports := ps\<rparr>\<rparr>
      in if scancode = 0x2A \<or> scancode = 0x36 then Inr (k\<lparr>shift := ktrue\<rparr>)
         else if scancode = 0xAA \<or> scancode = 0xB6 then Inr (k\<lparr>shift := kfalse\<rparr>)
         else if scancode AND 0x80 \<noteq> 0 then Inr k
         else
           let letter = (if \<not> truthy (shift k) then kbd_us ! unat scancode else kbd_us_uppercase ! unat scancode)
           in if letter = 0 then Inr k
              else and_then (PrintChar letter (k_console k)) (\<lambda>c. Inr (k\<lparr>k_console := c\<rparr>)))"

section \<open>The controller\<close>

text \<open>
  The waits: until the input buffer is empty (bit 1 of the status is clear), until a byte has arrived (bit 0
  is set), and the draining loop that reads bytes while there are any. None is a loop that never ends.
\<close>

partial_function (option) ps2_wait_input :: "ports \<Rightarrow> ports option" where
  "ps2_wait_input s =
     (let (status, s') = inb 0x64 s in if status AND 2 \<noteq> 0 then ps2_wait_input s' else Some s')"

partial_function (option) ps2_wait_output :: "ports \<Rightarrow> ports option" where
  "ps2_wait_output s =
     (let (status, s') = inb 0x64 s in if status AND 1 = 0 then ps2_wait_output s' else Some s')"

partial_function (option) ps2_drain :: "ports \<Rightarrow> ports option" where
  "ps2_drain s =
     (let (status, s') = inb 0x64 s
      in if status AND 1 \<noteq> 0 then ps2_drain (snd (inb 0x60 s')) else Some s')"

definition waiting :: "ports option \<Rightarrow> ports res" where
  "waiting r = (case r of None \<Rightarrow> Inl (Spins ''PS/2'') | Some s \<Rightarrow> Inr s)"

definition KRNL_KEYBOARD_INTERRUPT :: u64 where
  "KRNL_KEYBOARD_INTERRUPT = 33"

text \<open>The commands Init sends: enable the first port, enable scanning; then the drain.\<close>

definition ps2_start :: "ports \<Rightarrow> ports res" where
  "ps2_start s =
     and_then (waiting (ps2_wait_input s)) (\<lambda>s.
     and_then (waiting (ps2_wait_input (outb 0x64 0xAE s))) (\<lambda>s.
     waiting (ps2_drain (outb 0x60 0xF4 s))))"

text \<open>\<open>hnd\<close> is the address of KeyboardInterruptHandler.\<close>

definition Keyboard_Init :: "u64 \<Rightarrow> kernel \<Rightarrow> kernel res" where
  "Keyboard_Init hnd k =
     and_then (INFO (cstr ''KEYBOARD: Initilizing keyboard driver'') [] (k_console k)) (\<lambda>c.
     and_then (RegisterInterrupt KRNL_KEYBOARD_INTERRUPT hnd (k\<lparr>k_console := c\<rparr>)) (\<lambda>k.
     and_then (ps2_start (con_ports (k_console k))) (\<lambda>ps.
       Inr (k\<lparr>k_console := (k_console k)\<lparr>con_ports := ps\<rparr>\<rparr>))))"

definition ClearAndEnablePS2 :: "ports \<Rightarrow> ports res" where
  "ClearAndEnablePS2 s =
     and_then (waiting (ps2_wait_input s)) (\<lambda>s.
     and_then (waiting (ps2_wait_output (outb 0x64 0x20 s))) (\<lambda>s.
     let (config, s) = inb 0x60 s;
         config = config OR 0x01
     in and_then (waiting (ps2_wait_input s)) (\<lambda>s.
        and_then (waiting (ps2_wait_input (outb 0x64 0x60 s))) (\<lambda>s.
          Inr (outb 0x60 config s)))))"

section \<open>One key\<close>

text \<open>The byte the controller has for the handler.\<close>

definition next_code :: "kernel \<Rightarrow> u8" where
  "next_code k = port_in (con_ports (k_console k)) (port_now (con_ports (k_console k))) 0x60"

text \<open>The shift flag after a scancode, and the character a scancode types (none when it types nothing).\<close>

definition shift_after :: "bl \<Rightarrow> u8 \<Rightarrow> bl" where
  "shift_after sh c = (if c = 0x2A \<or> c = 0x36 then ktrue else if c = 0xAA \<or> c = 0xB6 then kfalse else sh)"

definition char_of_code :: "bl \<Rightarrow> u8 \<Rightarrow> u8 list" where
  "char_of_code sh c =
     (if c \<in> {0x2A, 0x36} \<or> 128 \<le> unat c then []
      else let l = (if truthy sh then kbd_us_uppercase else kbd_us) ! unat c in if l = 0 then [] else [l])"

fun typed :: "bl \<Rightarrow> u8 list \<Rightarrow> u8 list" where
  "typed sh [] = []"
| "typed sh (c # cs) = char_of_code sh c @ typed (shift_after sh c) cs"

lemma high_bit: "(c :: u8) AND 0x80 = 0 \<longleftrightarrow> unat c < 128"
proof -
  have m: "(0x80 :: u8) = push_bit 7 1" by simp
  have "bit c 7 \<longleftrightarrow> bit (unat c) 7" by (simp add: bit_unsigned_iff)
  also have "\<dots> \<longleftrightarrow> odd (unat c div 128)" by (simp add: bit_iff_odd)
  also have "\<dots> \<longleftrightarrow> \<not> unat c < 128"
  proof (cases "unat c < 128")
    case False
    then have "unat c div 128 = 1" using unat_u8_lt [of c] by (intro div_nat_eqI) (simp_all del: unat_u8_lt)
    then show ?thesis using False by simp
  qed simp
  finally have "bit c 7 \<longleftrightarrow> \<not> unat c < 128" .
  then show ?thesis unfolding m using bit_iff_and_push_bit_not_eq_0 [of c 7] by simp
qed

text \<open>The handler in these terms: read the byte, print what it types, update the flag.\<close>

definition after_read :: "kernel \<Rightarrow> kernel" where
  "after_read k = k\<lparr>k_console := (k_console k)\<lparr>con_ports := snd (inb 0x60 (con_ports (k_console k)))\<rparr>\<rparr>"

lemma KeyboardInterruptHandler_types:
  "KeyboardInterruptHandler fr k =
     and_then (print_chars (char_of_code (shift k) (next_code k)) (k_console (after_read k))) (\<lambda>c.
       Inr ((after_read k)\<lparr>k_console := c, shift := shift_after (shift k) (next_code k)\<rparr>))"
proof -
  have i: "inb 0x60 (con_ports (k_console k)) = (next_code k, con_ports (k_console (after_read k)))"
    by (simp add: next_code_def inb_def after_read_def)
  have k1: "k\<lparr>k_console := (k_console k)\<lparr>con_ports := con_ports (k_console (after_read k))\<rparr>\<rparr> = after_read k"
    by (simp add: after_read_def)
  have n: "shift (after_read k) = shift k" by (simp add: after_read_def)
  have same: "(after_read k)\<lparr>k_console := c, shift := shift k\<rparr> = (after_read k)\<lparr>k_console := c\<rparr>" for c
    by (cases k) (simp add: after_read_def)
  show ?thesis
  proof (cases "next_code k \<in> {0x2A, 0x36, 0xAA, 0xB6}")
    case True
    then show ?thesis
      by (auto simp: KeyboardInterruptHandler_def i k1 char_of_code_def shift_after_def print_chars_def Let_def)
  next
    case False
    then show ?thesis
      by (auto simp: KeyboardInterruptHandler_def i k1 n char_of_code_def shift_after_def print_chars_def Let_def high_bit
          not_le and_then_assoc same)
  qed
qed

section \<open>Typing\<close>

text \<open>One key event: the controller holds the byte, and interrupt 33 is dispatched.\<close>

definition deliver :: "u8 \<Rightarrow> kernel \<Rightarrow> kernel" where
  "deliver c k = k\<lparr>k_console := (k_console k)\<lparr>con_ports := (con_ports (k_console k))
     \<lparr>port_in := (\<lambda>t p. if p = 0x60 then c else port_in (con_ports (k_console k)) t p)\<rparr>\<rparr>\<rparr>"

text \<open>The code at the registered address is the keyboard handler.\<close>

definition keyboard_at :: "u64 \<Rightarrow> u64 \<Rightarrow> interrupt_frame \<Rightarrow> kernel \<Rightarrow> kernel res" where
  "keyboard_at hnd a fr k = (if a = hnd then KeyboardInterruptHandler fr k else Inl (Panic ''unknown code''))"

definition key_event :: "u64 \<Rightarrow> u8 \<Rightarrow> kernel \<Rightarrow> kernel res" where
  "key_event hnd c k = IRQHandler (keyboard_at hnd) (frame_of 33) (deliver c k)"

definition keyboard_ready :: "u64 \<Rightarrow> nat \<Rightarrow> nat \<Rightarrow> kernel \<Rightarrow> bool" where
  "keyboard_ready hnd cols rows k \<longleftrightarrow> grid_ok cols rows (k_console k) \<and> table_ok k \<and>
     ExternalInterruptHandlers k ! 1 = hnd \<and> hnd \<noteq> 0"

lemma char_of_code_ascii: "unat l < 128" if "l \<in> set (char_of_code sh c)"
proof -
  have t: "list_all (\<lambda>l. unat l < 128) kbd_us" "list_all (\<lambda>l. unat l < 128) kbd_us_uppercase"
    by (simp_all add: kbd_us_def kbd_us_uppercase_def list_all_iff)
  show ?thesis using that t [unfolded list_all_length] by (auto simp: char_of_code_def Let_def split: if_splits)
qed

lemma grid_ok_cong:
  assumes "\<And>t. port_in (con_ports st') t (COM1 + 5) = port_in (con_ports st) t (COM1 + 5)"
    and "fb_ptr_set st' = fb_ptr_set st" "gfx st' = gfx st" "con_mem st' = con_mem st"
    "ConsoleConfiguration st' = ConsoleConfiguration st" "CursorPosition st' = CursorPosition st"
  shows "grid_ok cols rows st' = grid_ok cols rows st" and "cursor_index cols st' = cursor_index cols st"
  using assms by (simp_all add: grid_ok_def console_ok_def cell_size_def uart_alive_def uart_ready_def cursor_index_def)

lemma key_event_types:
  assumes r: "keyboard_ready hnd cols rows k"
    and room: "has_room cols rows (char_of_code (shift k) c) (k_console k)"
  shows "\<exists>k'. key_event hnd c k = Inr k' \<and> keyboard_ready hnd cols rows k' \<and> shift k' = shift_after (shift k) c \<and>
    sent (con_ports (k_console k')) = sent (con_ports (k_console k)) @ char_of_code (shift k) c \<and>
    cursor_index cols (k_console k') \<le> cursor_index cols (k_console k) + text_room cols (char_of_code (shift k) c) \<and>
    msr_log (k_cpu k') = msr_log (k_cpu k) @ [(0x80B, 0)]"
proof -
  let ?d = "deliver c k" and ?con = "k_console (after_read (deliver c k))"
  have code: "next_code ?d = c" "shift ?d = shift k" by (simp_all add: next_code_def deliver_def)
  have g: "grid_ok cols rows ?con" "cursor_index cols ?con = cursor_index cols (k_console k)"
    using r grid_ok_cong(1) [of ?con "k_console k" cols rows] grid_ok_cong(2) [of ?con "k_console k" cols]
    by (simp_all add: keyboard_ready_def after_read_def deliver_def inb_def COM1_def)
  have "ascii (char_of_code (shift k) c)" using char_of_code_ascii by (simp add: ascii_def)
  moreover have "has_room cols rows (char_of_code (shift k) c) ?con" using room g(2) by (simp add: has_room_def)
  ultimately obtain c' where c': "print_chars (char_of_code (shift k) c) ?con = Inr c'" "grid_ok cols rows c'"
      "cursor_index cols c' \<le> cursor_index cols (k_console k) + text_room cols (char_of_code (shift k) c)"
    using grid_chars [OF g(1)] g(2) by auto
  have "sent (con_ports ?con) = sent (con_ports (k_console k))" by (simp add: after_read_def deliver_def inb_def sent_def)
  then have s: "sent (con_ports c') = sent (con_ports (k_console k)) @ char_of_code (shift k) c"
    using print_chars_sent [OF c'(1)] by simp
  have "KeyboardInterruptHandler (frame_of 33) ?d = Inr ((after_read ?d)\<lparr>k_console := c', shift := shift_after (shift k) c\<rparr>)"
    using c'(1) by (simp add: KeyboardInterruptHandler_types code)
  moreover have "table_ok ?d" "ExternalInterruptHandlers ?d ! 1 = hnd" "hnd \<noteq> 0"
    using r by (simp_all add: keyboard_ready_def deliver_def table_ok_def)
  ultimately have "key_event hnd c k = Inr (let k' = (after_read ?d)\<lparr>k_console := c', shift := shift_after (shift k) c\<rparr>
      in k'\<lparr>k_cpu := SendEOI (k_ioapic k') (k_cpu k')\<rparr>)"
    by (simp add: key_event_def IRQHandler_def frame_of_def [of 33] table_ok_def keyboard_at_def Let_def)
  then show ?thesis
    using r c'(2,3) s by (simp add: keyboard_ready_def table_ok_def after_read_def deliver_def SendEOI_def SendIOAPICEOI_def Let_def)
qed

section \<open>The waits\<close>

definition input_empty :: "ports \<Rightarrow> nat \<Rightarrow> bool" where
  "input_empty s t \<longleftrightarrow> port_in s t 0x64 AND 2 = 0"

definition output_full :: "ports \<Rightarrow> nat \<Rightarrow> bool" where
  "output_full s t \<longleftrightarrow> port_in s t 0x64 AND 1 \<noteq> 0"

lemma ps2_wait_input_SomeD:
  assumes "ps2_wait_input s = Some s'"
  shows "\<exists>t \<ge> port_now s. input_empty s t"
  by (rule ps2_wait_input.raw_induct [OF _ assms])
     (fastforce simp: Let_def inb_def input_empty_def split: if_splits dest: Suc_leD)

lemma ps2_wait_output_SomeD:
  assumes "ps2_wait_output s = Some s'"
  shows "\<exists>t \<ge> port_now s. output_full s t"
  by (rule ps2_wait_output.raw_induct [OF _ assms])
     (fastforce simp: Let_def inb_def output_full_def split: if_splits dest: Suc_leD)

interpretation ps2_in: polling ps2_wait_input input_empty
proof unfold_locales
  show "ps2_wait_input s = (if input_empty s (port_now s) then Some (s\<lparr>port_now := Suc (port_now s)\<rparr>)
      else ps2_wait_input (s\<lparr>port_now := Suc (port_now s)\<rparr>))" for s
    by (subst ps2_wait_input.simps) (simp add: inb_def input_empty_def)
  show "input_empty (s\<lparr>port_now := n\<rparr>) t = input_empty s t" for s n t by (simp add: input_empty_def)
qed (rule ps2_wait_input_SomeD)

interpretation ps2_out: polling ps2_wait_output output_full
proof unfold_locales
  show "ps2_wait_output s = (if output_full s (port_now s) then Some (s\<lparr>port_now := Suc (port_now s)\<rparr>)
      else ps2_wait_output (s\<lparr>port_now := Suc (port_now s)\<rparr>))" for s
    by (subst ps2_wait_output.simps) (simp add: inb_def output_full_def)
  show "output_full (s\<lparr>port_now := n\<rparr>) t = output_full s t" for s n t by (simp add: output_full_def)
qed (rule ps2_wait_output_SomeD)

text \<open>The controller falls silent: from some moment on its input buffer is empty and it has no byte.\<close>

definition ps2_quiet :: "ports \<Rightarrow> nat \<Rightarrow> bool" where
  "ps2_quiet s n \<longleftrightarrow> (\<forall>t \<ge> n. port_in s t 0x64 AND 1 = 0 \<and> port_in s t 0x64 AND 2 = 0)"

lemma ps2_quiet_cong: "port_in s' = port_in s \<Longrightarrow> ps2_quiet s' n = ps2_quiet s n"
  by (simp add: ps2_quiet_def)

lemma ps2_wait_quiet:
  assumes "ps2_quiet s n"
  shows "\<exists>t. ps2_wait_input s = Some (s\<lparr>port_now := t\<rparr>)"
  using ps2_in.ends_iff [of s] assms by (auto simp: input_empty_def ps2_quiet_def intro!: exI [of _ "max n (port_now s)"])

lemma ps2_drain_quiet: "ps2_quiet s n \<Longrightarrow> \<exists>t. ps2_drain s = Some (s\<lparr>port_now := t\<rparr>)"
proof (induction "n - port_now s" arbitrary: s rule: less_induct)
  case less
  let ?s = "s\<lparr>port_now := Suc (Suc (port_now s))\<rparr>"
  have u: "ps2_drain s = (if output_full s (port_now s) then ps2_drain ?s else Some (s\<lparr>port_now := Suc (port_now s)\<rparr>))"
    by (subst ps2_drain.simps) (simp add: inb_def output_full_def)
  show ?case
  proof (cases "output_full s (port_now s)")
    case True
    then have "\<not> n \<le> port_now s" using less.prems by (auto simp: ps2_quiet_def output_full_def)
    moreover have "ps2_quiet ?s n" using less.prems by (simp add: ps2_quiet_def)
    ultimately have "\<exists>t. ps2_drain ?s = Some (?s\<lparr>port_now := t\<rparr>)" by (intro less.hyps) simp_all
    then show ?thesis using True u by simp
  qed (use u in auto)
qed

definition keyboard_message :: "u8 list" where
  "keyboard_message = cstr ''KEYBOARD: Initilizing keyboard driver''"

lemma ps2_start_quiet:
  assumes "ps2_quiet s n"
  shows "\<exists>s'. ps2_start s = Inr s' \<and> port_log s' = port_log s @ [(0x64, 0xAE), (0x60, 0xF4)] \<and> port_in s' = port_in s"
proof -
  obtain t1 where 1: "ps2_wait_input s = Some (s\<lparr>port_now := t1\<rparr>)" using ps2_wait_quiet [OF assms] by blast
  let ?s1 = "outb 0x64 0xAE (s\<lparr>port_now := t1\<rparr>)"
  obtain t2 where 2: "ps2_wait_input ?s1 = Some (?s1\<lparr>port_now := t2\<rparr>)"
    using ps2_wait_quiet [of ?s1 n] assms ps2_quiet_cong [of ?s1 s] by auto
  let ?s2 = "outb 0x60 0xF4 (?s1\<lparr>port_now := t2\<rparr>)"
  obtain t3 where 3: "ps2_drain ?s2 = Some (?s2\<lparr>port_now := t3\<rparr>)"
    using ps2_drain_quiet [of ?s2 n] assms ps2_quiet_cong [of ?s2 s] by auto
  show ?thesis using 1 2 3 by (simp add: ps2_start_def waiting_def)
qed

section \<open>Properties\<close>

text \<open>With the keyboard registered, a sequence of key events whose text fits on the screen types exactly that text: each
  press gives the table's character for the shift state at that moment, key releases and unknown keys give nothing, and the shift
  flag is the last shift press or release. Every event signals one end of interrupt.\<close>

lemma keyboard_types_text:
  assumes "keyboard_ready hnd cols rows k" and "has_room cols rows (typed (shift k) cs) (k_console k)"
  shows "\<exists>k'. for_each (key_event hnd) cs k = Inr k' \<and> shift k' = foldl shift_after (shift k) cs \<and>
    sent (con_ports (k_console k')) = sent (con_ports (k_console k)) @ typed (shift k) cs \<and>
    msr_log (k_cpu k') = msr_log (k_cpu k) @ replicate (length cs) (0x80B, 0)"
  using assms
proof (induction cs arbitrary: k)
  case Nil
  then show ?case by simp
next
  case (Cons c cs)
  obtain k1 where k1: "key_event hnd c k = Inr k1" "keyboard_ready hnd cols rows k1" "shift k1 = shift_after (shift k) c"
      "sent (con_ports (k_console k1)) = sent (con_ports (k_console k)) @ char_of_code (shift k) c"
      "cursor_index cols (k_console k1) \<le> cursor_index cols (k_console k) + text_room cols (char_of_code (shift k) c)"
      "msr_log (k_cpu k1) = msr_log (k_cpu k) @ [(0x80B, 0)]"
    using key_event_types [OF Cons.prems(1), of c] Cons.prems(2) by (auto simp: has_room_def)
  have "has_room cols rows (typed (shift k1) cs) (k_console k1)" using Cons.prems(2) k1(3,5) by (simp add: has_room_def)
  then obtain k' where "for_each (key_event hnd) cs k1 = Inr k'" "shift k' = foldl shift_after (shift k1) cs"
      "sent (con_ports (k_console k')) = sent (con_ports (k_console k1)) @ typed (shift k1) cs"
      "msr_log (k_cpu k') = msr_log (k_cpu k1) @ replicate (length cs) (0x80B, 0)"
    using Cons.IH [OF k1(2)] by auto
  then show ?case using k1 by simp
qed

definition keyboard_kernel :: kernel where
  "keyboard_kernel = kernel0\<lparr>k_console := strip_console, ExternalInterruptHandlers := (replicate 32 0)[1 := 0x5000]\<rparr>"

text \<open>Shift down, H, H up, shift up, I: \<open>Hi\<close>.\<close>

lemma keyboard_types_text_witness:
  "\<exists>k'. for_each (key_event 0x5000) [0x2A, 0x23, 0xA3, 0xAA, 0x17] keyboard_kernel = Inr k' \<and>
    sent (con_ports (k_console k')) = cstr ''Hi'' \<and> shift k' = 0"
proof -
  have r: "keyboard_ready 0x5000 2 1 keyboard_kernel"
    using strip_grid by (simp add: keyboard_ready_def keyboard_kernel_def table_ok_def kernel0_def)
  have t: "typed (shift keyboard_kernel) [0x2A, 0x23, 0xA3, 0xAA, 0x17] = cstr ''Hi''"
    by (simp add: keyboard_kernel_def kernel0_def char_of_code_def shift_after_def kbd_us_def kbd_us_uppercase_def
        ktrue_def kfalse_def truthy_def)
  have i: "has_room 2 1 (cstr ''Hi'') (k_console keyboard_kernel)"
    by (simp add: has_room_def keyboard_kernel_def kernel0_def cursor_index_def strip_console_def)
  have "sent (con_ports (k_console keyboard_kernel)) = []" "foldl shift_after (shift keyboard_kernel) [0x2A, 0x23, 0xA3, 0xAA, 0x17] = 0"
    by (simp_all add: keyboard_kernel_def kernel0_def strip_console_def sent_def shift_after_def kfalse_def)
  then show ?thesis using keyboard_types_text [OF r, of "[0x2A, 0x23, 0xA3, 0xAA, 0x17]", unfolded t, OF i] by auto
qed

text \<open>C32: on a ready screen with room for its line, and with a controller that eventually falls silent, the keyboard's Init
  returns: the line is printed, the handler registered for interrupt 33, and the last two port writes are the controller's two commands.\<close>

theorem Keyboard_Init_returns:
  assumes "screen_ok cols rows (k_console k)" and "has_room cols rows (line_text KInfo keyboard_message) (k_console k)"
    and "ps2_quiet (con_ports (k_console k)) n" and "table_ok k" and "hnd \<noteq> 0"
  shows "\<exists>k' l. Keyboard_Init hnd k = Inr k' \<and> screen_ok cols rows (k_console k') \<and>
    ExternalInterruptHandlers k' = (ExternalInterruptHandlers k)[1 := hnd] \<and>
    sent (con_ports (k_console k')) = sent (con_ports (k_console k)) @ line_text KInfo keyboard_message \<and>
    port_log (con_ports (k_console k')) = l @ [(0x64, 0xAE), (0x60, 0xF4)]"
proof -
  have m: "plain keyboard_message" "render keyboard_message [] = Some keyboard_message" "ascii keyboard_message"
    by (simp_all add: keyboard_message_def at_tag_def)
  from prints_line [OF assms(1) m assms(2)] obtain c where c: "INFO keyboard_message [] (k_console k) = Inr c" "screen_ok cols rows c"
      "printed (line_text KInfo keyboard_message) (k_console k) c"
    by (auto simp: prints_def)
  have "ps2_quiet (con_ports c) n" using c(3) assms(3) by (simp add: printed_def ps2_quiet_def)
  from ps2_start_quiet [OF this] obtain ps where ps: "ps2_start (con_ports c) = Inr ps"
      "port_log ps = port_log (con_ports c) @ [(0x64, 0xAE), (0x60, 0xF4)]" "port_in ps = port_in (con_ports c)" by blast
  have "sent ps = sent (con_ports c)" using ps(2) by (simp add: sent_def COM1_def)
  moreover have "screen_ok cols rows (c\<lparr>con_ports := ps\<rparr>)"
    using c(2) uart_alive_cong [OF ps(3)] by (simp add: screen_ok_def grid_ok_def console_ok_def cell_size_def)
  moreover have "RegisterInterrupt (32 + of_nat 1) hnd (k\<lparr>k_console := c\<rparr>) =
      Inr (k\<lparr>k_console := c, ExternalInterruptHandlers := (ExternalInterruptHandlers k)[1 := hnd]\<rparr>)"
    by (subst RegisterInterrupt_in_range) (use assms(4,5) in \<open>simp_all add: table_ok_def\<close>)
  ultimately show ?thesis
    using c(1,3) ps(1,2) by (simp add: Keyboard_Init_def KRNL_KEYBOARD_INTERRUPT_def keyboard_message_def printed_def)
qed

theorem Keyboard_Init_returns_witness:
  "\<exists>k'. Keyboard_Init 0x5000 (kernel0\<lparr>k_console := page_console\<rparr>) = Inr k' \<and>
    ExternalInterruptHandlers k' = (replicate 32 0)[1 := 0x5000] \<and>
    sent (con_ports (k_console k')) = cstr ''INFO KEYBOARD: Initilizing keyboard driver'' @ [10]"
proof -
  let ?k = "kernel0\<lparr>k_console := page_console\<rparr>"
  have "has_room 80 25 (line_text KInfo keyboard_message) (k_console ?k)"
    by (simp add: has_room_def cursor_index_def line_text_def keyboard_message_def)
  moreover have "ps2_quiet (con_ports (k_console ?k)) 0" "table_ok ?k" "sent (con_ports (k_console ?k)) = []"
    by (simp_all add: ps2_quiet_def table_ok_def kernel0_def sent_def)
  ultimately show ?thesis
    using Keyboard_Init_returns [of 80 25 ?k 0 "0x5000"] page_screen
    by (auto simp: kernel0_def line_text_def keyboard_message_def)
qed

end
