(* ===== verification/Ramdisk.thy ===== *)
theory Ramdisk
  imports Utils
begin

text \<open>
  Block devices (\<^verbatim>\<open>include/blockdev/blockdevice.hpp\<close>), the ramdisk that implements one
  (\<^verbatim>\<open>kernel/block/ramdisk.cpp\<close>), and the search for it among Limine's modules
  (\<^verbatim>\<open>kernel/arch/x86_64/boot/ramdisk.cpp\<close>). The locale \<open>block_store\<close> is the contract of a
  block device: a sector reads back as it was last written and no other sector changes.
\<close>

section \<open>Data\<close>

text \<open>The function pointers of a device, and the ramdisk's two routines they can point to.\<close>

datatype blk_fn = Null_fn | RAMDISK_Read_fn | RAMDISK_Write_fn

record RamdiskData =
  rd_addr :: u64
  rd_sector_size :: u64

text \<open>\<^verbatim>\<open>PrivateDeviceData\<close> is null or points to the one static \<^verbatim>\<open>ramdisk_data\<close>.\<close>

datatype private_data = No_data | At_ramdisk_data

record BlockDevice =
  ReadSector :: blk_fn
  WriteSector :: blk_fn
  GetDeviceInfo :: blk_fn
  PrivateDeviceData :: private_data

record Ramdisk =
  disk_addr :: u64
  disk_size :: u64

record blk_state =
  blk_mem :: mem
  ramdisk_data :: RamdiskData
  blk_log :: "log_event list"

definition blk_say :: "log_kind \<Rightarrow> string \<Rightarrow> u64 list \<Rightarrow> blk_state \<Rightarrow> blk_state" where
  "blk_say k s args b = b\<lparr>blk_log := blk_log b @ [(k, s, args)]\<rparr>"

definition RAMDISK_SectorSize :: u64 where
  "RAMDISK_SectorSize = 512"

section \<open>Sectors\<close>

text \<open>The last argument of each is the address of the device structure, which only the message prints.\<close>

definition RAMDISK_ReadSector :: "u64 \<Rightarrow> u64 \<Rightarrow> BlockDevice \<Rightarrow> u64 \<Rightarrow> blk_state \<Rightarrow> (bl \<times> blk_state) res" where
  "RAMDISK_ReadSector buffer sector dev dev_at b =
     (case PrivateDeviceData dev of
        No_data \<Rightarrow> Inr (kfalse, blk_say KError
          ''ReadSector called with an invalid ramdisk BlockDevice(MISSING_RAMDISK_PTR) BlockDevice: 0x%x'' [dev_at] b)
      | At_ramdisk_data \<Rightarrow>
          let PointerToStartOfSector = rd_addr (ramdisk_data b) + sector * RAMDISK_SectorSize
          in if PointerToStartOfSector \<noteq> 0 then
               and_then (memcpy (blk_mem b) buffer PointerToStartOfSector RAMDISK_SectorSize) (\<lambda>(_, m).
                 Inr (ktrue, b\<lparr>blk_mem := m\<rparr>))
             else Inr (kfalse, b))"

definition RAMDISK_WriteSector :: "u64 \<Rightarrow> u64 \<Rightarrow> BlockDevice \<Rightarrow> u64 \<Rightarrow> blk_state \<Rightarrow> (bl \<times> blk_state) res" where
  "RAMDISK_WriteSector buffer sector dev dev_at b =
     (case PrivateDeviceData dev of
        No_data \<Rightarrow> Inr (kfalse, blk_say KError
          ''WriteSector called with an invalid ramdisk BlockDevice(MISSING_RAMDISK_PTR) BlockDevice: 0x%x'' [dev_at] b)
      | At_ramdisk_data \<Rightarrow>
          let PointerToStartOfSector = rd_addr (ramdisk_data b) + sector * RAMDISK_SectorSize
          in if PointerToStartOfSector \<noteq> 0 then
               and_then (memcpy (blk_mem b) PointerToStartOfSector buffer RAMDISK_SectorSize) (\<lambda>(_, m).
                 Inr (ktrue, b\<lparr>blk_mem := m\<rparr>))
             else Inr (kfalse, b))"

section \<open>Finding the ramdisk\<close>

text \<open>A module as Limine describes it; \<open>file_string\<close> is 0 when it has none.\<close>

record limine_file =
  file_address :: u64
  file_size :: u64
  file_string :: u64

text \<open>
  The scan for the module whose string is \<^verbatim>\<open>ramdisk\<close>; \<open>lit\<close> is the address of that literal.
  None means that the loop ran to its end.
\<close>

fun find_ramdisk :: "u64 \<Rightarrow> limine_file option list \<Rightarrow> nat \<Rightarrow> blk_state \<Rightarrow> (limine_file option \<times> blk_state) res" where
  "find_ramdisk lit [] i b = Inr (None, b)"
| "find_ramdisk lit (f # fs) i b =
     (case f of
        None \<Rightarrow> find_ramdisk lit fs (Suc i) (blk_say KError ''RAMDISK: Skipped an empty or invalid module at index %u\<newline>'' [of_nat i] b)
      | Some file \<Rightarrow>
          if file_string file = 0
          then find_ramdisk lit fs (Suc i) (blk_say KError ''RAMDISK: Skipped an empty or invalid module at index %u\<newline>'' [of_nat i] b)
          else
            and_then (strcmp (blk_mem b) (file_string file) lit) (\<lambda>eq.
              if eq = ktrue then Inr (Some file, b) else find_ramdisk lit fs (Suc i) b))"

text \<open>
  \<^verbatim>\<open>ramdisk_file\<close> is not initialised: when the scan finds nothing it is whatever the stack
  holds there, \<open>stack_file\<close> (None if that happens to be null).
\<close>

definition GetCurrentRamdisk :: "u64 \<Rightarrow> limine_file option list option \<Rightarrow> limine_file option \<Rightarrow> blk_state \<Rightarrow>
    (Ramdisk \<times> blk_state) res" where
  "GetCurrentRamdisk lit response stack_file b =
     (case response of
        None \<Rightarrow> Inl (Panic ''RAMDISK: Limine did not give us an ramdisk! Is it loaded as an module?'')
      | Some modules \<Rightarrow>
          and_then (find_ramdisk lit modules 0
              (blk_say KOk ''RAMDISK: Amount of modules given by Limine: %u'' [of_nat (length modules)] b)) (\<lambda>(found, b).
            case (case found of Some f \<Rightarrow> Some f | None \<Rightarrow> stack_file) of
              None \<Rightarrow> Inl (Panic ''RAMDISK: Choulnt find any valid ramdisk!'')
            | Some f \<Rightarrow> Inr (\<lparr>disk_addr = file_address f, disk_size = file_size f\<rparr>, b)))"

definition Ramdisk_Init :: "u64 \<Rightarrow> limine_file option list option \<Rightarrow> limine_file option \<Rightarrow> BlockDevice \<Rightarrow> blk_state \<Rightarrow>
    (BlockDevice \<times> blk_state) res" where
  "Ramdisk_Init lit response stack_file blk_device b =
     and_then (GetCurrentRamdisk lit response stack_file b) (\<lambda>(ramdisk, b).
       Inr (blk_device\<lparr>PrivateDeviceData := At_ramdisk_data, WriteSector := RAMDISK_Write_fn,
              ReadSector := RAMDISK_Read_fn\<rparr>,
            b\<lparr>ramdisk_data := \<lparr>rd_addr = disk_addr ramdisk,
              rd_sector_size = disk_size ramdisk * RAMDISK_SectorSize\<rparr>\<rparr>))"

section \<open>The contract of a block device\<close>

text \<open>
  \<open>sector m k\<close> is the content of sector \<open>k\<close>, \<open>buf m a\<close> that of the buffer at \<open>a\<close>; \<open>sane m a k\<close> says that sector and
  buffer can be transferred.
\<close>

locale block_store =
  fixes rd :: "'a \<Rightarrow> 'k \<Rightarrow> 'm \<Rightarrow> (bl \<times> 'm) res" and wr :: "'a \<Rightarrow> 'k \<Rightarrow> 'm \<Rightarrow> (bl \<times> 'm) res"
    and sector :: "'m \<Rightarrow> 'k \<Rightarrow> 'v" and buf :: "'m \<Rightarrow> 'a \<Rightarrow> 'v" and sane :: "'m \<Rightarrow> 'a \<Rightarrow> 'k \<Rightarrow> bool"
  assumes read_ok: "sane m a k \<Longrightarrow> \<exists>m'. rd a k m = Inr (ktrue, m') \<and> buf m' a = sector m k \<and>
      (\<forall>j. sane m a j \<longrightarrow> sector m' j = sector m j) \<and> sane m' = sane m"
    and write_ok: "sane m a k \<Longrightarrow> \<exists>m'. wr a k m = Inr (ktrue, m') \<and> sector m' k = buf m a \<and>
      (\<forall>j. sane m a j \<longrightarrow> j \<noteq> k \<longrightarrow> sector m' j = sector m j) \<and> sane m' = sane m"
begin

text \<open>Writing from one buffer and reading into another copies the buffer.\<close>

lemma write_read:
  assumes "sane m a k" and "sane m c k"
  shows "\<exists>m' m''. wr a k m = Inr (ktrue, m') \<and> rd c k m' = Inr (ktrue, m'') \<and> buf m'' c = buf m a"
proof -
  obtain m' where m': "wr a k m = Inr (ktrue, m')" "sector m' k = buf m a" "sane m' = sane m"
    using write_ok [OF assms(1)] by blast
  then have "sane m' c k" using assms(2) by simp
  then show ?thesis using read_ok [of m' c k] m' by metis
qed

text \<open>Copying sector \<open>k\<close> to sector \<open>j\<close> through a buffer.\<close>

lemma copy_sector:
  assumes "sane m a k" and "sane m a j"
  shows "\<exists>m' m''. rd a k m = Inr (ktrue, m') \<and> wr a j m' = Inr (ktrue, m'') \<and> sector m'' j = sector m k \<and>
    (\<forall>i. sane m a i \<longrightarrow> i \<noteq> j \<longrightarrow> sector m'' i = sector m i)"
proof -
  obtain m' where m': "rd a k m = Inr (ktrue, m')" "buf m' a = sector m k"
      "\<forall>i. sane m a i \<longrightarrow> sector m' i = sector m i" "sane m' = sane m"
    using read_ok [OF assms(1)] by blast
  have "sane m' a j" using assms(2) m'(4) by simp
  from write_ok [OF this] obtain m'' where "wr a j m' = Inr (ktrue, m'')" "sector m'' j = buf m' a"
      "\<forall>i. sane m' a i \<longrightarrow> i \<noteq> j \<longrightarrow> sector m'' i = sector m' i" by blast
  then show ?thesis using m' by auto
qed

end

section \<open>A ramdisk of whole sectors\<close>

text \<open>The sector's address, and what must hold to transfer it: disk and buffer are mapped and apart.\<close>

definition sector_at :: "RamdiskData \<Rightarrow> u64 \<Rightarrow> u64" where
  "sector_at d k = rd_addr d + k * 512"

definition disk_ok :: "RamdiskData \<Rightarrow> nat \<Rightarrow> blk_state \<Rightarrow> bool" where
  "disk_ok d n b \<longleftrightarrow> rd_addr d \<noteq> 0 \<and> unat (rd_addr d) + n * 512 < 2 ^ 64 \<and> mapped (blk_mem b) (rd_addr d) (n * 512)"

definition transfer_ok :: "RamdiskData \<Rightarrow> nat \<Rightarrow> blk_state \<Rightarrow> u64 \<Rightarrow> u64 \<Rightarrow> bool" where
  "transfer_ok d n b buffer k \<longleftrightarrow> ramdisk_data b = d \<and> disk_ok d n b \<and> unat k < n \<and> mapped (blk_mem b) buffer 512 \<and>
     region buffer 512 \<inter> region (rd_addr d) (n * 512) = {}"

definition sector_bytes :: "RamdiskData \<Rightarrow> blk_state \<Rightarrow> u64 \<Rightarrow> u8 list" where
  "sector_bytes d b k = get_bytes (blk_mem b) (sector_at d k) 512"

lemma get_bytes_cong: "(\<And>x. in_region a n x \<Longrightarrow> m' x = m x) \<Longrightarrow> n < 2 ^ 64 \<Longrightarrow> get_bytes m' a n = get_bytes m a n"
  by (simp add: get_bytes_def)

lemma sector_offset:
  assumes "disk_ok d n b" and "unat k < n"
  shows "sector_at d k = rd_addr d + of_nat (unat k * 512)" and "unat (sector_at d k) = unat (rd_addr d) + unat k * 512"
    and "unat k * 512 + 512 \<le> n * 512"
proof -
  have b: "unat (rd_addr d) + n * 512 < 2 ^ 64" using assms(1) by (simp add: disk_ok_def)
  show s: "sector_at d k = rd_addr d + of_nat (unat k * 512)" by (simp add: sector_at_def)
  show l: "unat k * 512 + 512 \<le> n * 512" using assms(2) by simp
  then have "unat (rd_addr d) + unat k * 512 < 2 ^ 64" using b by linarith
  then show "unat (sector_at d k) = unat (rd_addr d) + unat k * 512" unfolding s by (rule unat_add_of_nat64)
qed

lemma sector_in_disk:
  assumes "disk_ok d n b" and "unat k < n" and "in_region (sector_at d k) 512 x"
  shows "in_region (rd_addr d) (n * 512) x"
proof -
  obtain i where "i < 512" "x = sector_at d k + of_nat i" using assms(3) in_region_offset [of 512 "sector_at d k" x] by auto
  then have x: "x = rd_addr d + of_nat (unat k * 512 + i)" using sector_offset(1) [OF assms(1,2)] by (simp add: add.assoc)
  have "unat k * 512 + i < n * 512" using sector_offset(3) [OF assms(1,2)] \<open>i < 512\<close> by linarith
  moreover have "n * 512 < 2 ^ 64" using assms(1) by (simp add: disk_ok_def)
  ultimately show ?thesis unfolding x by (simp only: in_region_add)
qed

lemma sectors_apart:
  assumes "disk_ok d n b" and "unat j < n" and "unat k < n" and "j \<noteq> k"
  shows "region (sector_at d j) 512 \<inter> region (sector_at d k) 512 = {}"
proof -
  have False if "in_region (sector_at d j) 512 x" "in_region (sector_at d k) 512 x" for x
  proof -
    have "\<exists>i < 512. x = sector_at d j + of_nat i" "\<exists>l < 512. x = sector_at d k + of_nat l"
      using that in_region_offset [of 512 "sector_at d j" x] in_region_offset [of 512 "sector_at d k" x] by simp_all
    then obtain i l where il: "i < 512" "x = sector_at d j + of_nat i" "l < 512" "x = sector_at d k + of_nat l"
      by blast
    have "rd_addr d + of_nat (unat j * 512 + i) = rd_addr d + of_nat (unat k * 512 + l)"
      using il(2,4) sector_offset(1) [OF assms(1,2)] sector_offset(1) [OF assms(1,3)] by (simp add: add.assoc)
    moreover have "unat j * 512 + i < 2 ^ 64" "unat k * 512 + l < 2 ^ 64"
      using sector_offset(3) [OF assms(1,2)] sector_offset(3) [OF assms(1,3)] il(1,3) assms(1) unfolding disk_ok_def by linarith+
    ultimately have "unat j * 512 + i = unat k * 512 + l" by (simp only: add_of_nat64_cancel)
    then have "(unat j * 512 + i) div 512 = (unat k * 512 + l) div 512" by simp
    then show False using il(1,3) assms(4) by (simp add: word_unat_eq_iff)
  qed
  then show ?thesis by (auto simp: set_eq_iff)
qed

lemma transfer_ok_dom:
  assumes "dom (blk_mem b') = dom (blk_mem b)" and "ramdisk_data b' = ramdisk_data b"
  shows "transfer_ok d n b' = transfer_ok d n b"
  using mapped_dom [OF assms(1)] assms(2) by (simp add: fun_eq_iff transfer_ok_def disk_ok_def)

lemma sector_nonzero: "disk_ok d n b \<Longrightarrow> unat k < n \<Longrightarrow> rd_addr d + k * 512 \<noteq> 0"
proof -
  assume a: "disk_ok d n b" "unat k < n"
  have "unat (rd_addr d) \<noteq> 0" using a(1) by (simp add: disk_ok_def unat_eq_0)
  then have "unat (sector_at d k) \<noteq> 0" using sector_offset(2) [OF a] by simp
  then show ?thesis by (auto simp: sector_at_def)
qed

lemma ReadSector_result:
  assumes t: "transfer_ok d n b buffer k" and dev: "PrivateDeviceData dev = At_ramdisk_data"
  shows "RAMDISK_ReadSector buffer k dev dev_at b =
    Inr (ktrue, b\<lparr>blk_mem := put_bytes (blk_mem b) buffer (sector_bytes d b k)\<rparr>)"
proof -
  have ok: "disk_ok d n b" "unat k < n" "mapped (blk_mem b) buffer 512" and d: "ramdisk_data b = d"
    and ap: "region buffer 512 \<inter> region (rd_addr d) (n * 512) = {}" using t by (simp_all add: transfer_ok_def)
  have "mapped (blk_mem b) (sector_at d k) 512"
    unfolding sector_offset(1) [OF ok(1,2)] using ok(1) sector_offset(3) [OF ok(1,2)]
    by (intro mapped_sub) (auto simp: disk_ok_def)
  moreover have "region (sector_at d k) 512 \<inter> region buffer 512 = {}"
    using ap sector_in_disk [OF ok(1,2)] by (auto simp: set_eq_iff)
  ultimately have "memcpy (blk_mem b) buffer (sector_at d k) 512 =
      Inr (buffer, put_bytes (blk_mem b) buffer (sector_bytes d b k))"
    using memcpy_result [of "blk_mem b" "sector_at d k" 512 buffer] ok(3) by (simp add: sector_bytes_def)
  then show ?thesis
    using dev d sector_nonzero [OF ok(1,2)] by (simp add: RAMDISK_ReadSector_def RAMDISK_SectorSize_def Let_def sector_at_def)
qed

lemma WriteSector_result:
  assumes t: "transfer_ok d n b buffer k" and dev: "PrivateDeviceData dev = At_ramdisk_data"
  shows "RAMDISK_WriteSector buffer k dev dev_at b =
    Inr (ktrue, b\<lparr>blk_mem := put_bytes (blk_mem b) (sector_at d k) (get_bytes (blk_mem b) buffer 512)\<rparr>)"
proof -
  have ok: "disk_ok d n b" "unat k < n" "mapped (blk_mem b) buffer 512" and d: "ramdisk_data b = d"
    and ap: "region buffer 512 \<inter> region (rd_addr d) (n * 512) = {}" using t by (simp_all add: transfer_ok_def)
  have "mapped (blk_mem b) (sector_at d k) 512"
    unfolding sector_offset(1) [OF ok(1,2)] using ok(1) sector_offset(3) [OF ok(1,2)]
    by (intro mapped_sub) (auto simp: disk_ok_def)
  moreover have "region buffer 512 \<inter> region (sector_at d k) 512 = {}"
    using ap sector_in_disk [OF ok(1,2)] by (auto simp: set_eq_iff)
  ultimately have "memcpy (blk_mem b) (sector_at d k) buffer 512 =
      Inr (sector_at d k, put_bytes (blk_mem b) (sector_at d k) (get_bytes (blk_mem b) buffer 512))"
    using memcpy_result [of "blk_mem b" buffer 512 "sector_at d k"] ok(3) by simp
  then show ?thesis
    using dev d sector_nonzero [OF ok(1,2)] by (simp add: RAMDISK_WriteSector_def RAMDISK_SectorSize_def Let_def sector_at_def)
qed

text \<open>The device that Init makes of a ramdisk.\<close>

definition disk_device :: BlockDevice where
  "disk_device = \<lparr>ReadSector = RAMDISK_Read_fn, WriteSector = RAMDISK_Write_fn, GetDeviceInfo = Null_fn,
     PrivateDeviceData = At_ramdisk_data\<rparr>"

interpretation disk: block_store
  "\<lambda>a k b. RAMDISK_ReadSector a k disk_device at b" "\<lambda>a k b. RAMDISK_WriteSector a k disk_device at b"
  "sector_bytes d" "\<lambda>b a. get_bytes (blk_mem b) a 512" "transfer_ok d n" for d n "at"
proof unfold_locales
  fix b a k
  assume t: "transfer_ok d n b a k"
  then have ok: "disk_ok d n b" "unat k < n" "mapped (blk_mem b) a 512"
    and ap: "region a 512 \<inter> region (rd_addr d) (n * 512) = {}" by (simp_all add: transfer_ok_def)
  have dev: "PrivateDeviceData disk_device = At_ramdisk_data" by (simp add: disk_device_def)
  let ?r = "b\<lparr>blk_mem := put_bytes (blk_mem b) a (sector_bytes d b k)\<rparr>"
  let ?w = "b\<lparr>blk_mem := put_bytes (blk_mem b) (sector_at d k) (get_bytes (blk_mem b) a 512)\<rparr>"
  have len: "length (sector_bytes d b k) = 512" by (simp add: sector_bytes_def)
  have ms: "mapped (blk_mem b) (sector_at d k) 512"
    unfolding sector_offset(1) [OF ok(1,2)] using ok(1) sector_offset(3) [OF ok(1,2)]
    by (intro mapped_sub) (auto simp: disk_ok_def)
  have "get_bytes (blk_mem ?r) a 512 = sector_bytes d b k"
    using get_put_bytes [of "sector_bytes d b k" "blk_mem b" a] len by simp
  moreover have "sector_bytes d ?r j = sector_bytes d b j" if "transfer_ok d n b a j" for j
  proof -
    have j: "unat j < n" using that by (simp add: transfer_ok_def)
    show ?thesis unfolding sector_bytes_def
      by (rule get_bytes_cong) (use ap sector_in_disk [OF ok(1) j] len in \<open>auto simp: put_bytes_def set_eq_iff\<close>)
  qed
  moreover have "transfer_ok d n ?r = transfer_ok d n b"
    by (rule transfer_ok_dom) (use ok(3) len dom_put_bytes in simp_all)
  ultimately show "\<exists>m'. RAMDISK_ReadSector a k disk_device at b = Inr (ktrue, m') \<and>
      get_bytes (blk_mem m') a 512 = sector_bytes d b k \<and>
      (\<forall>j. transfer_ok d n b a j \<longrightarrow> sector_bytes d m' j = sector_bytes d b j) \<and> transfer_ok d n m' = transfer_ok d n b"
    using ReadSector_result [OF t dev] by blast
  have "sector_bytes d ?w k = get_bytes (blk_mem b) a 512"
    using get_put_bytes [of "get_bytes (blk_mem b) a 512" "blk_mem b" "sector_at d k"] by (simp add: sector_bytes_def)
  moreover have "sector_bytes d ?w j = sector_bytes d b j" if "transfer_ok d n b a j" "j \<noteq> k" for j
  proof -
    have j: "unat j < n" using that by (simp add: transfer_ok_def)
    show ?thesis unfolding sector_bytes_def
      by (rule get_bytes_cong) (use sectors_apart [OF ok(1) j ok(2) that(2)] in \<open>auto simp: put_bytes_def set_eq_iff\<close>)
  qed
  moreover have "transfer_ok d n ?w = transfer_ok d n b"
    by (rule transfer_ok_dom) (use ms dom_put_bytes in simp_all)
  ultimately show "\<exists>m'. RAMDISK_WriteSector a k disk_device at b = Inr (ktrue, m') \<and>
      sector_bytes d m' k = get_bytes (blk_mem b) a 512 \<and>
      (\<forall>j. transfer_ok d n b a j \<longrightarrow> j \<noteq> k \<longrightarrow> sector_bytes d m' j = sector_bytes d b j) \<and> transfer_ok d n m' = transfer_ok d n b"
    using WriteSector_result [OF t dev] by blast
qed

section \<open>Properties\<close>

text \<open>A disk of four sectors and two buffers, for the witnesses.\<close>

definition disk0 :: RamdiskData where
  "disk0 = \<lparr>rd_addr = 0x1000, rd_sector_size = 0x100000\<rparr>"

definition blk0 :: blk_state where
  "blk0 = \<lparr>blk_mem = zeroed 0x1000 0x4000, ramdisk_data = disk0, blk_log = []\<rparr>"

lemma mapped_zeroed_sub:
  assumes "k + j \<le> n" and "n \<le> 2 ^ 64" and "b = a + of_nat k"
  shows "mapped (zeroed a n) b j"
  using mapped_sub [OF mapped_zeroed [OF assms(2), of a] assms(1)] assms(3) by simp

lemma regions_disjoint_below:
  assumes "unat b + n \<le> unat a" and "unat a + k < 2 ^ 64"
  shows "region a k \<inter> region b n = {}"
proof -
  have False if x: "in_region a k x" "in_region b n x" for x
  proof -
    have n: "n \<le> 2 ^ 64" "k \<le> 2 ^ 64" using assms by simp_all
    obtain i where i: "i < k" "x = a + of_nat i" using x(1) in_region_offset [OF n(2)] by blast
    obtain j where j: "j < n" "x = b + of_nat j" using x(2) in_region_offset [OF n(1)] by blast
    have "unat x = unat a + i" unfolding i(2) using assms(2) i(1) by (intro unat_add_of_nat64) simp
    moreover have "unat x = unat b + j" unfolding j(2) using assms j(1) by (intro unat_add_of_nat64) simp
    ultimately show False using assms(1) j(1) by simp
  qed
  then show ?thesis by (auto simp: set_eq_iff)
qed

lemma transfer_ok_blk0:
  assumes "unat k < 4"
  shows "transfer_ok disk0 4 blk0 0x3000 k" and "transfer_ok disk0 4 blk0 0x4000 k"
  using assms
  by (simp_all add: transfer_ok_def disk_ok_def blk0_def disk0_def mapped_zeroed_sub [of 8192] mapped_zeroed_sub [of 12288]
      mapped_zeroed_sub [of 0] regions_disjoint_below)

text \<open>C16: a sector written from one buffer reads back into another as the bytes of the first.\<close>

theorem ramdisk_write_read:
  assumes "transfer_ok d n b a k" and "transfer_ok d n b c k"
  shows "\<exists>b' b''. RAMDISK_WriteSector a k disk_device dev_at b = Inr (ktrue, b') \<and>
    RAMDISK_ReadSector c k disk_device dev_at b' = Inr (ktrue, b'') \<and>
    get_bytes (blk_mem b'') c 512 = get_bytes (blk_mem b) a 512"
  by (rule disk.write_read [OF assms])

theorem ramdisk_write_read_witness:
  "\<exists>b' b''. RAMDISK_WriteSector 0x3000 2 disk_device 0 blk0 = Inr (ktrue, b') \<and>
    RAMDISK_ReadSector 0x4000 2 disk_device 0 b' = Inr (ktrue, b'') \<and>
    get_bytes (blk_mem b'') 0x4000 512 = get_bytes (blk_mem blk0) 0x3000 512"
  by (rule ramdisk_write_read [OF transfer_ok_blk0]) simp_all

text \<open>Copying a sector through a buffer makes the target equal to the source and leaves every other sector alone.\<close>

lemma ramdisk_copy_sector:
  assumes "transfer_ok d n b a k" and "transfer_ok d n b a j"
  shows "\<exists>b' b''. RAMDISK_ReadSector a k disk_device dev_at b = Inr (ktrue, b') \<and>
    RAMDISK_WriteSector a j disk_device dev_at b' = Inr (ktrue, b'') \<and>
    sector_bytes d b'' j = sector_bytes d b k \<and>
    (\<forall>i. transfer_ok d n b a i \<longrightarrow> i \<noteq> j \<longrightarrow> sector_bytes d b'' i = sector_bytes d b i)"
  by (rule disk.copy_sector [OF assms])

lemma ramdisk_copy_sector_witness:
  "\<exists>b' b''. RAMDISK_ReadSector 0x3000 1 disk_device 0 blk0 = Inr (ktrue, b') \<and>
    RAMDISK_WriteSector 0x3000 3 disk_device 0 b' = Inr (ktrue, b'') \<and>
    sector_bytes disk0 b'' 3 = sector_bytes disk0 blk0 1"
proof -
  have "transfer_ok disk0 4 blk0 0x3000 1" "transfer_ok disk0 4 blk0 0x3000 3" by (rule transfer_ok_blk0, simp)+
  from ramdisk_copy_sector [OF this, of 0] show ?thesis by blast
qed

text \<open>The disk's size is never consulted. A sector number that lies past the disk, even one whose byte offset
  wraps around, is written to whatever is mapped there, and the write reports success.\<close>

lemma ramdisk_writes_past_the_end:
  assumes "mapped (blk_mem b) buffer 512" and "sector_at (ramdisk_data b) k \<noteq> 0"
    and "mapped (blk_mem b) (sector_at (ramdisk_data b) k) 512"
    and "region buffer 512 \<inter> region (sector_at (ramdisk_data b) k) 512 = {}"
  shows "RAMDISK_WriteSector buffer k disk_device dev_at b = Inr (ktrue,
    b\<lparr>blk_mem := put_bytes (blk_mem b) (sector_at (ramdisk_data b) k) (get_bytes (blk_mem b) buffer 512)\<rparr>)"
  using memcpy_result [of "blk_mem b" buffer 512 "sector_at (ramdisk_data b) k"] assms
  by (simp add: RAMDISK_WriteSector_def disk_device_def RAMDISK_SectorSize_def Let_def sector_at_def)

lemma ramdisk_writes_past_the_end_witness:
  "RAMDISK_WriteSector 0x3000 (2 ^ 55 - 2) disk_device 0 (blk0\<lparr>ramdisk_data := \<lparr>rd_addr = 0x2000, rd_sector_size = 0\<rparr>\<rparr>) =
    Inr (ktrue, blk0\<lparr>ramdisk_data := \<lparr>rd_addr = 0x2000, rd_sector_size = 0\<rparr>,
      blk_mem := put_bytes (zeroed 0x1000 0x4000) 0x1C00 (get_bytes (zeroed 0x1000 0x4000) 0x3000 512)\<rparr>)"
proof -
  have "(18446744073709558784 :: u64) = 7168" by simp
  with ramdisk_writes_past_the_end [of "blk0\<lparr>ramdisk_data := \<lparr>rd_addr = 0x2000, rd_sector_size = 0\<rparr>\<rparr>" "0x3000" "2 ^ 55 - 2" 0]
  show ?thesis
    by (simp add: blk0_def sector_at_def mapped_zeroed_sub [of 8192] mapped_zeroed_sub [of 3072] regions_disjoint_below)
qed

text \<open>Init points the device at the module whose string is \<open>ramdisk\<close>, records its byte size times 512 as the sector size,
  leaves GetDeviceInfo as it was, and retargets every device set up before, since all of them point to the one static RamdiskData.\<close>

definition found_disk :: "u64 \<Rightarrow> limine_file option list \<Rightarrow> limine_file \<Rightarrow> blk_state \<Rightarrow> bool" where
  "found_disk lit modules f b \<longleftrightarrow> (\<exists>pre post. modules = pre @ Some f # post \<and> list_all (\<lambda>x. x = None) pre) \<and>
     file_string f \<noteq> 0 \<and> strcmp (blk_mem b) (file_string f) lit = Inr ktrue"

text \<open>The messages: the number of modules, then one line per module skipped.\<close>

definition skip_message :: "nat \<Rightarrow> log_event" where
  "skip_message i = (KError, ''RAMDISK: Skipped an empty or invalid module at index %u\<newline>'', [of_nat i])"

definition disk_messages :: "nat \<Rightarrow> nat \<Rightarrow> log_event list" where
  "disk_messages n k = (KOk, ''RAMDISK: Amount of modules given by Limine: %u'', [of_nat n]) # map skip_message [0..<k]"

lemma find_ramdisk_found:
  assumes "list_all (\<lambda>x. x = None) pre" and "file_string f \<noteq> 0" and "strcmp (blk_mem b) (file_string f) lit = Inr ktrue"
  shows "find_ramdisk lit (pre @ Some f # post) i b =
    Inr (Some f, b\<lparr>blk_log := blk_log b @ map skip_message [i..<i + length pre]\<rparr>)"
  using assms
proof (induction pre arbitrary: i b)
  case Nil
  then show ?case by simp
next
  case (Cons x pre)
  let ?b = "b\<lparr>blk_log := blk_log b @ [skip_message i]\<rparr>"
  have "find_ramdisk lit (pre @ Some f # post) (Suc i) ?b =
      Inr (Some f, ?b\<lparr>blk_log := blk_log ?b @ map skip_message [Suc i..<Suc i + length pre]\<rparr>)"
    using Cons.prems by (intro Cons.IH) simp_all
  moreover have "[i..<i + length (x # pre)] = i # [Suc i..<Suc i + length pre]" by (simp add: upt_conv_Cons del: upt_Suc)
  ultimately show ?case using Cons.prems by (simp add: blk_say_def skip_message_def del: upt_Suc)
qed

lemma ramdisk_Init_exact:
  assumes "modules = pre @ Some f # post" and "list_all (\<lambda>x. x = None) pre"
    and "file_string f \<noteq> 0" and "strcmp (blk_mem b) (file_string f) lit = Inr ktrue"
  shows "Ramdisk_Init lit (Some modules) stack_file dev b = Inr (disk_device\<lparr>GetDeviceInfo := GetDeviceInfo dev\<rparr>,
    b\<lparr>ramdisk_data := \<lparr>rd_addr = file_address f, rd_sector_size = file_size f * 512\<rparr>,
      blk_log := blk_log b @ disk_messages (length modules) (length pre)\<rparr>)"
proof -
  let ?b = "blk_say KOk ''RAMDISK: Amount of modules given by Limine: %u'' [of_nat (length modules)] b"
  have "find_ramdisk lit modules 0 ?b = Inr (Some f, ?b\<lparr>blk_log := blk_log ?b @ map skip_message [0..<0 + length pre]\<rparr>)"
    unfolding assms(1) by (rule find_ramdisk_found [OF assms(2,3)]) (simp add: blk_say_def assms(4))
  then show ?thesis
    by (simp add: Ramdisk_Init_def GetCurrentRamdisk_def RAMDISK_SectorSize_def disk_device_def disk_messages_def blk_say_def)
qed

lemma ramdisk_Init_device:
  assumes "found_disk lit modules f b"
  shows "\<exists>l. Ramdisk_Init lit (Some modules) stack_file dev b = Inr (disk_device\<lparr>GetDeviceInfo := GetDeviceInfo dev\<rparr>,
    b\<lparr>ramdisk_data := \<lparr>rd_addr = file_address f, rd_sector_size = file_size f * 512\<rparr>, blk_log := l\<rparr>)"
  using assms ramdisk_Init_exact unfolding found_disk_def by blast

text \<open>A module whose string is the searched literal itself.\<close>

definition blk1 :: blk_state where
  "blk1 = blk0\<lparr>blk_mem := put_bytes (blk_mem blk0) 0x4000 [114, 97, 109, 100, 105, 115, 107, 0]\<rparr>"

lemma ramdisk_Init_device_witness:
  "\<exists>l. Ramdisk_Init 0x4000 (Some [None, Some \<lparr>file_address = 0x2000, file_size = 2048, file_string = 0x4000\<rparr>]) None
      \<lparr>ReadSector = Null_fn, WriteSector = Null_fn, GetDeviceInfo = Null_fn, PrivateDeviceData = No_data\<rparr> blk1 = Inr (disk_device,
    blk1\<lparr>ramdisk_data := \<lparr>rd_addr = 0x2000, rd_sector_size = 2048 * 512\<rparr>, blk_log := l\<rparr>)"
proof -
  have "strcmp (blk_mem blk1) 0x4000 0x4000 = Inr ktrue"
    unfolding strcmp_def
    by (simp add: strcmp_loop.simps load8_def blk1_def put_bytes_def in_region_def)
  then have "found_disk 0x4000 [None, Some \<lparr>file_address = 0x2000, file_size = 2048, file_string = 0x4000\<rparr>]
      \<lparr>file_address = 0x2000, file_size = 2048, file_string = 0x4000\<rparr> blk1"
    unfolding found_disk_def by (intro conjI exI [of _ "[None]"] exI [of _ "[]"]) simp_all
  from ramdisk_Init_device [OF this, of None
      "\<lparr>ReadSector = Null_fn, WriteSector = Null_fn, GetDeviceInfo = Null_fn, PrivateDeviceData = No_data\<rparr>"]
  show ?thesis by (simp add: disk_device_def)
qed

text \<open>When no module is the ramdisk the driver does not stop: it uses the file its uninitialised local points to,
  unless the stack happens to hold a null pointer there.\<close>

lemma ramdisk_uninitialised:
  "find_ramdisk lit modules 0 (blk_say KOk ''RAMDISK: Amount of modules given by Limine: %u'' [of_nat (length modules)] b) =
     Inr (None, b') \<Longrightarrow>
   GetCurrentRamdisk lit (Some modules) stack_file b = (case stack_file of
     None \<Rightarrow> Inl (Panic ''RAMDISK: Choulnt find any valid ramdisk!'')
   | Some f \<Rightarrow> Inr (\<lparr>disk_addr = file_address f, disk_size = file_size f\<rparr>, b'))"
  by (simp add: GetCurrentRamdisk_def split: option.split)

lemma ramdisk_uninitialised_witness:
  "GetCurrentRamdisk 0 (Some []) (Some \<lparr>file_address = 0xDEAD, file_size = 1, file_string = 0\<rparr>) blk0 =
    Inr (\<lparr>disk_addr = 0xDEAD, disk_size = 1\<rparr>, blk_say KOk ''RAMDISK: Amount of modules given by Limine: %u'' [0] blk0)"
  using ramdisk_uninitialised [of 0 "[]" blk0 _ "Some \<lparr>file_address = 0xDEAD, file_size = 1, file_string = 0\<rparr>"] by simp

end
