(* ===== verification/Kernel_Entry.thy ===== *)
theory Kernel_Entry
  imports Early_Init Keyboard Ramdisk
begin

text \<open>
  The kernel's entry, \<^verbatim>\<open>_start\<close> of \<^verbatim>\<open>boot/entry.asm\<close> and \<^verbatim>\<open>InitKernel\<close> of \<^verbatim>\<open>kernel/init.cpp\<close>: early initialisation, console,
  keyboard, ramdisk, the read test, and the panic that ends it. The components run over one machine: its memory, ports and processor
  are handed from one to the next. The theorem follows a boot from the boot loader's jump to the halted processor.
\<close>

section \<open>What the linker and the boot loader fix\<close>

text \<open>
  Addresses of the image: assembly stubs, the literals \<open>APIC\<close> and \<open>ramdisk\<close>, the keyboard's handler, the local buffer, the copy of the
  device that the call passes; and what the stack holds where InitKernel's device and the ramdisk's pointer are not initialised.
\<close>

record kernel_image =
  im_stubs :: asm_stubs
  lit_APIC :: u64
  lit_ramdisk :: u64
  keyboard_handler :: u64
  TestBuffer :: u64
  device_copy :: u64
  stack_device :: BlockDevice
  stack_file :: "limine_file option"

text \<open>Limine's responses; the framebuffer's is in the console's state.\<close>

record responses =
  hhdm_offset :: u64
  memmap_entries :: "memmap_entry list"
  rsdp_response :: "u64 option"
  module_response :: "limine_file option list option"

record sys =
  sy_boot :: boot
  sy_kernel :: kernel
  sy_disk :: RamdiskData

section \<open>Code\<close>

text \<open>The console and the interrupt code on the machine that EarlyInit leaves.\<close>

definition share :: "boot \<Rightarrow> kernel \<Rightarrow> kernel" where
  "share b k =
     (let w = bt_machine b
      in k\<lparr>k_cpu := mc_cpu w, k_ioapic := IOAPICAddress w,
           k_console := (k_console k)\<lparr>con_ports := mc_ports w, con_mem := pmem (mc_paging w)\<rparr>\<rparr>)"

text \<open>The messages EarlyInit logged since \<open>b0\<close>. No other output or port access lies between them and the end of EarlyInit.\<close>

definition early_messages :: "boot \<Rightarrow> boot \<Rightarrow> log_event list" where
  "early_messages b0 b = drop (length (madt_log (mc_madt (bt_machine b0)))) (madt_log (mc_madt (bt_machine b)))"

text \<open>A call through one of the device's function pointers.\<close>

definition call_sector_fn :: "blk_fn \<Rightarrow> u64 \<Rightarrow> u64 \<Rightarrow> BlockDevice \<Rightarrow> u64 \<Rightarrow> blk_state \<Rightarrow> (bl \<times> blk_state) res" where
  "call_sector_fn f buffer sector dev dev_at d =
     (case f of Null_fn \<Rightarrow> Inl (PageFault 0)
      | RAMDISK_Read_fn \<Rightarrow> RAMDISK_ReadSector buffer sector dev dev_at d
      | RAMDISK_Write_fn \<Rightarrow> RAMDISK_WriteSector buffer sector dev dev_at d)"

text \<open>A routine of the block layer over the console's memory; its messages go to the console.\<close>

definition on_disk :: "(blk_state \<Rightarrow> ('a \<times> blk_state) res) \<Rightarrow> RamdiskData \<times> console \<Rightarrow> ('a \<times> RamdiskData \<times> console) res" where
  "on_disk f st =
     (case st of (d, c) \<Rightarrow>
        and_then (f \<lparr>blk_mem = con_mem c, ramdisk_data = d, blk_log = []\<rparr>) (\<lambda>(v, b).
        and_then (print_events (blk_log b) (c\<lparr>con_mem := blk_mem b\<rparr>)) (\<lambda>c. Inr (v, ramdisk_data b, c))))"

text \<open>The five characters of the read test.\<close>

definition print_test :: "u64 \<Rightarrow> console \<Rightarrow> console res" where
  "print_test buffer = for_each (\<lambda>i c. and_then (load8 (con_mem c) (buffer + of_nat i)) (\<lambda>ch. PrintChar ch c)) [0..<5]"

text \<open>
  InitKernel. The result is the state in which the panic halts; what the source has after the panic
  (\<^verbatim>\<open>Arch::LateInit\<close>, the idle loop) is not reached, since \<^verbatim>\<open>Core::Panic\<close> does not return.
\<close>

definition InitKernel :: "kernel_image \<Rightarrow> responses \<Rightarrow> sys \<Rightarrow> sys res" where
  "InitKernel im L y =
     and_then (EarlyInit (im_stubs im) (hhdm_offset L) (memmap_entries L) (rsdp_response L) (lit_APIC im) (sy_boot y)) (\<lambda>b.
     let k = share b (sy_kernel y)
     in and_then (print_events (early_messages (sy_boot y) b) (k_console k)) (\<lambda>c.
        let c = c\<lparr>gfx := GetCurrentFramebuffer (gfx c)\<rparr>
        in and_then (Console_Init True c) (\<lambda>c.
           and_then (Keyboard_Init (keyboard_handler im) (k\<lparr>k_console := c\<rparr>)) (\<lambda>k.
           and_then (on_disk (Ramdisk_Init (lit_ramdisk im) (module_response L) (stack_file im) (stack_device im))
                       (sy_disk y, k_console k)) (\<lambda>(root_blk_dev, d, c).
           and_then (INFO (cstr ''Testing reading from ramdisk!'') [] c) (\<lambda>c.
           and_then (on_disk (call_sector_fn (ReadSector root_blk_dev) (TestBuffer im) 0 root_blk_dev (device_copy im)) (d, c)) (\<lambda>(_, d, c).
           and_then (print_test (TestBuffer im) c) (\<lambda>c.
           and_then (INFO (cstr ''Framebuffer Address: 0x%x'') [VWord (fb_addr (fb_var (gfx c)))] c) (\<lambda>c.
           and_then (Panic_screen (cstr ''DO NOT DEBUG'') [] c) (\<lambda>c.
             Inr (y\<lparr>sy_boot := b, sy_kernel := Halt (k\<lparr>k_console := c\<rparr>), sy_disk := d\<rparr>)))))))))))"

text \<open>The jump of the boot loader: interrupts off, then InitKernel.\<close>

definition kernel_start :: "kernel_image \<Rightarrow> responses \<Rightarrow> sys \<Rightarrow> sys res" where
  "kernel_start im L y =
     (let b = sy_boot y; w = bt_machine b
      in InitKernel im L (y\<lparr>sy_boot := b\<lparr>bt_machine := w\<lparr>mc_cpu := cli (mc_cpu w)\<rparr>\<rparr>\<rparr>))"

section \<open>Printing over the boot\<close>

text \<open>
  The console after text \<open>T\<close>, over serial output \<open>S\<close>: the ports answer as \<open>P\<close>, \<open>D\<close> is mapped, and the memory \<open>im\<close>, which the
  framebuffer does not cover, is as it was.
\<close>

definition apart_from_screen :: "Framebuffer \<Rightarrow> mem \<Rightarrow> bool" where
  "apart_from_screen fb im \<longleftrightarrow> (\<forall>x \<in> dom im. \<not> in_region (fb_addr fb) (fb_bytes fb) x)"

definition at_text :: "nat \<Rightarrow> nat \<Rightarrow> Framebuffer \<Rightarrow> mem \<Rightarrow> u64 set \<Rightarrow> (nat \<Rightarrow> u16 \<Rightarrow> u8) \<Rightarrow> u8 list \<Rightarrow> u8 list \<Rightarrow> console \<Rightarrow> bool" where
  "at_text cols rows fb im D P S T c \<longleftrightarrow> screen_ok cols rows c \<and> fb_var (gfx c) = fb \<and> truthy (fb_ready (gfx c)) \<and>
     sent (con_ports c) = S @ T \<and> port_in (con_ports c) = P \<and> cursor_index cols c \<le> text_room cols T \<and>
     dom (con_mem c) = D \<and> im \<subseteq>\<^sub>m con_mem c"

lemma at_text_prints:
  assumes "at_text cols rows fb im D P S T c" and "apart_from_screen fb im" and "text_room cols (T @ U) \<le> rows * cols"
    and "screen_ok cols rows c \<Longrightarrow> has_room cols rows U c \<Longrightarrow> prints cols rows U c r"
  shows "\<exists>c'. r = Inr c' \<and> at_text cols rows fb im D P S (T @ U) c'"
proof -
  have c: "screen_ok cols rows c" "fb_var (gfx c) = fb" "truthy (fb_ready (gfx c))" "sent (con_ports c) = S @ T"
      "port_in (con_ports c) = P" "cursor_index cols c \<le> text_room cols T" "dom (con_mem c) = D" "im \<subseteq>\<^sub>m con_mem c"
    using assms(1) by (simp_all add: at_text_def)
  have "has_room cols rows U c" using c(6) assms(3) by (simp add: has_room_def)
  from assms(4) [OF c(1) this] obtain c' where c': "r = Inr c'" "screen_ok cols rows c'" "printed U c c'"
      "cursor_index cols c' \<le> cursor_index cols c + text_room cols U"
    by (auto simp: prints_def)
  have f: "dom (con_mem c') = D" "\<And>x. \<not> in_region (fb_addr fb) (fb_bytes fb) x \<Longrightarrow> con_mem c' x = con_mem c x"
    using c'(3) c(2,7) by (auto simp: printed_def fb_frame_def)
  have "im \<subseteq>\<^sub>m con_mem c'"
    using c(8) f(2) assms(2) by (auto simp: map_le_def apart_from_screen_def)
  then show ?thesis using c c' f(1) by (auto simp: at_text_def printed_def)
qed

lemma at_text_events:
  assumes "at_text cols rows fb im D P S T c" and "apart_from_screen fb im" and "list_all printable evs"
    and "text_room cols (T @ events_text evs) \<le> rows * cols"
  shows "\<exists>c'. print_events evs c = Inr c' \<and> at_text cols rows fb im D P S (T @ events_text evs) c'"
  by (rule at_text_prints [OF assms(1,2,4)]) (rule prints_events [OF _ assms(3)])

lemma at_text_info:
  assumes "at_text cols rows fb im D P S T c" and "apart_from_screen fb im"
    and "plain fmt" "render fmt args = Some out" "ascii out" and "text_room cols (T @ line_text KInfo out) \<le> rows * cols"
  shows "\<exists>c'. INFO fmt args c = Inr c' \<and> at_text cols rows fb im D P S (T @ line_text KInfo out) c'"
  using at_text_prints [OF assms(1,2,6)] prints_line [OF _ assms(3,4,5), of cols rows c KInfo] by auto

text \<open>The first messages, from a console nothing has been printed on.\<close>

lemma at_text_first:
  assumes "fresh_console cols rows fb c" and "im \<subseteq>\<^sub>m con_mem c" and "apart_from_screen fb im" and "list_all printable evs"
    and "evs \<noteq> []" and "text_room cols (events_text evs) \<le> rows * cols"
  shows "\<exists>c'. print_events evs c = Inr c' \<and>
    at_text cols rows fb im (dom (con_mem c)) (port_in (con_ports c)) (sent (con_ports c) @ clear_text) (events_text evs) c'"
proof -
  obtain c1 where c1: "ensure_ready c = Inr c1" "screen_ok cols rows c1" "fb_var (gfx c1) = fb" "con_mem c1 = con_mem c"
      "cursor_index cols c1 = 0" "port_in (con_ports c1) = port_in (con_ports c)" "truthy (fb_ready (gfx c1))"
      "sent (con_ports c1) = sent (con_ports c) @ clear_text"
    using ensure_ready_fresh [OF assms(1)] by blast
  then have "at_text cols rows fb im (dom (con_mem c)) (port_in (con_ports c)) (sent (con_ports c) @ clear_text) [] c1"
    using assms(2) by (simp add: at_text_def)
  from at_text_events [OF this assms(3,4)] assms(6) obtain c' where "print_events evs c1 = Inr c'"
      "at_text cols rows fb im (dom (con_mem c)) (port_in (con_ports c)) (sent (con_ports c) @ clear_text) (events_text evs) c'"
    by auto
  moreover have "ConsoleLock c = 0" using assms(1) by (simp add: fresh_console_def)
  ultimately show ?thesis using print_events_first [OF _ assms(5)] c1(1) by simp
qed

section \<open>The messages can be printed\<close>

lemma printable_text:
  "printable (k, fmt, args) \<longleftrightarrow> plain (cstr fmt) \<and> (\<exists>out. render (cstr fmt) (map VWord args) = Some out \<and> ascii out)"
  by (cases k) (auto simp: printable_def event_text_def line_text_def)

lemma ioapic_messages_printable: "list_all printable (ioapic_messages m madt e k)"
proof -
  have "list_all printable (replicate k override_message)"
    by (induction k) (simp_all add: override_message_def printable_text at_tag_def)
  then show ?thesis by (simp add: ioapic_messages_def printable_text at_tag_def)
qed

lemma disk_messages_printable: "list_all printable (disk_messages n k)"
  by (simp add: disk_messages_def skip_message_def list_all_iff printable_text at_tag_def)

section \<open>The steps of InitKernel\<close>

lemma keyboard_step:
  assumes t: "at_text cols rows fb im D P S T (k_console k)" "apart_from_screen fb im"
    and room: "text_room cols (T @ line_text KInfo keyboard_message) \<le> rows * cols"
    and quiet: "\<forall>t \<ge> q. P t 0x64 AND 1 = 0 \<and> P t 0x64 AND 2 = 0" and k: "table_ok k" "hnd \<noteq> 0"
  shows "\<exists>c'. Keyboard_Init hnd k = Inr (k\<lparr>k_console := c', ExternalInterruptHandlers := (ExternalInterruptHandlers k)[1 := hnd]\<rparr>) \<and>
    at_text cols rows fb im D P S (T @ line_text KInfo keyboard_message) c'"
proof -
  have m: "plain keyboard_message" "render keyboard_message [] = Some keyboard_message" "ascii keyboard_message"
    by (simp_all add: keyboard_message_def at_tag_def)
  obtain c where c: "INFO keyboard_message [] (k_console k) = Inr c"
      "at_text cols rows fb im D P S (T @ line_text KInfo keyboard_message) c"
    using at_text_info [OF t m room] by blast
  have "ps2_quiet (con_ports c) q" using c(2) quiet by (simp add: ps2_quiet_def at_text_def)
  from ps2_start_quiet [OF this] obtain ps where ps: "ps2_start (con_ports c) = Inr ps"
      "port_log ps = port_log (con_ports c) @ [(0x64, 0xAE), (0x60, 0xF4)]" "port_in ps = port_in (con_ports c)" by blast
  have "sent ps = sent (con_ports c)" using ps(2) by (simp add: sent_def COM1_def)
  moreover have "uart_alive ps" using c(2) uart_alive_cong [OF ps(3)] by (simp add: at_text_def screen_ok_def grid_ok_def console_ok_def)
  ultimately have "at_text cols rows fb im D P S (T @ line_text KInfo keyboard_message) (c\<lparr>con_ports := ps\<rparr>)"
    using c(2) ps(3) by (auto simp: at_text_def screen_ok_def grid_ok_def console_ok_def cell_size_def cursor_index_def)
  moreover have "RegisterInterrupt (32 + of_nat 1) hnd (k\<lparr>k_console := c\<rparr>) =
      Inr (k\<lparr>k_console := c, ExternalInterruptHandlers := (ExternalInterruptHandlers k)[1 := hnd]\<rparr>)"
    by (subst RegisterInterrupt_in_range) (use k in \<open>simp_all add: table_ok_def\<close>)
  ultimately show ?thesis
    using c(1) ps(1) by (intro exI [of _ "c\<lparr>con_ports := ps\<rparr>"])
      (simp add: Keyboard_Init_def KRNL_KEYBOARD_INTERRUPT_def keyboard_message_def)
qed

text \<open>The module that is the ramdisk: its strings and its first sector are part of \<open>im\<close>.\<close>

definition ramdisk_module :: "kernel_image \<Rightarrow> mem \<Rightarrow> limine_file option list \<Rightarrow> limine_file option list \<Rightarrow> limine_file \<Rightarrow> bool" where
  "ramdisk_module img im modules pre f \<longleftrightarrow> (\<exists>post. modules = pre @ Some f # post) \<and> list_all (\<lambda>x. x = None) pre \<and>
     file_string f \<noteq> 0 \<and> cstring_at im (file_string f) (cstr ''ramdisk'') \<and> cstring_at im (lit_ramdisk img) (cstr ''ramdisk'') \<and>
     file_address f \<noteq> 0 \<and> unat (file_address f) + 512 < 2 ^ 64 \<and> mapped im (file_address f) 512"

lemma disk_step:
  assumes t: "at_text cols rows fb im D P S T c" "apart_from_screen fb im"
    and m: "ramdisk_module img im modules pre f"
    and room: "text_room cols (T @ events_text (disk_messages (length modules) (length pre))) \<le> rows * cols"
  shows "\<exists>c'. on_disk (Ramdisk_Init (lit_ramdisk img) (Some modules) sf dev) (d, c) =
      Inr (disk_device\<lparr>GetDeviceInfo := GetDeviceInfo dev\<rparr>, \<lparr>rd_addr = file_address f, rd_sector_size = file_size f * 512\<rparr>, c') \<and>
    at_text cols rows fb im D P S (T @ events_text (disk_messages (length modules) (length pre))) c'"
proof -
  let ?b = "\<lparr>blk_mem = con_mem c, ramdisk_data = d, blk_log = []\<rparr>"
  obtain post where f: "modules = pre @ Some f # post" "list_all (\<lambda>x. x = None) pre" "file_string f \<noteq> 0"
      "cstring_at im (file_string f) (cstr ''ramdisk'')" "cstring_at im (lit_ramdisk img) (cstr ''ramdisk'')"
    using m unfolding ramdisk_module_def by blast
  have "im \<subseteq>\<^sub>m con_mem c" using t(1) by (simp add: at_text_def)
  note le = cstring_at_le [OF this]
  have "strcmp (blk_mem ?b) (file_string f) (lit_ramdisk img) = Inr ktrue"
    using strcmp_result [OF le [OF f(4)] le [OF f(5)]] by (simp add: to_bl_def)
  note r = ramdisk_Init_exact [OF f(1-3) this, of sf dev]
  obtain c' where "print_events (disk_messages (length modules) (length pre)) c = Inr c'"
      "at_text cols rows fb im D P S (T @ events_text (disk_messages (length modules) (length pre))) c'"
    using at_text_events [OF t disk_messages_printable room] by blast
  then show ?thesis using r by (simp add: on_disk_def)
qed

text \<open>Reading sector 0 puts the module's bytes into the buffer.\<close>

definition buffer_memory :: "u64 \<Rightarrow> u8 list \<Rightarrow> mem" where
  "buffer_memory a bs = (\<lambda>x. if in_region a (length bs) x then Some (bs ! unat (x - a)) else None)"

lemma read_step:
  assumes t: "at_text cols rows fb im D P S T c"
    and m: "ramdisk_module img im modules pre f" and buf: "mapped (con_mem c) buffer 512"
    and apart: "region buffer 512 \<inter> region (file_address f) 512 = {}"
    and dev: "ReadSector dev = RAMDISK_Read_fn" "PrivateDeviceData dev = At_ramdisk_data" and d: "rd_addr d = file_address f"
  shows "\<exists>c'. on_disk (call_sector_fn (ReadSector dev) buffer 0 dev dev_at) (d, c) = Inr (ktrue, d, c') \<and>
    at_text cols rows fb (buffer_memory buffer (get_bytes im (file_address f) 512)) D P S T c'"
proof -
  let ?b = "\<lparr>blk_mem = con_mem c, ramdisk_data = d, blk_log = []\<rparr>" and ?bs = "get_bytes im (file_address f) 512"
  have f: "file_address f \<noteq> 0" "unat (file_address f) + 512 < 2 ^ 64" "mapped im (file_address f) 512"
    using m by (simp_all add: ramdisk_module_def)
  have im: "im \<subseteq>\<^sub>m con_mem c" using t by (simp add: at_text_def)
  have "transfer_ok d 1 ?b buffer 0"
    using f(1,2) mapped_le [OF im f(3)] buf apart d by (simp add: transfer_ok_def disk_ok_def)
  from ReadSector_result [OF this dev(2)]
  have r: "RAMDISK_ReadSector buffer 0 dev dev_at ?b = Inr (ktrue, ?b\<lparr>blk_mem := put_bytes (con_mem c) buffer (sector_bytes d ?b 0)\<rparr>)"
    by simp
  have "sector_bytes d ?b 0 = ?bs"
  proof -
    have "con_mem c x = im x" if "in_region (file_address f) 512 x" for x
      using im f(3) that by (auto simp: mapped_region map_le_def dom_def)
    then show ?thesis using get_bytes_cong [of "file_address f" 512 "con_mem c" im] d by (simp add: sector_bytes_def sector_at_def)
  qed
  note r = r [unfolded this]
  let ?m = "put_bytes (con_mem c) buffer ?bs"
  have "dom ?m = dom (con_mem c)" using dom_put_bytes [of "con_mem c" buffer ?bs] buf by simp
  moreover have "buffer_memory buffer ?bs \<subseteq>\<^sub>m ?m"
    by (auto simp: map_le_def dom_def buffer_memory_def put_bytes_def in_region_def split: if_splits)
  moreover have "fb_ok (fb_var (gfx c)) ?m" if "fb_ok (fb_var (gfx c)) (con_mem c)"
    using that fb_ok_dom [OF calculation(1)] by simp
  ultimately have "at_text cols rows fb (buffer_memory buffer ?bs) D P S T (c\<lparr>con_mem := ?m\<rparr>)"
    using t by (auto simp: at_text_def screen_ok_def grid_ok_def console_ok_def cell_size_def cursor_index_def)
  then show ?thesis using r dev(1) by (simp add: on_disk_def call_sector_fn_def print_events_def)
qed

lemma print_test_step:
  assumes t: "at_text cols rows fb (buffer_memory buffer bs) D P S T c" "apart_from_screen fb (buffer_memory buffer bs)"
    and bs: "length bs = 512" "ascii (take 5 bs)" and room: "text_room cols (T @ take 5 bs) \<le> rows * cols"
  shows "\<exists>c'. print_test buffer c = Inr c' \<and> at_text cols rows fb (buffer_memory buffer bs) D P S (T @ take 5 bs) c'"
proof -
  have "\<exists>c'. for_each (\<lambda>i c. and_then (load8 (con_mem c) (buffer + of_nat i)) (\<lambda>ch. PrintChar ch c)) [0..<n] c = Inr c' \<and>
      at_text cols rows fb (buffer_memory buffer bs) D P S (T @ take n bs) c'" if "n \<le> 5" for n
    using that
  proof (induction n)
    case 0
    then show ?case using t(1) by simp
  next
    case (Suc n)
    obtain c1 where c1: "for_each (\<lambda>i c. and_then (load8 (con_mem c) (buffer + of_nat i)) (\<lambda>ch. PrintChar ch c)) [0..<n] c = Inr c1"
        "at_text cols rows fb (buffer_memory buffer bs) D P S (T @ take n bs) c1"
      using Suc by auto
    have n: "n < 5" "n < length bs" using Suc.prems bs(1) by simp_all
    have "buffer_memory buffer bs (buffer + of_nat n) = Some (bs ! n)"
      using n bs(1) by (simp add: buffer_memory_def unat_of_nat64)
    then have ld: "load8 (con_mem c1) (buffer + of_nat n) = Inr (bs ! n)"
      using c1(2) by (auto simp: at_text_def load8_eq_Inr map_le_def dom_def)
    have s: "take (Suc n) bs = take n bs @ [bs ! n]" using n(2) by (rule take_Suc_conv_app_nth)
    have "take 5 bs = take (Suc n) bs @ drop (Suc n) (take 5 bs)"
      using n(1) append_take_drop_id [of "Suc n" "take 5 bs"] by (simp add: min_def)
    then have "text_room cols (T @ take 5 bs) = text_room cols (T @ take (Suc n) bs) + text_room cols (drop (Suc n) (take 5 bs))"
      by (metis add.assoc text_room_simps(3))
    then have r: "text_room cols ((T @ take n bs) @ [bs ! n]) \<le> rows * cols" using room s by simp
    have "bs ! n \<in> set (take 5 bs)" using n by (auto simp: in_set_conv_nth)
    then have "unat (bs ! n) < 128" using bs(2) by (auto simp: ascii_def)
    then obtain c2 where "PrintChar (bs ! n) c1 = Inr c2"
        "at_text cols rows fb (buffer_memory buffer bs) D P S ((T @ take n bs) @ [bs ! n]) c2"
      using at_text_prints [OF c1(2) t(2) r prints_char] by blast
    then show ?case using c1(1) ld s by (simp add: for_each_append)
  qed
  from this [of 5] show ?thesis unfolding print_test_def by simp
qed

section \<open>A boot\<close>

text \<open>What EarlyInit asks for, with the ACPI tables \<open>am\<close>.\<close>

definition early_ready :: "kernel_image \<Rightarrow> responses \<Rightarrow> mem \<Rightarrow> u64 \<Rightarrow> u64 \<Rightarrow> u32 \<Rightarrow> boot \<Rightarrow> bool" where
  "early_ready img L am madt e phys b \<longleftrightarrow>
     (let h = hhdm_offset L; es = memmap_entries L; m = pmem (mc_paging (bt_machine b)); root = current_root h b
      in boot_ready b \<and> h \<noteq> 0 \<and> limine_handoff es h root m \<and> 4 \<le> card (allocatable_frames es (pmm_globals es h)) \<and>
         (\<exists>rsdp. rsdp_response L = Some rsdp \<and> ioapic_found am rsdp h (lit_APIC img) madt e phys) \<and>
         acpi_kept es h am m \<and> bit (ucast phys + h) 47 \<and> no_large_page h root m (ucast phys + h))"

text \<open>Everything a boot prints, after the terminal is cleared.\<close>

definition panic_text :: "u8 list" where
  "panic_text = cstr ''IMPROVING IN PROCESS'' @ cstr ''DO NOT DEBUG'' @ [10, 10] @ cstr ''========================'' @ [10, 10]"

definition boot_text :: "log_event list \<Rightarrow> nat \<Rightarrow> nat \<Rightarrow> u8 list \<Rightarrow> Framebuffer \<Rightarrow> u8 list" where
  "boot_text evs n k five fb =
     events_text evs @ line_text KInfo keyboard_message @ events_text (disk_messages n k) @
     line_text KInfo (cstr ''Testing reading from ramdisk!'') @ five @
     line_text KInfo (cstr ''Framebuffer Address: 0x'' @ hexadecimal (fb_addr fb)) @ panic_text"

lemma panic_step:
  assumes t: "at_text cols rows fb im D P S T c" "apart_from_screen fb im" and room: "text_room cols (T @ panic_text) \<le> rows * cols"
  shows "\<exists>c'. Panic_screen (cstr ''DO NOT DEBUG'') [] c = Inr c' \<and> at_text cols rows fb im D P S (T @ panic_text) c'"
proof (rule at_text_prints [OF t room])
  assume c: "screen_ok cols rows c" "has_room cols rows panic_text c"
  have "plain (cstr ''DO NOT DEBUG'')" "render (cstr ''DO NOT DEBUG'') [] = Some (cstr ''DO NOT DEBUG'')" by (simp_all add: at_tag_def)
  moreover have "c\<lparr>ConsoleLock := 0\<rparr> = c" using c(1) by (simp add: screen_ok_def)
  ultimately have "Panic_screen (cstr ''DO NOT DEBUG'') [] c = print_chars panic_text c"
    using Panic_screen_render [of c "cstr ''DO NOT DEBUG''" "[]"] c(1) unfolding panic_text_def by (simp add: screen_ok_def)
  moreover have "ascii panic_text" by (simp add: panic_text_def)
  ultimately show "prints cols rows panic_text c (Panic_screen (cstr ''DO NOT DEBUG'') [] c)" using prints_chars c by simp
qed

text \<open>From the console after EarlyInit's messages to the halt.\<close>

lemma after_early:
  assumes t: "at_text cols rows fb im D P S (events_text evs) (k_console k)" "apart_from_screen fb im"
    and quiet: "\<forall>t \<ge> q. P t 0x64 AND 1 = 0 \<and> P t 0x64 AND 2 = 0" and k: "table_ok k" "hnd \<noteq> 0"
    and m: "ramdisk_module img im modules pre f" and buf: "mapped (con_mem (k_console k)) buffer 512"
    and apart: "region buffer 512 \<inter> region (file_address f) 512 = {}" "region buffer 512 \<inter> region (fb_addr fb) (fb_bytes fb) = {}"
    and bs: "bs = get_bytes im (file_address f) 512" "ascii (take 5 bs)"
    and room: "text_room cols (boot_text evs (length modules) (length pre) (take 5 bs) fb) \<le> rows * cols"
  shows "\<exists>c1 c2 c3 c4 c5 c6 c7. Keyboard_Init hnd k = Inr (k\<lparr>k_console := c1, ExternalInterruptHandlers := (ExternalInterruptHandlers k)[1 := hnd]\<rparr>) \<and>
    on_disk (Ramdisk_Init (lit_ramdisk img) (Some modules) sf dev) (d, c1) =
      Inr (disk_device\<lparr>GetDeviceInfo := GetDeviceInfo dev\<rparr>, \<lparr>rd_addr = file_address f, rd_sector_size = file_size f * 512\<rparr>, c2) \<and>
    INFO (cstr ''Testing reading from ramdisk!'') [] c2 = Inr c3 \<and>
    on_disk (call_sector_fn RAMDISK_Read_fn buffer 0 (disk_device\<lparr>GetDeviceInfo := GetDeviceInfo dev\<rparr>) dev_at)
      (\<lparr>rd_addr = file_address f, rd_sector_size = file_size f * 512\<rparr>, c3) =
      Inr (ktrue, \<lparr>rd_addr = file_address f, rd_sector_size = file_size f * 512\<rparr>, c4) \<and>
    print_test buffer c4 = Inr c5 \<and> INFO (cstr ''Framebuffer Address: 0x%x'') [VWord (fb_addr (fb_var (gfx c5)))] c5 = Inr c6 \<and>
    Panic_screen (cstr ''DO NOT DEBUG'') [] c6 = Inr c7 \<and>
    sent (con_ports c7) = S @ boot_text evs (length modules) (length pre) (take 5 bs) fb"
proof -
  let ?T1 = "events_text evs @ line_text KInfo keyboard_message"
  let ?T2 = "?T1 @ events_text (disk_messages (length modules) (length pre))"
  let ?w = "cstr ''Testing reading from ramdisk!''" and ?a = "cstr ''Framebuffer Address: 0x'' @ hexadecimal (fb_addr fb)"
  let ?T3 = "?T2 @ line_text KInfo ?w" let ?T4 = "?T3 @ take 5 bs" let ?T5 = "?T4 @ line_text KInfo ?a"
  let ?d = "\<lparr>rd_addr = file_address f, rd_sector_size = file_size f * 512\<rparr>" and ?dev = "disk_device\<lparr>GetDeviceInfo := GetDeviceInfo dev\<rparr>"
  have all: "boot_text evs (length modules) (length pre) (take 5 bs) fb = ?T5 @ panic_text" by (simp add: boot_text_def)
  have r: "text_room cols ?T1 \<le> rows * cols" "text_room cols ?T2 \<le> rows * cols" "text_room cols ?T3 \<le> rows * cols"
    "text_room cols ?T4 \<le> rows * cols" "text_room cols ?T5 \<le> rows * cols" "text_room cols (?T5 @ panic_text) \<le> rows * cols"
    using room unfolding all text_room_simps(3) by linarith+
  obtain c1 where c1: "Keyboard_Init hnd k = Inr (k\<lparr>k_console := c1, ExternalInterruptHandlers := (ExternalInterruptHandlers k)[1 := hnd]\<rparr>)"
      "at_text cols rows fb im D P S ?T1 c1"
    using keyboard_step [OF t r(1) quiet k] by blast
  obtain c2 where c2: "on_disk (Ramdisk_Init (lit_ramdisk img) (Some modules) sf dev) (d, c1) = Inr (?dev, ?d, c2)"
      "at_text cols rows fb im D P S ?T2 c2"
    using disk_step [OF c1(2) t(2) m r(2)] by blast
  have w: "plain ?w" "render ?w [] = Some ?w" "ascii ?w" by (simp_all add: at_tag_def)
  obtain c3 where c3: "INFO ?w [] c2 = Inr c3" "at_text cols rows fb im D P S ?T3 c3"
    using at_text_info [OF c2(2) t(2) w r(3)] by blast
  have "dom (con_mem c3) = dom (con_mem (k_console k))" using c3(2) t(1) by (simp add: at_text_def)
  then have "mapped (con_mem c3) buffer 512" using mapped_dom [of "con_mem c3" "con_mem (k_console k)"] buf by simp
  from read_step [OF c3(2) m this apart(1), of ?dev ?d dev_at] obtain c4 where
    c4: "on_disk (call_sector_fn RAMDISK_Read_fn buffer 0 ?dev dev_at) (?d, c3) = Inr (ktrue, ?d, c4)"
      "at_text cols rows fb (buffer_memory buffer bs) D P S ?T3 c4"
    by (auto simp: disk_device_def bs(1))
  have len: "length bs = 512" by (simp add: bs(1))
  have ap: "apart_from_screen fb (buffer_memory buffer bs)"
    using apart(2) len by (auto simp: apart_from_screen_def buffer_memory_def set_eq_iff split: if_splits)
  obtain c5 where c5: "print_test buffer c4 = Inr c5" "at_text cols rows fb (buffer_memory buffer bs) D P S ?T4 c5"
    using print_test_step [OF c4(2) ap len bs(2) r(4)] by blast
  have a: "plain (cstr ''Framebuffer Address: 0x%x'')" "ascii ?a"
    "render (cstr ''Framebuffer Address: 0x%x'') [VWord (fb_addr (fb_var (gfx c5)))] = Some ?a"
    using c5(2) by (simp_all add: at_tag_def at_text_def)
  obtain c6 where c6: "INFO (cstr ''Framebuffer Address: 0x%x'') [VWord (fb_addr (fb_var (gfx c5)))] c5 = Inr c6"
      "at_text cols rows fb (buffer_memory buffer bs) D P S ?T5 c6"
    using at_text_info [OF c5(2) ap a(1,3,2) r(5)] by blast
  obtain c7 where c7: "Panic_screen (cstr ''DO NOT DEBUG'') [] c6 = Inr c7"
      "at_text cols rows fb (buffer_memory buffer bs) D P S (?T5 @ panic_text) c7"
    using panic_step [OF c6(2) ap r(6)] by blast
  then have s: "sent (con_ports c7) = S @ boot_text evs (length modules) (length pre) (take 5 bs) fb"
    unfolding all by (simp add: at_text_def)
  show ?thesis
    by (intro exI conjI, rule c1(1), rule c2(1), rule c3(1), rule c4(1), rule c5(1), rule c6(1), rule c7(1), rule s)
qed

section \<open>Property\<close>

text \<open>C1: from the boot loader's jump to the end. With the hand-over EarlyInit asks for, a usable framebuffer with room for the text,
  a serial line, a keyboard controller that falls silent and a ramdisk module outside the memory EarlyInit manages, the kernel
  never faults or loops: it prints its messages and the first five bytes of the ramdisk's sector 0, panics, and halts with
  interrupts off, on its own root table, with the keyboard's handler registered.\<close>

theorem kernel_start_reads_ramdisk_and_halts:
  assumes "early_ready img L am madt e phys (sy_boot y)" and "madt_overrides am madt k"
    and "fresh_console cols rows fb (k_console (share (sy_boot y) (sy_kernel y)))" and "ps2_quiet (mc_ports (bt_machine (sy_boot y))) q"
    and "table_ok (sy_kernel y)" and "keyboard_handler img \<noteq> 0"
    and "boot_kept (memmap_entries L) (hhdm_offset L) (current_root (hhdm_offset L) (sy_boot y)) im (pmem (mc_paging (bt_machine (sy_boot y))))"
    and "apart_from_screen fb im" and "module_response L = Some modules" and "ramdisk_module img im modules pre f"
    and "mapped (pmem (mc_paging (bt_machine (sy_boot y)))) (TestBuffer img) 512"
    and "region (TestBuffer img) 512 \<inter> region (file_address f) 512 = {}" and "region (TestBuffer img) 512 \<inter> region (fb_addr fb) (fb_bytes fb) = {}"
    and "five = take 5 (get_bytes im (file_address f) 512)" and "ascii five"
    and "T = boot_text (ioapic_messages am madt e k) (length modules) (length pre) five fb" and "text_room cols T \<le> rows * cols"
  shows "\<exists>y'. kernel_start img L y = Inr y' \<and>
    sent (con_ports (k_console (sy_kernel y'))) = sent (mc_ports (bt_machine (sy_boot y))) @ clear_text @ T \<and>
    \<not> interrupts_on (k_cpu (sy_kernel y')) \<and>
    cr3 (k_cpu (sy_kernel y')) \<in> allocatable_frames (memmap_entries L) (pmm_globals (memmap_entries L) (hhdm_offset L)) \<and>
    ExternalInterruptHandlers (sy_kernel y') = (ExternalInterruptHandlers (sy_kernel y))[1 := keyboard_handler img]"
proof -
  let ?h = "hhdm_offset L" and ?es = "memmap_entries L" and ?w = "bt_machine (sy_boot y)"
  let ?b = "sy_boot y\<lparr>bt_machine := ?w\<lparr>mc_cpu := cli (mc_cpu ?w)\<rparr>\<rparr>" and ?s = "pmm_globals (memmap_entries L) (hhdm_offset L)"
  let ?evs = "ioapic_messages am madt e k"
  have same: "current_root ?h ?b = current_root ?h (sy_boot y)" "pmem (mc_paging (bt_machine ?b)) = pmem (mc_paging ?w)"
    by (simp_all add: current_root_def cli_def)
  have e: "boot_ready ?b" "?h \<noteq> 0" "limine_handoff ?es ?h (current_root ?h ?b) (pmem (mc_paging (bt_machine ?b)))"
      "4 \<le> card (allocatable_frames ?es ?s)" "acpi_kept ?es ?h am (pmem (mc_paging (bt_machine ?b)))" "bit (ucast phys + ?h) 47"
      "no_large_page ?h (current_root ?h ?b) (pmem (mc_paging (bt_machine ?b))) (ucast phys + ?h)"
    using assms(1) unfolding same by (simp_all add: early_ready_def boot_ready_def cli_def Let_def)
  obtain rsdp where rsdp: "rsdp_response L = Some rsdp" "ioapic_found am rsdp ?h (lit_APIC img) madt e phys"
    using assms(1) by (auto simp: early_ready_def Let_def)
  obtain b1 m where E: "EarlyInit (im_stubs img) ?h ?es (Some rsdp) (lit_APIC img) ?b = Inr b1"
    and b1: "cr3 (mc_cpu (bt_machine b1)) \<in> allocatable_frames ?es ?s" "pmem (mc_paging (bt_machine b1)) = m"
      "sent (mc_ports (bt_machine b1)) = sent (mc_ports ?w)" "port_in (mc_ports (bt_machine b1)) = port_in (mc_ports ?w)"
      "early_messages ?b b1 = ?evs"
    and dm: "dom m = dom (pmem (mc_paging ?w))"
    and keep: "\<forall>im. boot_kept ?es ?h (current_root ?h ?b) im (pmem (mc_paging (bt_machine ?b))) \<longrightarrow> im \<subseteq>\<^sub>m m"
    using EarlyInit_result [OF e(1,2) refl e(3,4) rsdp(2) e(5) refl e(6,7) assms(2), of "im_stubs img"] unfolding same(2)
    by (elim exE conjE) (erule that, simp_all add: early_messages_def sent_def COM1_def)
  have im: "im \<subseteq>\<^sub>m m" using keep assms(7) unfolding same by blast
  let ?k = "share b1 (sy_kernel y)" let ?c = "k_console ?k"
  have c: "con_mem ?c = m" "sent (con_ports ?c) = sent (mc_ports ?w)" "port_in (con_ports ?c) = port_in (mc_ports ?w)"
    using b1 by (simp_all add: share_def Let_def)
  have fresh: "fresh_console cols rows fb ?c"
    using assms(3) c(1) fb_ok_dom [OF dm, of fb] uart_alive_cong [of "con_ports ?c" "mc_ports ?w"] c(3)
    by (simp add: fresh_console_def share_def cell_size_def Let_def)
  have r0: "text_room cols (events_text ?evs) \<le> rows * cols" using assms(16,17) by (simp add: boot_text_def)
  have "?evs \<noteq> []" by (simp add: ioapic_messages_def)
  from at_text_first [OF fresh _ assms(8) ioapic_messages_printable this r0, of] im c(1) obtain c' where
    c': "print_events ?evs ?c = Inr c'"
      "at_text cols rows fb im (dom m) (port_in (mc_ports ?w)) (sent (mc_ports ?w) @ clear_text) (events_text ?evs) c'"
    unfolding c(1-3) by blast
  have init: "Console_Init True (c'\<lparr>gfx := GetCurrentFramebuffer (gfx c')\<rparr>) = Inr c'"
    using c'(2) by (simp add: GetCurrentFramebuffer_def Console_Init_def at_text_def screen_ok_def)
  let ?k' = "?k\<lparr>k_console := c'\<rparr>"
  have t: "at_text cols rows fb im (dom m) (port_in (mc_ports ?w)) (sent (mc_ports ?w) @ clear_text) (events_text ?evs) (k_console ?k')"
    using c'(2) by simp
  have q: "\<forall>t \<ge> q. port_in (mc_ports ?w) t 0x64 AND 1 = 0 \<and> port_in (mc_ports ?w) t 0x64 AND 2 = 0"
    using assms(4) by (simp add: ps2_quiet_def)
  have tab: "table_ok ?k'" using assms(5) by (simp add: table_ok_def share_def Let_def)
  have buf: "mapped (con_mem (k_console ?k')) (TestBuffer img) 512"
    using assms(11) mapped_dom [of "con_mem c'" "pmem (mc_paging ?w)"] c'(2) dm by (simp add: at_text_def)
  have asc: "ascii (take 5 (get_bytes im (file_address f) 512))" using assms(14,15) by simp
  have room: "text_room cols (boot_text ?evs (length modules) (length pre) (take 5 (get_bytes im (file_address f) 512)) fb) \<le> rows * cols"
    using assms(14,16,17) by simp
  from after_early [OF t assms(8) q tab assms(6,10) buf assms(12,13) refl asc room, of "stack_file img" "stack_device img" "sy_disk y" "device_copy img"]
  obtain c1 c2 c3 c4 c5 c6 c7 where S: "Keyboard_Init (keyboard_handler img) ?k' =
        Inr (?k'\<lparr>k_console := c1, ExternalInterruptHandlers := (ExternalInterruptHandlers ?k')[1 := keyboard_handler img]\<rparr>)"
      "on_disk (Ramdisk_Init (lit_ramdisk img) (Some modules) (stack_file img) (stack_device img)) (sy_disk y, c1) =
        Inr (disk_device\<lparr>GetDeviceInfo := GetDeviceInfo (stack_device img)\<rparr>, \<lparr>rd_addr = file_address f, rd_sector_size = file_size f * 512\<rparr>, c2)"
      "INFO (cstr ''Testing reading from ramdisk!'') [] c2 = Inr c3"
      "on_disk (call_sector_fn RAMDISK_Read_fn (TestBuffer img) 0 (disk_device\<lparr>GetDeviceInfo := GetDeviceInfo (stack_device img)\<rparr>) (device_copy img))
        (\<lparr>rd_addr = file_address f, rd_sector_size = file_size f * 512\<rparr>, c3) =
        Inr (ktrue, \<lparr>rd_addr = file_address f, rd_sector_size = file_size f * 512\<rparr>, c4)"
      "print_test (TestBuffer img) c4 = Inr c5" "INFO (cstr ''Framebuffer Address: 0x%x'') [VWord (fb_addr (fb_var (gfx c5)))] c5 = Inr c6"
      "Panic_screen (cstr ''DO NOT DEBUG'') [] c6 = Inr c7"
      "sent (con_ports c7) = (sent (mc_ports ?w) @ clear_text) @ T"
    unfolding assms(14,16) by blast
  have "kernel_start img L y = Inr (y\<lparr>sy_boot := b1, sy_kernel := Halt (?k'\<lparr>
      ExternalInterruptHandlers := (ExternalInterruptHandlers ?k')[1 := keyboard_handler img], k_console := c7\<rparr>),
      sy_disk := \<lparr>rd_addr = file_address f, rd_sector_size = file_size f * 512\<rparr>\<rparr>)"
    using E rsdp(1) b1(5) c'(1) init S(1-7) assms(9)
    by (simp add: kernel_start_def InitKernel_def Let_def disk_device_def)
  then show ?thesis
    using S(8) b1(1) by (simp add: Halt_def cli_def share_def Let_def)
qed

section \<open>A machine\<close>

text \<open>More memory next to what is handed over: the hand-over stays good, and EarlyInit leaves the new memory alone.\<close>

lemma handoff_extend:
  assumes hand: "limine_handoff es h old m" and le: "m \<subseteq>\<^sub>m m'" and im: "im \<subseteq>\<^sub>m m'" "dom im \<inter> dom m = {}"
  shows "limine_handoff es h old m'" and "boot_kept es h old im m'" and "page_path p \<Longrightarrow> walk m' h old p = walk m h old p"
proof -
  let ?s = "pmm_globals es h"
  note H = hand [unfolded limine_handoff_def Let_def]
  have pages: "mapped m t 4096" if "table_path p" "node m h old p = Some t" for p t
    using H that by (auto simp: page_ok_def)
  have ag: "agree h old m m'" by (rule agree_le [OF le pages])
  note nd = node_agree [OF ag]
  show "page_path p \<Longrightarrow> walk m' h old p = walk m h old p" using walk_agree [OF ag, of "[]" p old] by simp
  have pk: "page_ok ?s n m t \<Longrightarrow> page_ok ?s n m' t" for n t using mapped_le [OF le] by (simp add: page_ok_def)
  have "tables_distinct h old m'" unfolding tables_distinct_def
  proof (intro allI impI)
    fix p q t assume "table_path p \<and> table_path q \<and> node m' h old p = Some t \<and> node m' h old q = Some t"
    then show "p = q" using H nd [of p] nd [of q] unfolding tables_distinct_def by metis
  qed
  moreover have "page_ok ?s (bitmap_bytes ?s) m' t \<and> t - h \<notin> allocatable_frames es ?s"
    if "table_path p \<and> node m' h old p = Some t" for p t
    using that H nd [of p] pk by metis
  moreover have "mapped m' (bitmap ?s) (bitmap_bytes ?s)" "\<forall>f \<in> allocatable_frames es ?s. mapped m' (f + h) 4096"
    using H mapped_le [OF le] by blast+
  moreover have "tail_ok es ?s m'" using H tail_ok_le [OF _ _ le] by blast
  ultimately show "limine_handoff es h old m'" unfolding limine_handoff_def Let_def using H by blast
  have off: "\<not> in_region a n x" if "mapped m a n" "n \<le> 2 ^ 64" "x \<in> dom im" for a n x
    using that im(2) by (auto simp: mapped_region)
  have "unat (total_pages ?s) \<le> 2 ^ 40" using H by blast
  moreover have "bitmap_bytes ?s \<le> unat (total_pages ?s) + 7" unfolding bitmap_bytes_def by (rule div_le_dividend)
  ultimately have n: "bitmap_bytes ?s \<le> 2 ^ 64" by simp
  have "\<not> in_region (bitmap ?s) (bitmap_bytes ?s) x" if "x \<in> dom im" for x using off [OF _ n that] H by blast
  moreover have "\<not> in_region (f + h) 4096 x" if "f \<in> allocatable_frames es ?s" "x \<in> dom im" for f x
    using off [OF _ _ that(2)] H that(1) by simp
  moreover have "\<not> in_region t 4096 x" if "table_path p" "node m' h old p = Some t" "x \<in> dom im" for p t x
    using off [OF pages _ that(3)] nd that by simp
  ultimately show "boot_kept es h old im m'"
    using im(1) unfolding boot_kept_def acpi_kept_def Let_def by blast
qed

text \<open>
  The machine of EarlyInit's demonstration with 6 MiB more: a page with the two strings, the module and the test's buffer, and a
  framebuffer of 1600 by 900 pixels behind it. The serial line is always ready, the keyboard controller silent.
\<close>

definition image_at :: u64 where
  "image_at = demo_hhdm + 0x200000"

definition module_bytes :: "u8 list" where
  "module_bytes = cstr ''GOOSE'' @ replicate 507 0"

definition image_mem :: mem where
  "image_mem = buffer_memory image_at (cstr ''ramdisk'' @ [0] @ cstr ''ramdisk'' @ [0] @ module_bytes)"

definition boot_mem :: mem where
  "boot_mem = (zeroed image_at 0x600000 ++ image_mem) ++ early_mem"

definition boot_fb :: Framebuffer where
  "boot_fb = zero_fb\<lparr>fb_addr := image_at + 0x1000, fb_width := 1600, fb_height := 900, fb_pitch := 6400, fb_bpp := 32\<rparr>"

definition boot_module :: limine_file where
  "boot_module = \<lparr>file_address = image_at + 16, file_size = 512, file_string = image_at\<rparr>"

lemma image_apart: "dom (zeroed image_at 0x600000) \<inter> dom early_mem = {}"
proof -
  have "\<not> in_region image_at 0x600000 x" if "in_region demo_hhdm 0x200000 x" for x
    using regions_apart [of 0 "0x200000" "0x200000" "0x600000" demo_hhdm x] that by (simp add: image_at_def)
  moreover have "in_region demo_hhdm 0x200000 x" if "x \<in> dom early_mem" for x
    using that early_page0 [of x] early_off_page0 [of x] in_region_mono [of demo_hhdm 4096 x "0x200000"]
    by (cases "in_region demo_hhdm 4096 x") (auto simp: zeroed_def split: if_splits)
  ultimately show ?thesis by (fastforce simp: zeroed_def split: if_splits)
qed

lemma image_in: "dom image_mem \<subseteq> dom (zeroed image_at 0x600000)"
  by (auto simp: image_mem_def buffer_memory_def zeroed_def in_region_def module_bytes_def split: if_splits)

lemma image_maps:
  "early_mem \<subseteq>\<^sub>m boot_mem" "image_mem \<subseteq>\<^sub>m boot_mem" "dom image_mem \<inter> dom early_mem = {}"
  "\<And>x. in_region image_at 0x600000 x \<Longrightarrow> boot_mem x \<noteq> None"
proof -
  show d: "dom image_mem \<inter> dom early_mem = {}" using image_apart image_in by blast
  then show "image_mem \<subseteq>\<^sub>m boot_mem" by (fastforce simp: boot_mem_def map_le_def map_add_def split: option.split)
  show "early_mem \<subseteq>\<^sub>m boot_mem" by (simp add: boot_mem_def)
  show "\<And>x. in_region image_at 0x600000 x \<Longrightarrow> boot_mem x \<noteq> None"
    by (auto simp: boot_mem_def zeroed_def map_add_def split: option.splits)
qed

definition boot_ports :: ports where
  "boot_ports = \<lparr>port_in = (\<lambda>_ p. if p = COM1 + 5 then 0x20 else 0), port_now = 0, port_log = []\<rparr>"

definition boot_console :: console where
  "boot_console = text_console\<lparr>IsConsoleReady := kfalse, fb_ptr_set := False,
     gfx := \<lparr>fb_ready = kfalse, fb_var = zero_fb, framebuffer_response = Some [Some boot_fb]\<rparr>, ConsoleConfiguration := default_state\<rparr>"

definition boot_sys :: sys where
  "boot_sys = \<lparr>sy_boot = early_boot\<lparr>bt_machine := (bt_machine early_boot)\<lparr>mc_ports := boot_ports,
       mc_paging := \<lparr>pmem = boot_mem, ptlb = (\<lambda>_. None)\<rparr>\<rparr>\<rparr>,
     sy_kernel = kernel0\<lparr>k_console := boot_console\<rparr>, sy_disk = \<lparr>rd_addr = 0, rd_sector_size = 0\<rparr>\<rparr>"

definition boot_image :: kernel_image where
  "boot_image = \<lparr>im_stubs = demo_stubs, lit_APIC = demo_hhdm + 0x500, lit_ramdisk = image_at + 8, keyboard_handler = 0x5000,
     TestBuffer = image_at + 0x400, device_copy = image_at + 0x800, stack_device = disk_device, stack_file = None\<rparr>"

definition boot_responses :: responses where
  "boot_responses = \<lparr>hhdm_offset = demo_hhdm, memmap_entries = demo_map, rsdp_response = Some (demo_hhdm + 0x100),
     module_response = Some [None, Some boot_module]\<rparr>"

lemma boot_sys_simps [simp]:
  "pmem (mc_paging (bt_machine (sy_boot boot_sys))) = boot_mem" "mc_ports (bt_machine (sy_boot boot_sys)) = boot_ports"
  "current_root demo_hhdm (sy_boot boot_sys) = demo_hhdm + 0x1000" "hhdm_offset boot_responses = demo_hhdm"
  "memmap_entries boot_responses = demo_map" "rsdp_response boot_responses = Some (demo_hhdm + 0x100)"
  "module_response boot_responses = Some [None, Some boot_module]" "keyboard_handler boot_image = 0x5000"
  "TestBuffer boot_image = image_at + 0x400" "lit_APIC boot_image = demo_hhdm + 0x500" "lit_ramdisk boot_image = image_at + 8"
  "port_log boot_ports = []" "ExternalInterruptHandlers (sy_kernel boot_sys) = replicate 32 0"
  using early_root by (simp_all add: boot_sys_def boot_image_def boot_responses_def boot_ports_def kernel0_def current_root_def)

lemma boot_early_ready:
  "early_ready boot_image boot_responses early_acpi (demo_hhdm + 0x400) (demo_hhdm + 0x434) 0xFEC00000 (sy_boot boot_sys)"
  "boot_kept demo_map demo_hhdm (demo_hhdm + 0x1000) image_mem boot_mem"
proof -
  note X = handoff_extend [OF early_handoff image_maps(1-3)]
  show "boot_kept demo_map demo_hhdm (demo_hhdm + 0x1000) image_mem boot_mem" by (rule X(2))
  have ready: "boot_ready (sy_boot boot_sys)"
    by (simp add: boot_sys_def boot_ready_def early_boot_def gdt_globals_def idt_globals_def demo_machine_def cpu0_def bit_iff_odd)
  have "walk boot_mem demo_hhdm (demo_hhdm + 0x1000) (path va) = None" for va
    using X(3) [OF page_path_path] walk_empty_table [OF early_root_empty] page_path_path [of va] by (simp add: page_path_def)
  then have small: "no_large_page demo_hhdm (demo_hhdm + 0x1000) boot_mem A" for A by (simp add: no_large_page_def)
  have kept: "acpi_kept demo_map demo_hhdm early_acpi boot_mem"
    using early_acpi_kept image_maps(1) map_le_trans unfolding acpi_kept_def by blast
  have "bit (ucast (0xFEC00000 :: u32) + demo_hhdm) 47" "demo_hhdm \<noteq> 0" by (simp_all add: demo_hhdm_def bit_iff_odd)
  then show "early_ready boot_image boot_responses early_acpi (demo_hhdm + 0x400) (demo_hhdm + 0x434) 0xFEC00000 (sy_boot boot_sys)"
    unfolding early_ready_def Let_def boot_sys_simps demo_pmm_def [symmetric]
    using ready X(1) early_four early_ioapic kept small by blast
qed

lemma boot_console_fresh: "fresh_console 100 56 boot_fb (k_console (share (sy_boot boot_sys) (sy_kernel boot_sys)))"
proof -
  have "mapped boot_mem (image_at + of_nat 0x1000) 5760000"
    by (rule mapped_sub [of _ _ "0x600000"]) (use image_maps(4) in \<open>auto simp: mapped_region\<close>)
  then have "fb_ok boot_fb boot_mem" by (simp add: fb_ok_def fb_bytes_def boot_fb_def)
  moreover have "uart_alive boot_ports" by (auto simp: uart_alive_def uart_ready_def boot_ports_def)
  ultimately show ?thesis
    by (simp add: fresh_console_def share_def boot_sys_def boot_console_def kernel0_def text_console_def default_state_def
        cell_size_def boot_fb_def Let_def)
qed

lemma image_byte:
  "i < 528 \<Longrightarrow> image_mem (image_at + of_nat i) = Some ((cstr ''ramdisk'' @ [0] @ cstr ''ramdisk'' @ [0] @ module_bytes) ! i)"
  by (simp add: image_mem_def buffer_memory_def in_region_def module_bytes_def unat_of_nat64)

lemma boot_ramdisk: "ramdisk_module boot_image image_mem [None, Some boot_module] [None] boot_module"
proof -
  note m = image_byte
  have b: "image_mem (image_at + 0) = Some 114" "image_mem (image_at + 1) = Some 97" "image_mem (image_at + 2) = Some 109"
    "image_mem (image_at + 3) = Some 100" "image_mem (image_at + 4) = Some 105" "image_mem (image_at + 5) = Some 115"
    "image_mem (image_at + 6) = Some 107" "image_mem (image_at + 7) = Some 0" "image_mem (image_at + 8) = Some 114"
    "image_mem (image_at + 9) = Some 97" "image_mem (image_at + 10) = Some 109" "image_mem (image_at + 11) = Some 100"
    "image_mem (image_at + 12) = Some 105" "image_mem (image_at + 13) = Some 115" "image_mem (image_at + 14) = Some 107"
    "image_mem (image_at + 15) = Some 0"
    using m [of 0] m [of 1] m [of 2] m [of 3] m [of 4] m [of 5] m [of 6] m [of 7] m [of 8] m [of 9] m [of 10] m [of 11] m [of 12]
      m [of 13] m [of 14] m [of 15] by simp_all
  have "mapped image_mem (image_at + 16) 512"
    unfolding mapped_iff
  proof (intro allI impI)
    fix i :: nat assume "i < 512"
    then show "image_mem (image_at + 16 + of_nat i) \<noteq> None" using m [of "16 + i"] by (simp add: algebra_simps)
  qed
  moreover have "unat (image_at + 16) + 512 < 2 ^ 64" "image_at \<noteq> 0" "image_at + 16 \<noteq> 0" by (simp_all add: image_at_def demo_hhdm_def)
  ultimately show ?thesis
    using b by (simp add: ramdisk_module_def boot_module_def add.assoc)
qed

lemma boot_five: "take 5 (get_bytes image_mem (image_at + 16) 512) = cstr ''GOOSE''"
proof (rule nth_equalityI)
  fix i assume "i < length (take 5 (get_bytes image_mem (image_at + 16) 512))"
  then have i: "i < 5" by simp
  have "image_mem (image_at + 16 + of_nat i) = Some (cstr ''GOOSE'' ! i)"
    using i image_byte [of "16 + i"] by (auto simp: module_bytes_def add.assoc less_Suc_eq numeral_eq_Suc)
  then show "take 5 (get_bytes image_mem (image_at + 16) 512) ! i = cstr ''GOOSE'' ! i" using i by simp
qed simp

text \<open>The text of the boot fits.\<close>

lemma early_words:
  "ioapic_messages early_acpi (demo_hhdm + 0x400) (demo_hhdm + 0x434) 1 =
     [(KInfo, ''IOAPIC: Located MADT at 0x%x'', [0xFFFF800000000400]), (KInfo, ''IOAPIC: MADT table'', []),
      (KInfo, ''IOAPIC: LAPIC address: 0x%x Flags: 0x%x Entries(pointer to): 0x%x'', [0xFEE00000, 1, 0xFFFF80000000042C]),
      override_message, (KInfo, ''IOAPIC: IOAPIC info'', []),
      (KInfo, ''IOAPIC: GlobalSystemInterruptBase: 0x%x IOAPIC_ID: 0x%x IOAPICAddress: 0x%x'', [0, 2, 0xFEC00000])]"
  using early_madt(1-5) by (simp add: ioapic_messages_def word_at_def byte_at_def demo_hhdm_def)

lemma boot_text_room:
  "text_room 100 (boot_text [(KInfo, ''IOAPIC: Located MADT at 0x%x'', [0xFFFF800000000400]), (KInfo, ''IOAPIC: MADT table'', []),
      (KInfo, ''IOAPIC: LAPIC address: 0x%x Flags: 0x%x Entries(pointer to): 0x%x'', [0xFEE00000, 1, 0xFFFF80000000042C]),
      override_message, (KInfo, ''IOAPIC: IOAPIC info'', []),
      (KInfo, ''IOAPIC: GlobalSystemInterruptBase: 0x%x IOAPIC_ID: 0x%x IOAPICAddress: 0x%x'', [0, 2, 0xFEC00000])]
     2 1 (cstr ''GOOSE'') boot_fb) \<le> 5600"
  by (simp add: boot_text_def event_text_def line_text_def keyboard_message_def disk_messages_def skip_message_def panic_text_def
      override_message_def hexadecimal_def decimal_def numeral_in_def digits_of.simps hex_char_def dec_char_def boot_fb_def
      image_at_def demo_hhdm_def)

theorem kernel_start_reads_ramdisk_and_halts_witness:
  "\<exists>y' before after. kernel_start boot_image boot_responses boot_sys = Inr y' \<and>
    sent (con_ports (k_console (sy_kernel y'))) = before @ cstr ''INFO Testing reading from ramdisk!'' @ [10] @ cstr ''GOOSE'' @ after \<and>
    \<not> interrupts_on (k_cpu (sy_kernel y')) \<and> ExternalInterruptHandlers (sy_kernel y') ! 1 = 0x5000"
proof -
  let ?evs = "ioapic_messages early_acpi (demo_hhdm + 0x400) (demo_hhdm + 0x434) 1"
  let ?T = "boot_text ?evs (length [None, Some boot_module]) (length [None :: limine_file option]) (cstr ''GOOSE'') boot_fb"
  have i: "in_region image_at 528 x" if "x \<in> dom image_mem" for x
    using that by (auto simp: image_mem_def buffer_memory_def module_bytes_def split: if_splits)
  have fb: "fb_addr boot_fb = image_at + of_nat 4096" "fb_bytes boot_fb = 5760000" by (simp_all add: boot_fb_def fb_bytes_def)
  have apart: "apart_from_screen boot_fb image_mem"
    using regions_apart [of 0 528 4096 5760000 image_at] i unfolding apart_from_screen_def fb by simp
  have buf: "region (image_at + 0x400) 512 \<inter> region (image_at + 16) 512 = {}"
      "region (image_at + 0x400) 512 \<inter> region (fb_addr boot_fb) (fb_bytes boot_fb) = {}"
    using regions_apart [of 16 512 "0x400" 512 image_at] regions_apart [of "0x400" 512 4096 5760000 image_at] unfolding fb
    by (auto simp: set_eq_iff)
  have "mapped boot_mem image_at 0x600000" using image_maps(4) by (simp add: mapped_region)
  then have bm: "mapped boot_mem (image_at + 0x400) 512" using mapped_sub [of boot_mem image_at "0x600000" "0x400" 512] by simp
  have len: "length [None, Some boot_module] = 2" "length [None :: limine_file option] = 1" by simp_all
  have room: "text_room 100 ?T \<le> 56 * 100" unfolding len early_words using boot_text_room by simp
  have quiet: "ps2_quiet boot_ports 0" by (simp add: ps2_quiet_def boot_ports_def COM1_def)
  have misc: "table_ok (sy_kernel boot_sys)" "file_address boot_module = image_at + 16" "ascii (cstr ''GOOSE'')"
    by (simp_all add: table_ok_def boot_sys_def kernel0_def boot_module_def)
  obtain y' where y': "kernel_start boot_image boot_responses boot_sys = Inr y'"
      "sent (con_ports (k_console (sy_kernel y'))) = sent boot_ports @ clear_text @ ?T"
      "\<not> interrupts_on (k_cpu (sy_kernel y'))" "ExternalInterruptHandlers (sy_kernel y') = (replicate 32 0)[1 := 0x5000]"
    using kernel_start_reads_ramdisk_and_halts [of boot_image boot_responses early_acpi "demo_hhdm + 0x400" "demo_hhdm + 0x434" "0xFEC00000"
        boot_sys 1 100 56 boot_fb 0 image_mem "[None, Some boot_module]" "[None]" boot_module "cstr ''GOOSE''" ?T,
        OF boot_early_ready(1) early_overrides boot_console_fresh] boot_early_ready(2) quiet misc apart boot_ramdisk buf bm boot_five room
    by (simp only: boot_sys_simps) auto
  let ?before = "events_text ?evs @ line_text KInfo keyboard_message @ events_text (disk_messages 2 1)"
  let ?after = "line_text KInfo (cstr ''Framebuffer Address: 0x'' @ hexadecimal (fb_addr boot_fb)) @ panic_text"
  have "?T = ?before @ cstr ''INFO Testing reading from ramdisk!'' @ [10] @ cstr ''GOOSE'' @ ?after"
    unfolding len by (simp add: boot_text_def line_text_def)
  with y' show ?thesis
    by (intro exI [of _ y'] exI [of _ "sent boot_ports @ clear_text @ ?before"] exI [of _ ?after]) simp
qed

end
