(* ===== verification/Entry_Stubs.thy ===== *)
theory Entry_Stubs
  imports Interrupts Descriptors
begin

text \<open>
  Interrupt entry and return, \<^verbatim>\<open>cpu/int.asm\<close>: the stubs as instruction lists over registers and a stack in byte
  memory, between the processor's delivery through a gate and \<open>iretq\<close>, with the call of the C++ handler, which runs on
  the interrupted stack. The results: the C++ handler is called with a
  pointer to a frame of exactly the layout of \<^verbatim>\<open>interrupt_frame\<close>, on an aligned stack, and when it returns the
  interrupted code continues with all its registers.
\<close>

section \<open>Registers and instructions\<close>

datatype reg = RAX | RBX | RCX | RDX | RSI | RDI | RBP | R8 | R9 | R10 | R11 | R12 | R13 | R14 | R15

record exec_state =
  gpr :: "reg \<Rightarrow> u64"
  rsp :: u64
  rip :: u64
  rflags :: u64
  code_sel :: u64
  stack_sel :: u64
  stack_mem :: mem
  krn :: kernel

text \<open>
  The instructions the stubs use; \<open>Call\<close> is the call of the C++ handler. What the source does not say of the compiled handler
  is a parameter: the address behind the call, the bytes that the handler's own frames leave on the stack below the return address, and
  the values that the registers the calling convention does not preserve hold afterwards.
\<close>

datatype instr = Push reg | Push_imm u64 | Pop reg | Mov_from_rsp reg | Mov_to_rsp reg | Mov reg reg |
  And_rsp u64 | Add_rsp u64 | Call | Iretq

record compiled =
  return_to :: u64
  stack_left :: "u8 list"
  regs_left :: "reg \<Rightarrow> u64"

definition push_word :: "u64 \<Rightarrow> exec_state \<Rightarrow> exec_state res" where
  "push_word v s = and_then (store64 (stack_mem s) (rsp s - 8) v) (\<lambda>m. Inr (s\<lparr>rsp := rsp s - 8, stack_mem := m\<rparr>))"

definition pop_word :: "exec_state \<Rightarrow> (u64 \<times> exec_state) res" where
  "pop_word s = and_then (load64 (stack_mem s) (rsp s)) (\<lambda>v. Inr (v, s\<lparr>rsp := rsp s + 8\<rparr>))"

text \<open>The return of a called function, and the stack it uses on the way: a range below the stack pointer, which faults unless it is
  mapped.\<close>

definition ret :: "exec_state \<Rightarrow> exec_state res" where
  "ret s = and_then (pop_word s) (\<lambda>(ip, s). Inr (s\<lparr>rip := ip\<rparr>))"

definition use_stack :: "compiled \<Rightarrow> exec_state \<Rightarrow> exec_state res" where
  "use_stack c s =
     and_then (store_bytes (stack_mem s) (rsp s - of_nat (length (stack_left c))) (stack_left c)) (\<lambda>m. Inr (s\<lparr>stack_mem := m\<rparr>))"

fun exec1 :: "compiled \<Rightarrow> (exec_state \<Rightarrow> exec_state res) \<Rightarrow> instr \<Rightarrow> exec_state \<Rightarrow> exec_state res" where
  "exec1 c h (Push r) s = push_word (gpr s r) s"
| "exec1 c h (Push_imm v) s = push_word v s"
| "exec1 c h (Pop r) s = and_then (pop_word s) (\<lambda>(v, s). Inr (s\<lparr>gpr := (gpr s)(r := v)\<rparr>))"
| "exec1 c h (Mov_from_rsp r) s = Inr (s\<lparr>gpr := (gpr s)(r := rsp s)\<rparr>)"
| "exec1 c h (Mov_to_rsp r) s = Inr (s\<lparr>rsp := gpr s r\<rparr>)"
| "exec1 c h (Mov d r) s = Inr (s\<lparr>gpr := (gpr s)(d := gpr s r)\<rparr>)"
| "exec1 c h (And_rsp v) s = Inr (s\<lparr>rsp := rsp s AND v\<rparr>)"
| "exec1 c h (Add_rsp v) s = Inr (s\<lparr>rsp := rsp s + v\<rparr>)"
| "exec1 c h Call s = and_then (push_word (return_to c) s) (\<lambda>s. and_then (h s) ret)"
| "exec1 c h Iretq s =
     and_then (pop_word s) (\<lambda>(ip, s). and_then (pop_word s) (\<lambda>(cs, s). and_then (pop_word s) (\<lambda>(fl, s).
     and_then (pop_word s) (\<lambda>(sp, s). and_then (pop_word s) (\<lambda>(sel, s).
       Inr (s\<lparr>rip := ip, code_sel := cs, rflags := fl, rsp := sp, stack_sel := sel\<rparr>))))))"

definition exec :: "compiled \<Rightarrow> (exec_state \<Rightarrow> exec_state res) \<Rightarrow> instr list \<Rightarrow> exec_state \<Rightarrow> exec_state res" where
  "exec c h = for_each (exec1 c h)"

lemma exec_simps [simp]:
  "exec c h [] s = Inr s" "exec c h (i # p) s = and_then (exec1 c h i s) (exec c h p)"
  by (simp_all add: exec_def)

lemma exec_append: "exec c h (p @ q) s = and_then (exec c h p s) (exec c h q)"
  by (simp add: exec_def for_each_append)

section \<open>The stubs\<close>

definition saved_registers :: "reg list" where
  "saved_registers = [RAX, RBX, RCX, RDX, RSI, RDI, RBP, R8, R9, R10, R11, R12, R13, R14, R15]"

definition ISREntry :: "instr list" where
  "ISREntry = map Push saved_registers @
     [Mov_from_rsp RBP, And_rsp (- 16), Mov RDI RBP, Call, Mov_to_rsp RBP] @
     map Pop (rev saved_registers) @ [Add_rsp 16, Iretq]"

definition IRQEntry :: "instr list" where
  "IRQEntry = map Push saved_registers @ [Mov_from_rsp RDI, Call] @
     map Pop (rev saved_registers) @ [Add_rsp 16, Iretq]"

text \<open>The vectors with \<^verbatim>\<open>isr_err_stub\<close>: the processor pushes the error code itself.\<close>

definition error_code_vectors :: "nat list" where
  "error_code_vectors = [8, 10, 11, 12, 13, 14, 17, 21, 29, 30]"

definition isr_stub :: "nat \<Rightarrow> instr list" where
  "isr_stub v = (if v \<in> set error_code_vectors then [] else [Push_imm 0]) @ [Push_imm (of_nat v)] @ ISREntry"

definition irq_stub :: "nat \<Rightarrow> instr list" where
  "irq_stub v = [Push_imm 0, Push_imm (of_nat v)] @ IRQEntry"

section \<open>Delivery and the handlers\<close>

text \<open>
  What the processor does with a gate of the kernel's table, interrupt gates on the current stack: align the stack
  pointer, push the five words and the error code of those exceptions that have one, clear the interrupt flag.
\<close>

definition deliver :: "u64 \<Rightarrow> u64 option \<Rightarrow> exec_state \<Rightarrow> exec_state res" where
  "deliver target err s =
     and_then (for_each push_word ([stack_sel s, rsp s, rflags s, code_sel s, rip s] @ (case err of None \<Rightarrow> [] | Some e \<Rightarrow> [e]))
         (s\<lparr>rsp := rsp s AND (- 16)\<rparr>))
       (\<lambda>s. Inr (s\<lparr>rip := target, rflags := rflags s AND NOT 0x200, code_sel := 8\<rparr>))"

text \<open>The stub of the vectors without a handler is a plain \<^verbatim>\<open>iret\<close>, which in 64-bit code has 32-bit operands:
  it pops five words of four bytes.\<close>

definition StubEntry_iret :: "exec_state \<Rightarrow> exec_state res" where
  "StubEntry_iret s =
     (let m = stack_mem s; a = rsp s
      in and_then (load32 m a) (\<lambda>ip. and_then (load32 m (a + 4)) (\<lambda>cs. and_then (load32 m (a + 8)) (\<lambda>fl.
         and_then (load32 m (a + 12)) (\<lambda>sp. and_then (load32 m (a + 16)) (\<lambda>sel.
           Inr (s\<lparr>rip := ucast ip, code_sel := ucast cs, rflags := ucast fl, rsp := ucast sp, stack_sel := ucast sel\<rparr>)))))))"

text \<open>Reading a frame from memory, in the order of the struct.\<close>

definition load_frame :: "mem \<Rightarrow> u64 \<Rightarrow> interrupt_frame res" where
  "load_frame m a =
     and_then (load64 m a) (\<lambda>v15. and_then (load64 m (a + 8)) (\<lambda>v14. and_then (load64 m (a + 16)) (\<lambda>v13.
     and_then (load64 m (a + 24)) (\<lambda>v12. and_then (load64 m (a + 32)) (\<lambda>v11. and_then (load64 m (a + 40)) (\<lambda>v10.
     and_then (load64 m (a + 48)) (\<lambda>v9. and_then (load64 m (a + 56)) (\<lambda>v8. and_then (load64 m (a + 64)) (\<lambda>bp.
     and_then (load64 m (a + 72)) (\<lambda>di. and_then (load64 m (a + 80)) (\<lambda>si. and_then (load64 m (a + 88)) (\<lambda>dx.
     and_then (load64 m (a + 96)) (\<lambda>cx. and_then (load64 m (a + 104)) (\<lambda>bx. and_then (load64 m (a + 112)) (\<lambda>ax.
     and_then (load64 m (a + 120)) (\<lambda>n. and_then (load64 m (a + 128)) (\<lambda>e. and_then (load64 m (a + 136)) (\<lambda>ip.
     and_then (load64 m (a + 144)) (\<lambda>cs. and_then (load64 m (a + 152)) (\<lambda>fl.
       Inr \<lparr>fr_r15 = v15, fr_r14 = v14, fr_r13 = v13, fr_r12 = v12, fr_r11 = v11, fr_r10 = v10, fr_r9 = v9, fr_r8 = v8,
         fr_rbp = bp, fr_rdi = di, fr_rsi = si, fr_rdx = dx, fr_rcx = cx, fr_rbx = bx, fr_rax = ax,
         int_no = n, error_code = e, fr_rip = ip, fr_cs = cs, fr_rflags = fl\<rparr>))))))))))))))))))))"

text \<open>
  The two C++ handlers behind the calling convention: the argument in rdi, the stack below the return address their own, callee-saved
  registers and the stack pointer kept, any other register as the compiled code leaves it. ISRHandler does not return, so its outcome
  is that of the kernel.
\<close>

definition callee_saved :: "reg list" where
  "callee_saved = [RBX, RBP, R12, R13, R14, R15]"

definition call_IRQHandler :: "(u64 \<Rightarrow> interrupt_frame \<Rightarrow> kernel \<Rightarrow> kernel res) \<Rightarrow> compiled \<Rightarrow> exec_state \<Rightarrow> exec_state res" where
  "call_IRQHandler call c s =
     and_then (use_stack c s) (\<lambda>s.
     and_then (load_frame (stack_mem s) (gpr s RDI)) (\<lambda>fr.
     and_then (IRQHandler call fr (krn s)) (\<lambda>k.
       Inr (s\<lparr>gpr := (\<lambda>r. if r \<in> set callee_saved then gpr s r else regs_left c r), krn := k\<rparr>))))"

definition run_ISRHandler :: "compiled \<Rightarrow> exec_state \<Rightarrow> kernel res" where
  "run_ISRHandler c s =
     and_then (push_word (return_to c) s) (\<lambda>s.
     and_then (use_stack c s) (\<lambda>s.
     and_then (load_frame (stack_mem s) (gpr s RDI)) (\<lambda>fr. ISRHandler fr (krn s))))"

text \<open>An external interrupt from delivery to return; an exception from delivery to the end of the panic.\<close>

definition take_irq :: "(u64 \<Rightarrow> interrupt_frame \<Rightarrow> kernel \<Rightarrow> kernel res) \<Rightarrow> compiled \<Rightarrow> u64 \<Rightarrow> nat \<Rightarrow> exec_state \<Rightarrow> exec_state res" where
  "take_irq call c target v s = and_then (deliver target None s) (exec c (call_IRQHandler call c) (irq_stub v))"

text \<open>The exceptions for which the processor pushes an error code: double fault, the segment and page faults from 10 to 14, alignment
  check, control protection, and the two of virtualisation and security.\<close>

definition pushes_error_code :: "nat \<Rightarrow> bool" where
  "pushes_error_code v \<longleftrightarrow> v = 8 \<or> 10 \<le> v \<and> v \<le> 14 \<or> v = 17 \<or> v = 21 \<or> v = 29 \<or> v = 30"

definition take_exception :: "compiled \<Rightarrow> u64 \<Rightarrow> nat \<Rightarrow> u64 \<Rightarrow> exec_state \<Rightarrow> kernel res" where
  "take_exception c target v e s =
     and_then (deliver target (if pushes_error_code v then Some e else None) s) (\<lambda>s.
     and_then (exec c Inr (takeWhile (\<lambda>i. i \<noteq> Call) (isr_stub v)) s) (run_ISRHandler c))"

section \<open>Words on the stack\<close>

text \<open>The list of words that starts at an address.\<close>

fun words :: "mem \<Rightarrow> u64 \<Rightarrow> u64 list \<Rightarrow> bool" where
  "words m a [] \<longleftrightarrow> True"
| "words m a (v # vs) \<longleftrightarrow> load64 m a = Inr v \<and> words m (a + 8) vs"

lemma in_region_up:
  assumes "k + n < 2 ^ 64" and "in_region (a + of_nat k) n x"
  shows "in_region a (k + n) x" and "\<not> in_region a k x"
proof -
  obtain i where i: "i < n" "x = a + of_nat k + of_nat i" using assms in_region_offset [of n "a + of_nat k" x] by auto
  then have "x = a + of_nat (k + i)" by (simp add: add.assoc)
  then show "in_region a (k + n) x" "\<not> in_region a k x" using i(1) assms(1) in_region_add [of "k + i" a] by simp_all
qed

lemma words_cong:
  "8 * length vs < 2 ^ 64 \<Longrightarrow> (\<And>x. in_region a (8 * length vs) x \<Longrightarrow> m' x = m x) \<Longrightarrow> words m' a vs = words m a vs"
proof (induction vs arbitrary: a)
  case (Cons v vs)
  have "load64 m' a = load64 m a" using Cons.prems(2) by (intro qword.ld_cong) (simp add: in_region_mono)
  moreover have "words m' (a + 8) vs = words m (a + 8) vs"
    using Cons.prems in_region_up(1) [of 8 "8 * length vs" a] by (intro Cons.IH) auto
  ultimately show ?case by simp
qed simp

lemma push_words:
  assumes "words (stack_mem s) (rsp s) ws" and "8 * (length vs + length ws) < 2 ^ 64"
    and "mapped (stack_mem s) (rsp s - of_nat (8 * length vs)) (8 * length vs)"
  shows "\<exists>m. for_each push_word vs s = Inr (s\<lparr>rsp := rsp s - of_nat (8 * length vs), stack_mem := m\<rparr>) \<and>
    words m (rsp s - of_nat (8 * length vs)) (rev vs @ ws) \<and> dom m = dom (stack_mem s) \<and>
    (\<forall>x. \<not> in_region (rsp s - of_nat (8 * length vs)) (8 * length vs) x \<longrightarrow> m x = stack_mem s x)"
  using assms
proof (induction vs rule: rev_induct)
  case Nil
  then show ?case by (intro exI [of _ "stack_mem s"]) simp
next
  case (snoc v vs)
  let ?n = "8 * length vs"
  let ?c = "rsp s - of_nat ?n"
  have c: "rsp s - of_nat (8 * length (vs @ [v])) = ?c - 8" by (simp add: algebra_simps)
  have len: "8 * length (vs @ [v]) = 8 + ?n" by simp
  have up: "?c = (?c - 8) + of_nat 8" by simp
  have mp: "mapped (stack_mem s) (?c - 8) (8 + ?n)" using snoc.prems(3) unfolding c unfolding len .
  have "mapped (stack_mem s) ?c ?n"
    using mapped_sub [OF mp, of 8 ?n] by simp
  then obtain m1 where m1: "for_each push_word vs s = Inr (s\<lparr>rsp := ?c, stack_mem := m1\<rparr>)" "words m1 ?c (rev vs @ ws)"
      "dom m1 = dom (stack_mem s)" "\<forall>x. \<not> in_region ?c ?n x \<longrightarrow> m1 x = stack_mem s x"
    using snoc by auto
  have "mapped m1 (?c - 8) 8" using mapped_dom [OF m1(3)] mapped_mono [OF mp, of 8] by simp
  then obtain m where m: "store64 m1 (?c - 8) v = Inr m" using qword.st_mapped by blast
  have "for_each push_word (vs @ [v]) s = Inr (s\<lparr>rsp := ?c - 8, stack_mem := m\<rparr>)"
    using m1(1) m by (simp add: for_each_append push_word_def)
  moreover have "words m ?c (rev vs @ ws)"
  proof -
    have "m x = m1 x" if "in_region ?c (8 * length (rev vs @ ws)) x" for x
      using qword.st_frame [OF m] in_region_up(2) [of 8 "8 * length (rev vs @ ws)" "?c - 8" x] that snoc.prems(2) by simp
    then show ?thesis using m1(2) words_cong [of "rev vs @ ws" ?c m m1] snoc.prems(2) by simp
  qed
  then have "words m (?c - 8) (rev (vs @ [v]) @ ws)" using qword.ld_st [OF m] by simp
  moreover have "m x = stack_mem s x" if "\<not> in_region (?c - 8) (8 + ?n) x" for x
  proof -
    have "\<not> in_region (?c - 8) 8 x" using that in_region_mono [of "?c - 8" 8 x "8 + ?n"] by auto
    moreover have "\<not> in_region ?c ?n x" using that in_region_up(1) [of 8 ?n "?c - 8" x] snoc.prems(2) by auto
    ultimately show ?thesis using qword.st_frame [OF m] m1(4) by simp
  qed
  moreover have "dom m = dom (stack_mem s)" using m1(3) qword.st_dom [OF m] by simp
  ultimately show ?case unfolding c unfolding len by (intro exI [of _ m] conjI allI impI)
qed

lemma push_registers: "gpr s = g \<Longrightarrow> exec c h (map Push rs) s = for_each push_word (map g rs) s"
  by (induction rs arbitrary: s) (auto simp: push_word_def and_then_assoc intro: and_then_cong)

lemma pop_registers:
  "words (stack_mem s) (rsp s) (map g rs) \<Longrightarrow> exec c h (map Pop rs) s =
    Inr (s\<lparr>gpr := (\<lambda>r. if r \<in> set rs then g r else gpr s r), rsp := rsp s + of_nat (8 * length rs)\<rparr>)"
proof (induction rs arbitrary: s)
  case (Cons r rs)
  let ?s = "s\<lparr>rsp := rsp s + 8, gpr := (gpr s)(r := g r)\<rparr>"
  have "exec1 c h (Pop r) s = Inr ?s" using Cons.prems by (simp add: pop_word_def)
  moreover have "exec c h (map Pop rs) ?s =
      Inr (?s\<lparr>gpr := (\<lambda>q. if q \<in> set rs then g q else gpr ?s q), rsp := rsp ?s + of_nat (8 * length rs)\<rparr>)"
    using Cons.prems by (intro Cons.IH) simp
  moreover have "(\<lambda>q. if q \<in> set rs then g q else gpr ?s q) = (\<lambda>q. if q \<in> set (r # rs) then g q else gpr s q)" by auto
  ultimately show ?case by (simp add: add.assoc)
qed simp

lemma saved_registers_all [simp]: "r \<in> set saved_registers"
  by (cases r) (simp_all add: saved_registers_def)

lemma length_saved [simp]: "length saved_registers = 15"
  by (simp add: saved_registers_def)

lemma load_frame_words:
  "words m a [w0, w1, w2, w3, w4, w5, w6, w7, w8, w9, w10, w11, w12, w13, w14, w15, w16, w17, w18, w19] \<Longrightarrow>
   load_frame m a = Inr \<lparr>fr_r15 = w0, fr_r14 = w1, fr_r13 = w2, fr_r12 = w3, fr_r11 = w4, fr_r10 = w5, fr_r9 = w6, fr_r8 = w7,
     fr_rbp = w8, fr_rdi = w9, fr_rsi = w10, fr_rdx = w11, fr_rcx = w12, fr_rbx = w13, fr_rax = w14,
     int_no = w15, error_code = w16, fr_rip = w17, fr_cs = w18, fr_rflags = w19\<rparr>"
  by (simp add: load_frame_def add.assoc)

lemma words_append: "words m a (vs @ ws) \<longleftrightarrow> words m a vs \<and> words m (a + of_nat (8 * length vs)) ws"
  by (induction vs arbitrary: a) (simp_all add: add.assoc)

section \<open>From the gate to the handler and back\<close>

text \<open>The frame of an interrupt number and error code that the interrupted state gives.\<close>

definition frame_for :: "u64 \<Rightarrow> u64 \<Rightarrow> exec_state \<Rightarrow> interrupt_frame" where
  "frame_for n e s = \<lparr>fr_r15 = gpr s R15, fr_r14 = gpr s R14, fr_r13 = gpr s R13, fr_r12 = gpr s R12, fr_r11 = gpr s R11,
     fr_r10 = gpr s R10, fr_r9 = gpr s R9, fr_r8 = gpr s R8, fr_rbp = gpr s RBP, fr_rdi = gpr s RDI, fr_rsi = gpr s RSI,
     fr_rdx = gpr s RDX, fr_rcx = gpr s RCX, fr_rbx = gpr s RBX, fr_rax = gpr s RAX, int_no = n, error_code = e,
     fr_rip = rip s, fr_cs = code_sel s, fr_rflags = rflags s\<rparr>"

definition return_words :: "exec_state \<Rightarrow> u64 list" where
  "return_words s = [rip s, code_sel s, rflags s, rsp s, stack_sel s]"

text \<open>The 22 words of a frame with the five the processor pushed, and where they lie: just below the aligned stack pointer.\<close>

definition frame_words :: "u64 \<Rightarrow> u64 \<Rightarrow> exec_state \<Rightarrow> u64 list" where
  "frame_words n e s = map (gpr s) (rev saved_registers) @ [n, e] @ return_words s"

definition frame_base :: "exec_state \<Rightarrow> u64" where
  "frame_base s = (rsp s AND (- 16)) - 176"

definition frame_room :: "exec_state \<Rightarrow> bool" where
  "frame_room s \<longleftrightarrow> mapped (stack_mem s) (frame_base s) 176"

text \<open>The whole stack of an interrupt: the frame, the return address and what the handler uses below it.\<close>

definition stack_base :: "compiled \<Rightarrow> exec_state \<Rightarrow> u64" where
  "stack_base c s = frame_base s - of_nat (8 + length (stack_left c))"

definition stack_used :: "compiled \<Rightarrow> nat" where
  "stack_used c = 8 + length (stack_left c) + 176"

definition stack_room :: "compiled \<Rightarrow> exec_state \<Rightarrow> bool" where
  "stack_room c s \<longleftrightarrow> stack_used c < 2 ^ 63 \<and> mapped (stack_mem s) (stack_base c s) (stack_used c)"

lemma frame_in_stack: "frame_base s = stack_base c s + of_nat (8 + length (stack_left c))"
  by (simp add: stack_base_def)

lemma stack_frame_room: "stack_room c s \<Longrightarrow> frame_room s"
  unfolding stack_room_def frame_room_def frame_in_stack [of s c] by (rule mapped_sub) (auto simp: stack_used_def)

lemma off_stack_off_frame:
  assumes "stack_room c s" and "\<not> in_region (stack_base c s) (stack_used c) x"
  shows "\<not> in_region (frame_base s) 176 x"
  using assms in_region_up(1) [of "8 + length (stack_left c)" 176 "stack_base c s" x]
  unfolding frame_in_stack [of s c] by (auto simp: stack_room_def stack_used_def)

lemma frame_words_load: "words m a (frame_words n e s) \<Longrightarrow> load_frame m a = Inr (frame_for n e s)"
  unfolding frame_words_def frame_for_def return_words_def saved_registers_def
  by (rule load_frame_words) (simp add: add.assoc)

text \<open>The state in which the entry code has saved everything.\<close>

definition entered :: "u64 \<Rightarrow> exec_state \<Rightarrow> mem \<Rightarrow> exec_state" where
  "entered target s m = s\<lparr>rsp := frame_base s, stack_mem := m, rip := target, rflags := rflags s AND NOT 0x200, code_sel := 8\<rparr>"

lemma frame_base_blocks: "frame_base s = push_bit 4 (drop_bit 4 (rsp s) - 11)"
proof -
  have "rsp s AND NOT (mask 4) = push_bit 4 (drop_bit 4 (rsp s))"
    by (rule bit_word_eqI) (auto simp: bit_simps)
  moreover have "NOT (mask 4) = (- 16 :: u64)" by (simp add: mask_eq_exp_minus_1 not_eq_complement)
  ultimately have "rsp s AND (- 16) = push_bit 4 (drop_bit 4 (rsp s))" by (simp only:)
  then show "frame_base s = push_bit 4 (drop_bit 4 (rsp s) - 11)"
    by (simp add: frame_base_def push_bit_eq_mult algebra_simps)
qed

lemma frame_base_aligned: "frame_base s AND 15 = 0"
proof -
  have "(15 :: u64) = mask 4" by (simp add: mask_eq_exp_minus_1)
  then show ?thesis unfolding frame_base_blocks by (simp only: take_bit_eq_mask [symmetric]) (simp add: take_bit_push_bit)
qed

lemma frame_base_and: "frame_base s AND (- 16) = frame_base s"
proof -
  have "- 16 = (NOT (mask 4) :: u64)" by (simp add: mask_eq_exp_minus_1 not_eq_complement)
  moreover have "push_bit 4 (w :: u64) AND NOT (mask 4) = push_bit 4 w" for w by (rule bit_word_eqI) (auto simp: bit_simps)
  ultimately show ?thesis unfolding frame_base_blocks by (simp only:)
qed

lemma below_top: "n \<le> 176 \<Longrightarrow> (rsp s AND (- 16)) - of_nat n = frame_base s + of_nat (176 - n)"
  by (simp add: frame_base_def of_nat_diff)

lemma frame_room_sub:
  assumes "frame_room s" and "k \<le> 176"
  shows "mapped (stack_mem s) ((rsp s AND (- 16)) - of_nat k) k"
  unfolding below_top [OF assms(2)] by (rule mapped_sub) (use assms in \<open>auto simp: frame_room_def\<close>)

lemma in_frame:
  assumes "k + n \<le> 176" and "in_region ((rsp s AND (- 16)) - of_nat (k + n)) n x"
  shows "in_region (frame_base s) 176 x"
  using assms(2) in_region_up(1) [of "176 - (k + n)" n "frame_base s" x] in_region_mono [of "frame_base s" "176 - k" x 176] assms(1)
  unfolding below_top [OF assms(1)] by auto

text \<open>Delivery, and the pushes of the stub after it; \<open>es\<close> is the processor's own error code, if any.\<close>

lemma deliver_result:
  assumes room: "frame_room s" and es: "es = (case err of None \<Rightarrow> [] | Some e \<Rightarrow> [e])"
  shows "\<exists>m. deliver target err s = Inr (s\<lparr>rsp := (rsp s AND (- 16)) - of_nat (8 * (5 + length es)), stack_mem := m, rip := target,
      rflags := rflags s AND NOT 0x200, code_sel := 8\<rparr>) \<and>
    words m ((rsp s AND (- 16)) - of_nat (8 * (5 + length es))) (es @ return_words s) \<and> dom m = dom (stack_mem s) \<and>
    (\<forall>x. \<not> in_region (frame_base s) 176 x \<longrightarrow> m x = stack_mem s x)"
proof -
  let ?vs = "[stack_sel s, rsp s, rflags s, code_sel s, rip s] @ es"
  let ?s = "s\<lparr>rsp := rsp s AND (- 16)\<rparr>"
  have l: "length ?vs = 5 + length es" "length es \<le> 1" "rev es = es" using es by (auto split: option.splits)
  have "mapped (stack_mem ?s) (rsp ?s - of_nat (8 * length ?vs)) (8 * length ?vs)"
    using frame_room_sub [OF room, of "8 * length ?vs"] l by simp
  then obtain m where m: "for_each push_word ?vs ?s = Inr (?s\<lparr>rsp := rsp ?s - of_nat (8 * length ?vs), stack_mem := m\<rparr>)"
      "words m (rsp ?s - of_nat (8 * length ?vs)) (rev ?vs)" "dom m = dom (stack_mem s)"
      "\<forall>x. \<not> in_region (rsp ?s - of_nat (8 * length ?vs)) (8 * length ?vs) x \<longrightarrow> m x = stack_mem s x"
    using push_words [of ?s "[]" ?vs] l(1,2) by auto
  have "rev ?vs = es @ return_words s" using l(3) by (simp add: return_words_def)
  moreover have "\<not> in_region (rsp ?s - of_nat (8 * length ?vs)) (8 * length ?vs) x" if "\<not> in_region (frame_base s) 176 x" for x
    using that in_frame [of 0 "8 * length ?vs" s x] l(1,2) by auto
  ultimately show ?thesis using m es unfolding l(1) by (auto simp: deliver_def)
qed

lemma exec_pushes: "exec c h (map Push_imm vs) s = for_each push_word vs s"
  by (induction vs arbitrary: s) (auto intro: and_then_cong)

lemma entry_result:
  assumes room: "frame_room s" and es: "es = (case err of None \<Rightarrow> [] | Some e \<Rightarrow> [e])" and pre: "rev pre @ es = [n, e]"
  shows "\<exists>m. and_then (deliver target err s) (exec c h (map Push_imm pre @ map Push saved_registers @ p)) = exec c h p (entered target s m) \<and>
    words m (frame_base s) (frame_words n e s) \<and> dom m = dom (stack_mem s) \<and>
    (\<forall>x. \<not> in_region (frame_base s) 176 x \<longrightarrow> m x = stack_mem s x)"
proof -
  let ?T = "rsp s AND (- 16)" and ?vs = "pre @ map (gpr s) saved_registers"
  have len: "length pre + length es = 2" using arg_cong [OF pre, of length] by simp
  let ?n = "8 * (5 + length es)"
  let ?d = "\<lambda>m. s\<lparr>rsp := ?T - of_nat ?n, stack_mem := m, rip := target, rflags := rflags s AND NOT 0x200, code_sel := 8\<rparr>"
  obtain m1 where d: "deliver target err s = Inr (?d m1)" "words m1 (?T - of_nat ?n) (es @ return_words s)"
      "dom m1 = dom (stack_mem s)" "\<forall>x. \<not> in_region (frame_base s) 176 x \<longrightarrow> m1 x = stack_mem s x"
    using deliver_result [OF room es] by blast
  have k: "8 * length ?vs + ?n = 176" using len by simp
  have low: "rsp (?d m1) - of_nat (8 * length ?vs) = frame_base s"
    using arg_cong [OF k, of "of_nat :: nat \<Rightarrow> u64"] by (simp add: frame_base_def algebra_simps)
  have small: "8 * length ?vs \<le> 176" using k by linarith
  have "mapped (stack_mem (?d m1)) (rsp (?d m1) - of_nat (8 * length ?vs)) (8 * length ?vs)"
    unfolding low using room small mapped_dom [OF d(3)] mapped_mono [of "stack_mem s" "frame_base s" 176 "8 * length ?vs"]
    by (simp add: frame_room_def)
  moreover have "8 * (length ?vs + length (es @ return_words s)) < 2 ^ 64" using len by (simp add: return_words_def)
  ultimately obtain m where m: "for_each push_word ?vs (?d m1) = Inr (?d m1\<lparr>rsp := frame_base s, stack_mem := m\<rparr>)"
      "words m (frame_base s) (rev ?vs @ es @ return_words s)" "dom m = dom (stack_mem s)"
      "\<forall>x. \<not> in_region (frame_base s) (8 * length ?vs) x \<longrightarrow> m x = stack_mem (?d m1) x"
    using push_words [of "?d m1" "es @ return_words s" ?vs] d(2,3) unfolding low by auto
  have "rev ?vs @ es @ return_words s = frame_words n e s"
    using arg_cong [OF pre, of "\<lambda>l. l @ return_words s"] by (simp add: rev_map frame_words_def)
  then have w: "words m (frame_base s) (frame_words n e s)" using m(2) by simp
  have fr: "m x = stack_mem s x" if "\<not> in_region (frame_base s) 176 x" for x
  proof -
    have "\<not> in_region (frame_base s) (8 * length ?vs) x"
      using that in_region_mono [of "frame_base s" "8 * length ?vs" x 176] small by blast
    from m(4) [rule_format, OF this] show ?thesis using d(4) that by simp
  qed
  have "exec c h (map Push_imm pre @ map Push saved_registers @ p) (?d m1) = and_then (for_each push_word ?vs (?d m1)) (exec c h p)"
  proof -
    have "gpr t = gpr s" if "for_each push_word pre (?d m1) = Inr t" for t
      by (rule for_each_invariant [where I = "\<lambda>u. gpr u = gpr s", OF that]) (auto simp: push_word_def and_then_eq_Inr)
    then have "exec c h (map Push saved_registers) t = for_each push_word (map (gpr s) saved_registers) t"
      if "for_each push_word pre (?d m1) = Inr t" for t
      using that push_registers by blast
    then show ?thesis by (auto simp: exec_append exec_pushes for_each_append and_then_assoc intro!: and_then_cong)
  qed
  moreover have "?d m1\<lparr>rsp := frame_base s, stack_mem := m\<rparr> = entered target s m" by (simp add: entered_def)
  ultimately show ?thesis using d(1) m(1,3) w fr by auto
qed

text \<open>The call: the return address under the frame, the handler's own stack under that, the frame intact.\<close>

lemma call_stack:
  assumes room: "stack_room c s" and t: "rsp t = frame_base s" "dom (stack_mem t) = dom (stack_mem s)"
    and w: "words (stack_mem t) (frame_base s) ws" "length ws = 22"
  shows "\<exists>m. and_then (push_word (return_to c) t) (use_stack c) = Inr (t\<lparr>rsp := frame_base s - 8, stack_mem := m\<rparr>) \<and>
    words m (frame_base s - 8) (return_to c # ws) \<and> dom m = dom (stack_mem s) \<and>
    (\<forall>x. \<not> in_region (stack_base c s) (stack_used c) x \<longrightarrow> m x = stack_mem t x)"
proof -
  let ?B = "frame_base s" and ?n = "length (stack_left c)" and ?S = "stack_base c s"
  have S: "?B - 8 = ?S + of_nat ?n" by (simp add: stack_base_def)
  have small: "?n + 184 < 2 ^ 63" and mp: "mapped (stack_mem t) ?S (?n + 184)"
    using room mapped_dom [OF t(2)] by (simp_all add: stack_room_def stack_used_def add.commute)
  have "mapped (stack_mem t) (?B - 8) 8" unfolding S using mapped_sub [OF mp, of ?n 8] by simp
  then obtain m1 where m1: "push_word (return_to c) t = Inr (t\<lparr>rsp := ?B - 8, stack_mem := m1\<rparr>)"
      "words m1 (?B - 8) (return_to c # ws)" "dom m1 = dom (stack_mem t)" "\<forall>x. \<not> in_region (?B - 8) 8 x \<longrightarrow> m1 x = stack_mem t x"
    using push_words [of t ws "[return_to c]"] w t(1) by auto
  let ?m = "put_bytes m1 ?S (stack_left c)"
  have "mapped m1 ?S ?n" using mapped_mono [OF mp] mapped_dom [OF m1(3)] by simp
  then have st: "store_bytes m1 (?B - 8 - of_nat ?n) (stack_left c) = Inr ?m" and dm: "dom ?m = dom m1"
    using small by (simp_all add: S store_bytes_mapped dom_put_bytes)
  have "words ?m (?B - 8) (return_to c # ws) = words m1 (?B - 8) (return_to c # ws)"
  proof (rule words_cong)
    fix x assume "in_region (?B - 8) (8 * length (return_to c # ws)) x"
    then have "in_region (?S + of_nat ?n) 184 x" using w(2) by (simp add: S)
    then have "\<not> in_region ?S ?n x" using in_region_up(2) [of ?n 184 ?S x] small by simp
    then show "?m x = m1 x" by (simp add: put_bytes_def)
  qed (simp add: w(2))
  moreover have "?m x = stack_mem t x" if "\<not> in_region ?S (stack_used c) x" for x
  proof -
    have "\<not> in_region ?S ?n x" using that in_region_mono [of ?S ?n x "stack_used c"] by (auto simp: stack_used_def)
    moreover have "\<not> in_region (?B - 8) 8 x"
      using that in_region_up(1) [of ?n 8 ?S x] small in_region_mono [of ?S "?n + 8" x "stack_used c"]
      unfolding S by (auto simp: stack_used_def)
    ultimately show ?thesis using m1(4) by (simp add: put_bytes_def)
  qed
  moreover have "and_then (push_word (return_to c) t) (use_stack c) = Inr (t\<lparr>rsp := ?B - 8, stack_mem := ?m\<rparr>)"
    using m1(1) st by (simp add: use_stack_def)
  ultimately show ?thesis using m1(2,3) dm t(2) by (intro exI [of _ ?m]) auto
qed

text \<open>The way back: when the frame is intact and the callee kept rsp, everything is restored.\<close>

lemma exit_result:
  assumes "rsp t = frame_base s" and "words (stack_mem t) (frame_base s) (frame_words n e s)"
  shows "exec c h (map Pop (rev saved_registers) @ [Add_rsp 16, Iretq]) t =
    Inr (s\<lparr>stack_mem := stack_mem t, krn := krn t\<rparr>)"
proof -
  let ?m = "stack_mem t" and ?B = "frame_base s"
  have w: "words ?m ?B (map (gpr s) (rev saved_registers))" "words ?m (?B + 120) ([n, e] @ return_words s)"
    using assms(2) words_append [of ?m ?B "map (gpr s) (rev saved_registers)"] by (simp_all add: frame_words_def)
  have r: "load64 ?m (?B + 136) = Inr (rip s)" "load64 ?m (?B + 144) = Inr (code_sel s)" "load64 ?m (?B + 152) = Inr (rflags s)"
      "load64 ?m (?B + 160) = Inr (rsp s)" "load64 ?m (?B + 168) = Inr (stack_sel s)"
    using w(2) by (simp_all add: return_words_def add.assoc)
  have "exec c h (map Pop (rev saved_registers)) t = Inr (t\<lparr>gpr := gpr s, rsp := ?B + 120\<rparr>)"
    using pop_registers [of t "gpr s" "rev saved_registers" c h] w(1) assms(1) by simp
  then show ?thesis
    using r by (cases s; cases t) (simp add: exec_append pop_word_def add.assoc)
qed

section \<open>The stub without a handler\<close>

lemma bit_le_join: "bit (le_join bs) k \<longleftrightarrow> k < 64 \<and> k div 8 < length bs \<and> bit (bs ! (k div 8)) (k mod 8)"
proof (induction bs arbitrary: k)
  case (Cons b bs)
  show ?case
  proof (cases "k < 8")
    case True
    then show ?thesis by (auto simp: bit_simps)
  next
    case False
    then have "\<not> bit b k" by (auto dest: bit_imp_le_length)
    moreover have "k div 8 = Suc ((k - 8) div 8)" "k mod 8 = (k - 8) mod 8" using False by (simp_all add: le_div_geq le_mod_geq)
    moreover have "bit (le_join (b # bs)) k \<longleftrightarrow> k < 64 \<and> bit (le_join bs) (k - 8)"
      using False calculation(1) by (auto simp: bit_simps dest: bit_imp_le_length)
    ultimately show ?thesis using Cons.IH [of "k - 8"] by auto
  qed
qed simp

lemma load_halves:
  assumes "load64 m a = Inr v"
  shows "load32 m a = Inr (ucast v)" and "load32 m (a + 4) = Inr (ucast (drop_bit 32 v))"
proof -
  define bs where "bs = get_bytes m a 8"
  have bs: "mapped m a 8" "v = le_join bs"
    using assms by (auto simp: load64_def and_then_eq_Inr load_bytes_eq_Inr bs_def)
  have "get_bytes m a 4 = take 4 bs" by (rule nth_equalityI) (simp_all add: bs_def)
  moreover have "get_bytes m (a + 4) 4 = drop 4 bs" by (rule nth_equalityI) (simp_all add: bs_def add.assoc)
  moreover have "mapped m a 4" "mapped m (a + 4) 4"
    using mapped_mono [OF bs(1), of 4] mapped_sub [OF bs(1), of 4 4] by simp_all
  moreover have "length bs = 8" by (simp add: bs_def)
  moreover have shift: "(n + 32) div 8 = 4 + n div 8" "(n + 32) mod 8 = n mod 8" for n :: nat by presburger+
  ultimately show "load32 m a = Inr (ucast v)" "load32 m (a + 4) = Inr (ucast (drop_bit 32 v))"
    unfolding load32_def bs(2) using shift
    by (auto simp: load_bytes_mapped bit_le_join bit_ucast_iff bit_drop_bit_eq add.commute intro!: bit_word_eqI)
qed

text \<open>So an interrupt on such a vector comes back with the upper half of the interrupted instruction pointer as code selector.\<close>

lemma StubEntry_loses_selector:
  assumes "frame_room s" and "deliver target None s = Inr t" and "StubEntry_iret t = Inr u"
  shows "code_sel u = drop_bit 32 (rip s)"
proof -
  obtain m where "t = s\<lparr>rsp := (rsp s AND (- 16)) - of_nat (8 * (5 + length ([] :: u64 list))), stack_mem := m, rip := target,
      rflags := rflags s AND NOT 0x200, code_sel := 8\<rparr>"
    "words m ((rsp s AND (- 16)) - of_nat (8 * (5 + length ([] :: u64 list)))) ([] @ return_words s)"
    using deliver_result [OF assms(1), of "[]" None target] assms(2) by auto
  then have "load64 (stack_mem t) (rsp t) = Inr (rip s)" by (simp add: return_words_def)
  from load_halves(2) [OF this] have "code_sel u = ucast (ucast (drop_bit 32 (rip s)) :: u32)"
    using assms(3) by (auto simp: StubEntry_iret_def Let_def and_then_eq_Inr)
  then show ?thesis by (simp only:) (rule bit_word_eqI, auto simp: bit_simps dest: bit_imp_le_length)
qed

text \<open>A state for the witnesses, with a stack pointer that is not aligned.\<close>

definition running0 :: exec_state where
  "running0 = \<lparr>gpr = (\<lambda>r. if r = RAX then 7 else if r = R12 then 9 else 0), rsp = 0x5005, rip = 0xFFFFFFFF80001234, rflags = 0x246,
     code_sel = 8, stack_sel = 0x10, stack_mem = zeroed 0x4000 0x1000, krn = kernel0\<rparr>"

definition compiled0 :: compiled where
  "compiled0 = \<lparr>return_to = 0xFFFFFFFF80002000, stack_left = replicate 64 0xCC, regs_left = (\<lambda>_. 0xDEAD)\<rparr>"

lemma running0_room: "stack_room compiled0 (running0\<lparr>krn := k\<rparr>)"
proof -
  have "stack_base compiled0 running0 = 0x4000 + of_nat 0xF08" "stack_used compiled0 = 248"
    by (simp_all add: stack_base_def stack_used_def frame_base_def running0_def compiled0_def)
  moreover have "mapped (zeroed 0x4000 0x1000) (0x4000 + of_nat 0xF08) 248"
    by (rule mapped_sub [OF mapped_zeroed]) simp_all
  ultimately show ?thesis by (simp add: stack_room_def stack_base_def frame_base_def running0_def)
qed

section \<open>Properties\<close>

lemma words_mapped: "words m a vs \<Longrightarrow> mapped m a (8 * length vs)"
proof (induction vs arbitrary: a)
  case (Cons v vs)
  then have "mapped m a 8" "mapped m (a + of_nat 8) (8 * length vs)" using qword.ld_Inr_mapped by auto
  then have "mapped m a (8 + 8 * length vs)" by (rule mapped_join)
  then show ?case by simp
qed simp

lemma take_irq_result:
  assumes room: "stack_room c s"
  shows "\<exists>m. dom m = dom (stack_mem s) \<and> (\<forall>x. \<not> in_region (stack_base c s) (stack_used c) x \<longrightarrow> m x = stack_mem s x) \<and>
    take_irq call c target v s =
      and_then (IRQHandler call (frame_for (of_nat v) 0 s) (krn s)) (\<lambda>k. Inr (s\<lparr>stack_mem := m, krn := k\<rparr>))"
proof -
  let ?rest = "map Pop (rev saved_registers) @ [Add_rsp 16, Iretq]" and ?h = "call_IRQHandler call c"
  let ?p = "[Mov_from_rsp RDI, Call] @ ?rest"
  obtain m1 where m1: "and_then (deliver target None s) (exec c ?h (map Push_imm [0, of_nat v] @ map Push saved_registers @ ?p)) =
        exec c ?h ?p (entered target s m1)" "words m1 (frame_base s) (frame_words (of_nat v) 0 s)" "dom m1 = dom (stack_mem s)"
      "\<forall>x. \<not> in_region (frame_base s) 176 x \<longrightarrow> m1 x = stack_mem s x"
    using entry_result [OF stack_frame_room [OF room], where es = "[]" and err = None and pre = "[0, of_nat v]" and n = "of_nat v"
        and e = 0 and target = target and c = c and h = ?h and p = ?p] by auto
  let ?e = "(entered target s m1)\<lparr>gpr := (gpr s)(RDI := frame_base s)\<rparr>"
  obtain m where m: "and_then (push_word (return_to c) ?e) (use_stack c) = Inr (?e\<lparr>rsp := frame_base s - 8, stack_mem := m\<rparr>)"
      "words m (frame_base s - 8) (return_to c # frame_words (of_nat v) 0 s)" "dom m = dom (stack_mem s)"
      "\<forall>x. \<not> in_region (stack_base c s) (stack_used c) x \<longrightarrow> m x = m1 x"
    using call_stack [OF room, of ?e "frame_words (of_nat v) 0 s"] m1(2,3)
    by (auto simp: entered_def frame_words_def return_words_def)
  have fw: "words m (frame_base s) (frame_words (of_nat v) 0 s)" using m(2) by simp
  have "exec c ?h ?p (entered target s m1) = and_then (exec1 c ?h Call ?e) (exec c ?h ?rest)"
    by (simp add: entered_def)
  also have "\<dots> = and_then (IRQHandler call (frame_for (of_nat v) 0 s) (krn s)) (\<lambda>k. Inr (s\<lparr>stack_mem := m, krn := k\<rparr>))"
  proof -
    let ?t = "\<lambda>k. ?e\<lparr>stack_mem := m, gpr := (\<lambda>r. if r \<in> set callee_saved then gpr ?e r else regs_left c r),
      krn := k, rsp := frame_base s, rip := return_to c\<rparr>"
    have ex: "exec c ?h ?rest (?t k) = Inr (s\<lparr>stack_mem := m, krn := k\<rparr>)" for k
      using exit_result [of "?t k" s "of_nat v" 0 c ?h] fw by (simp add: entered_def)
    have "exec1 c ?h Call ?e = and_then (and_then (push_word (return_to c) ?e) (use_stack c)) (\<lambda>s.
        and_then (load_frame (stack_mem s) (gpr s RDI)) (\<lambda>fr. and_then (IRQHandler call fr (krn s)) (\<lambda>k.
          ret (s\<lparr>gpr := (\<lambda>r. if r \<in> set callee_saved then gpr s r else regs_left c r), krn := k\<rparr>))))"
      by (simp add: call_IRQHandler_def and_then_assoc)
    also have "\<dots> = and_then (IRQHandler call (frame_for (of_nat v) 0 s) (krn s)) (\<lambda>k. Inr (?t k))"
      unfolding m(1) using frame_words_load [OF fw] m(2)
      by (simp add: entered_def ret_def pop_word_def cong: if_cong)
    finally show ?thesis by (simp only: and_then_assoc and_then.simps ex)
  qed
  finally have "take_irq call c target v s =
      and_then (IRQHandler call (frame_for (of_nat v) 0 s) (krn s)) (\<lambda>k. Inr (s\<lparr>stack_mem := m, krn := k\<rparr>))"
    using m1(1) by (simp add: take_irq_def irq_stub_def IRQEntry_def)
  moreover have "m x = stack_mem s x" if "\<not> in_region (stack_base c s) (stack_used c) x" for x
    using that m(4) m1(4) off_stack_off_frame [OF room that] by simp
  ultimately show ?thesis using m(3) by blast
qed

text \<open>C7: an external interrupt is transparent: from delivery through the stub, the call of the dispatcher and back, the interrupted code
  continues with every general register, the stack pointer, the instruction pointer, the flags and both selectors as they were; the dispatcher has
  run once, on a frame with the stub's number and the interrupted registers at a 16-byte aligned stack. Of the memory only stack
  below the aligned stack pointer is written: the frame's 176 bytes, 8 for the return address and what the compiled dispatcher
  uses under it, and it must all be mapped.\<close>

theorem take_irq_transparent:
  assumes "stack_room c s"
  shows "frame_base s AND 15 = 0 \<and> (\<exists>m. (\<forall>x. \<not> in_region (stack_base c s) (176 + 8 + length (stack_left c)) x \<longrightarrow> m x = stack_mem s x) \<and>
    take_irq call c target v s =
      and_then (IRQHandler call (frame_for (of_nat v) 0 s) (krn s)) (\<lambda>k. Inr (s\<lparr>stack_mem := m, krn := k\<rparr>)))"
proof -
  have "176 + 8 + length (stack_left c) = stack_used c" by (simp add: stack_used_def)
  then show ?thesis using take_irq_result [OF assms, of call target v] frame_base_aligned by metis
qed

theorem take_irq_transparent_witness:
  "\<exists>m. take_irq (\<lambda>_ _ k. Inr (k\<lparr>shift := 5\<rparr>)) compiled0 0x2021 33
      (running0\<lparr>krn := kernel0\<lparr>ExternalInterruptHandlers := (replicate 32 0)[1 := 0x9000]\<rparr>\<rparr>) =
    Inr (running0\<lparr>stack_mem := m, krn := kernel0\<lparr>ExternalInterruptHandlers := (replicate 32 0)[1 := 0x9000], shift := 5,
      k_cpu := SendEOI 0xFED00000 cpu0\<rparr>\<rparr>)"
proof -
  let ?k = "kernel0\<lparr>ExternalInterruptHandlers := (replicate 32 0)[1 := 0x9000]\<rparr>"
  from take_irq_transparent [OF running0_room [of ?k], of "\<lambda>_ _ k. Inr (k\<lparr>shift := 5\<rparr>)" "0x2021" 33]
  show ?thesis by (auto simp: IRQHandler_def frame_for_def kernel0_def Let_def)
qed

text \<open>The bound is sharp: where the eight bytes of the return address are not mapped, the call faults.\<close>

lemma call_needs_return_slot:
  "\<not> mapped (stack_mem s) (rsp s - 8) 8 \<Longrightarrow> \<exists>x. exec1 c h Call s = Inl (PageFault x)"
  using store_bytes_unmapped [of "stack_mem s" "rsp s - 8" "le_split 8 (return_to c)"] by (auto simp: push_word_def store64_def)

lemma stub_table: "v \<in> set error_code_vectors \<longleftrightarrow> pushes_error_code v"
  by (auto simp: error_code_vectors_def pushes_error_code_def)

lemma take_exception_result:
  assumes room: "stack_room c s" and "v < 32"
  shows "take_exception c target v e s =
    ISRHandler (frame_for (of_nat v) (if pushes_error_code v then e else 0) s) (krn s)"
proof -
  let ?err = "if pushes_error_code v then Some e else None" and ?e = "if pushes_error_code v then e else 0"
  let ?pre = "(if pushes_error_code v then [] else [0]) @ [of_nat v :: u64]"
  let ?es = "if pushes_error_code v then [e] else []"
  let ?p = "[Mov_from_rsp RBP, And_rsp (- 16), Mov RDI RBP]" and ?fw = "frame_words (of_nat v) ?e s"
  have stub: "takeWhile (\<lambda>i. i \<noteq> Call) (isr_stub v) = map Push_imm ?pre @ map Push saved_registers @ ?p"
    by (simp add: isr_stub_def ISREntry_def saved_registers_def stub_table)
  obtain m1 where m1: "and_then (deliver target ?err s) (exec c Inr (map Push_imm ?pre @ map Push saved_registers @ ?p)) =
        exec c Inr ?p (entered target s m1)" "words m1 (frame_base s) ?fw" "dom m1 = dom (stack_mem s)"
    using entry_result [OF stack_frame_room [OF room], where es = ?es and err = ?err and pre = ?pre and n = "of_nat v" and e = ?e
        and target = target and c = c and h = Inr and p = ?p] by (cases "pushes_error_code v") (simp_all del: exec_simps, blast+)
  let ?t = "(entered target s m1)\<lparr>rsp := frame_base s, gpr := (gpr s)(RBP := frame_base s, RDI := frame_base s)\<rparr>"
  have al: "rsp ?t = frame_base s" by (simp add: entered_def)
  obtain m where m: "and_then (push_word (return_to c) ?t) (use_stack c) = Inr (?t\<lparr>rsp := frame_base s - 8, stack_mem := m\<rparr>)"
      "words m (frame_base s - 8) (return_to c # ?fw)"
    using call_stack [OF room al, of ?fw] m1(2,3) by (auto simp: entered_def frame_words_def return_words_def)
  have "take_exception c target v e s = and_then (exec c Inr ?p (entered target s m1)) (run_ISRHandler c)"
    unfolding take_exception_def stub and_then_assoc [symmetric] m1(1) by simp
  also have "\<dots> = run_ISRHandler c ?t" by (simp add: entered_def frame_base_and)
  also have "\<dots> = and_then (and_then (push_word (return_to c) ?t) (use_stack c)) (\<lambda>s.
      and_then (load_frame (stack_mem s) (gpr s RDI)) (\<lambda>fr. ISRHandler fr (krn s)))"
    by (simp add: run_ISRHandler_def and_then_assoc)
  also have "\<dots> = ISRHandler (frame_for (of_nat v) ?e s) (krn s)"
    unfolding m(1) using frame_words_load [of m "frame_base s" "of_nat v" ?e s] m(2) by (simp add: entered_def)
  finally show ?thesis .
qed

text \<open>C30: every processor exception reaches ISRHandler with a frame of the exception's own number, the processor's error code
  where the architecture defines one and 0 elsewhere, and the interrupted registers.\<close>

theorem take_exception_frame:
  assumes "stack_room c s" and "v < 32"
  shows "take_exception c target v e s =
    ISRHandler (frame_for (of_nat v) (if pushes_error_code v then e else 0) s) (krn s)"
  by (rule take_exception_result [OF assms])

theorem take_exception_frame_witness:
  "take_exception compiled0 0x100E 14 6 running0 = ISRHandler (frame_for 14 6 running0) kernel0 \<and>
   take_exception compiled0 0x1000 0 6 running0 = ISRHandler (frame_for 0 0 running0) kernel0"
proof -
  have room: "stack_room compiled0 running0" using running0_room [of kernel0] by (simp add: running0_def)
  show ?thesis
    using take_exception_frame [OF room, of 14 "0x100E" 6] take_exception_frame [OF room, of 0 "0x1000" 6]
    by (simp add: pushes_error_code_def running0_def frame_for_def)
qed

end
