(* ===== verification/Limine_Requests.thy ===== *)
theory Limine_Requests
  imports Prelude
begin

text \<open>
  The request objects of \<^verbatim>\<open>boot/limine.cpp\<close>, with the identifiers of \<^verbatim>\<open>limine/limine.h\<close>: data only, transcribed. The boot loader
  finds them by their identifiers and writes a pointer to its answer into each; that search is not code of the repository and is not modelled. The
  answers are what the other components take as parameters.
\<close>

section \<open>Data\<close>

text \<open>What all request structures begin with, and the words that follow in some of them.\<close>

record limine_request =
  req_id :: "u64 list"
  req_revision :: u64
  req_response :: u64
  req_rest :: "u64 list"

definition LIMINE_COMMON_MAGIC :: "u64 list" where
  "LIMINE_COMMON_MAGIC = [0xC7B1DD30DF4C8B88, 0x0A82E883A194F07B]"

definition LIMINE_BASE_REVISION :: "u64 \<Rightarrow> u64 list" where
  "LIMINE_BASE_REVISION n = [0xF9562B2D5C95A6C8, 0x6A7B384944536BDC, n]"

section \<open>Code\<close>

definition limine_base_revision :: "u64 list" where
  "limine_base_revision = LIMINE_BASE_REVISION 6"

definition framebuffer_request :: limine_request where
  "framebuffer_request = \<lparr>req_id = LIMINE_COMMON_MAGIC @ [0x9D5827DCD881DD75, 0xA3148604F6FAB11B],
     req_revision = 0, req_response = 0, req_rest = []\<rparr>"

text \<open>The stack of 128 KiB.\<close>

definition stack_size_request :: limine_request where
  "stack_size_request = \<lparr>req_id = LIMINE_COMMON_MAGIC @ [0x224EF0460A8E8926, 0xE1CB0FC25F46EA3D],
     req_revision = 0, req_response = 0, req_rest = [0x20000]\<rparr>"

text \<open>The flags of this one are zero.\<close>

definition mp_request :: limine_request where
  "mp_request = \<lparr>req_id = LIMINE_COMMON_MAGIC @ [0x95A67B819A1B857E, 0xA0B61B723B6A73E0],
     req_revision = 0, req_response = 0, req_rest = [0]\<rparr>"

definition hhdm_request :: limine_request where
  "hhdm_request = \<lparr>req_id = LIMINE_COMMON_MAGIC @ [0x48DCF1CB8AD2B852, 0x63984E959A98244B],
     req_revision = 0, req_response = 0, req_rest = []\<rparr>"

definition rsdp_request :: limine_request where
  "rsdp_request = \<lparr>req_id = LIMINE_COMMON_MAGIC @ [0xC5E77B6B397E7B43, 0x27637845ACCDCF3C],
     req_revision = 0, req_response = 0, req_rest = []\<rparr>"

definition memmap_request :: limine_request where
  "memmap_request = \<lparr>req_id = LIMINE_COMMON_MAGIC @ [0x67CF3D9D378A806F, 0xE304ACDFC50C3C62],
     req_revision = 0, req_response = 0, req_rest = []\<rparr>"

text \<open>No internal modules.\<close>

definition module_request :: limine_request where
  "module_request = \<lparr>req_id = LIMINE_COMMON_MAGIC @ [0x3E7E279702BE32AF, 0xCA1C4F3BD1280CEE],
     req_revision = 0, req_response = 0, req_rest = [0, 0]\<rparr>"

definition limine_requests :: "limine_request list" where
  "limine_requests =
     [framebuffer_request, stack_size_request, mp_request, hhdm_request, rsdp_request, memmap_request, module_request]"

section \<open>The identifiers\<close>

text \<open>No two requests have the same identifier, and none has the base revision's first word.\<close>

lemma distinct_ids: "distinct (map req_id limine_requests)"
  by (simp add: limine_requests_def framebuffer_request_def stack_size_request_def mp_request_def hhdm_request_def
      rsdp_request_def memmap_request_def module_request_def LIMINE_COMMON_MAGIC_def)

lemma ids_not_base_revision: "r \<in> set limine_requests \<Longrightarrow> hd (req_id r) \<noteq> hd limine_base_revision"
  by (auto simp: limine_requests_def framebuffer_request_def stack_size_request_def mp_request_def hhdm_request_def
      rsdp_request_def memmap_request_def module_request_def LIMINE_COMMON_MAGIC_def limine_base_revision_def LIMINE_BASE_REVISION_def)

end
