(* ===== verification/Smp.thy ===== *)
theory Smp
  imports Boot Console_Log
begin

text \<open>
  The start of the application processors: \<^verbatim>\<open>Arch::LateInit\<close> on the boot processor and
  \<^verbatim>\<open>APEntry\<close> on the others (\<^verbatim>\<open>arch/x86_64/init.cpp\<close>). First both as sequential code; then a step
  relation in which the boot processor, call by call of LateInit, and any number of application processors interleave over the shared processor
  list, flag, core contexts and console.
\<close>

section \<open>The boot loader's processor list\<close>

record limine_mp_info =
  processor_id :: u32
  lapic_id :: u32
  goto_address :: u64

record limine_mp_response =
  bsp_lapic_id :: u32
  cpu_count :: u64
  cpus :: "limine_mp_info list"

section \<open>LateInit\<close>

text \<open>One turn of the loop: every processor but the boot processor gets the entry address.\<close>

definition wake_cpu :: "u64 \<Rightarrow> nat \<Rightarrow> limine_mp_response \<Rightarrow> limine_mp_response res" where
  "wake_cpu entry_at i r =
     (if length (cpus r) \<le> i then Inl (OutOfBounds ''cpus'')
      else let c = cpus r ! i
           in if lapic_id c = bsp_lapic_id r then Inr r
              else Inr (r\<lparr>cpus := (cpus r)[i := c\<lparr>goto_address := entry_at\<rparr>]\<rparr>))"

definition wake_all :: "u64 \<Rightarrow> limine_mp_response \<Rightarrow> limine_mp_response res" where
  "wake_all entry_at r = for_each (wake_cpu entry_at) [0..<unat (cpu_count r)] r"

record late =
  lt_console :: console
  lt_cpu :: cpu
  mp_response :: "limine_mp_response option"
  APsSafeToRun :: bl

definition LateInit :: "u64 \<Rightarrow> late \<Rightarrow> late res" where
  "LateInit APEntry_at s =
     and_then (Log (cstr ''Starting APs at address %x!'') [VWord APEntry_at] (lt_console s)) (\<lambda>c.
     let s = s\<lparr>lt_console := c, lt_cpu := sti (lt_cpu s)\<rparr>
     in and_then (case mp_response s of None \<Rightarrow> Inr s
                  | Some r \<Rightarrow> and_then (wake_all APEntry_at r) (\<lambda>r. Inr (s\<lparr>mp_response := Some r\<rparr>))) (\<lambda>s.
        and_then (PrintString (cstr ''C[c,3]'') [] (lt_console s)) (\<lambda>c.
        and_then (PrintString (cstr ''C[r,]'') [] c) (\<lambda>c.
        let s = s\<lparr>APsSafeToRun := ktrue\<rparr>
        in and_then (OK (cstr ''Welcome to GooseOS on x86_64'') [] c) (\<lambda>c.
           and_then (Log (cstr ''Finished Arch::LateInit!'') [] c) (\<lambda>c.
             Inr (s\<lparr>lt_console := c\<rparr>)))))))"

section \<open>APEntry\<close>

text \<open>
  Up to the wait: the core context, the descriptor tables, the local APIC. The processor that runs is the one in
  \<open>bt_machine\<close>; the contexts and both tables are shared. Every processor writes the same values into the
  descriptor tables.
\<close>

definition ap_start :: "limine_mp_info \<Rightarrow> boot \<Rightarrow> boot res" where
  "ap_start info b =
     and_then (set_context (processor_id info) (lapic_id info) (CoreContextes b)) (\<lambda>cs.
     let c = LoadCoreContext (context_address (contexts_at b) (processor_id info)) (mc_cpu (bt_machine b))
     in and_then (InitGDT (bt_gdt b) c) (\<lambda>(g, c).
        let (d, c) = LoadIDT (bt_idt b) c
        in and_then (InitLAPIC c) (\<lambda>c.
           Inr (b\<lparr>CoreContextes := cs, bt_gdt := g, bt_idt := d, bt_machine := (bt_machine b)\<lparr>mc_cpu := c\<rparr>\<rparr>))))"

text \<open>The test of \<^verbatim>\<open>WaitUntilGPReady\<close>: the wait is over when the flag is set.\<close>

definition GPReady :: "bl \<Rightarrow> bool" where
  "GPReady APsSafe = truthy APsSafe"

section \<open>Interleaving\<close>

text \<open>
  Where the boot processor is in LateInit: the first message, the loop, the two calls that clear the screen and reset the colours, the flag, the
  last two messages; or stopped in a call that does not return.
\<close>

datatype bsp_phase = Announcing | Waking | Clearing | Resetting | Publishing | Welcoming | Finishing | Done | BspStopped stop

text \<open>
  The console call of a phase. The strings of two of them end in a styling tag, behind which the code reads on past the string
  (see \<open>PrintString_clear_tag\<close>): what such a call does is the parameter \<open>tagged\<close>.
\<close>

fun bsp_call :: "(u8 list \<Rightarrow> console \<Rightarrow> console res) \<Rightarrow> u64 \<Rightarrow> bsp_phase \<Rightarrow> (console \<Rightarrow> console res) option" where
  "bsp_call tagged entry_at Announcing = Some (Log (cstr ''Starting APs at address %x!'') [VWord entry_at])"
| "bsp_call tagged entry_at Clearing = Some (tagged (cstr ''C[c,3]''))"
| "bsp_call tagged entry_at Resetting = Some (tagged (cstr ''C[r,]''))"
| "bsp_call tagged entry_at Welcoming = Some (OK (cstr ''Welcome to GooseOS on x86_64'') [])"
| "bsp_call tagged entry_at Finishing = Some (Log (cstr ''Finished Arch::LateInit!'') [])"
| "bsp_call tagged entry_at _ = None"

fun bsp_after :: "bsp_phase \<Rightarrow> bsp_phase" where
  "bsp_after Announcing = Waking"
| "bsp_after Clearing = Resetting"
| "bsp_after Resetting = Publishing"
| "bsp_after Welcoming = Finishing"
| "bsp_after Finishing = Done"
| "bsp_after p = p"

text \<open>
  An application processor: parked in the boot loader until its entry address is not null; waiting, before its first look at the flag and
  spinning after one that found it clear; greeting with interrupts on, first outside the console's lock, then inside; halted at last; or stopped by an error.
\<close>

datatype ap_phase = Parked | Waiting | Spinning | Greeting | Printing | Greeted | Halted | Stopped stop

record smp =
  sm_mp :: limine_mp_response
  sm_next :: nat
  sm_safe :: bl
  sm_shared :: boot
  sm_console :: console
  bsp_at :: bsp_phase
  bsp_locked :: bool
  bsp_cpu :: cpu
  ap_phase :: "nat \<Rightarrow> ap_phase"
  ap_cpu :: "nat \<Rightarrow> cpu"

definition run_on :: "cpu \<Rightarrow> boot \<Rightarrow> boot" where
  "run_on c b = b\<lparr>bt_machine := (bt_machine b)\<lparr>mc_cpu := c\<rparr>\<rparr>"

definition unlocked :: "smp \<Rightarrow> console" where
  "unlocked s = (sm_console s)\<lparr>ConsoleLock := 0\<rparr>"

definition greet :: "limine_mp_info \<Rightarrow> console \<Rightarrow> console res" where
  "greet info = Log (cstr ''Hi from AP %u!'') [VWord (ucast (processor_id info))]"

text \<open>
  A console call is two steps: taking the lock, which waits until it is free, and the rest of the call, which starts from the state with the lock taken and
  ends with its release. A call that does not return leaves the lock taken. The flag is a plain variable: the compiler may
  keep its value in a register, so whether the turns of the wait after the first one load it again is the parameter \<open>reload\<close>.
\<close>

inductive smp_step :: "(u8 list \<Rightarrow> console \<Rightarrow> console res) \<Rightarrow> bool \<Rightarrow> u64 \<Rightarrow> smp \<Rightarrow> smp \<Rightarrow> bool" for tagged reload entry_at where
  bsp_calls: "bsp_call tagged entry_at (bsp_at s) = Some f \<Longrightarrow> \<not> bsp_locked s \<Longrightarrow> ConsoleLock (sm_console s) = 0 \<Longrightarrow>
    smp_step tagged reload entry_at s (s\<lparr>sm_console := (sm_console s)\<lparr>ConsoleLock := 1\<rparr>, bsp_locked := True\<rparr>)"
| bsp_prints: "bsp_call tagged entry_at (bsp_at s) = Some f \<Longrightarrow> bsp_locked s \<Longrightarrow> f (unlocked s) = Inr c \<Longrightarrow>
    smp_step tagged reload entry_at s (s\<lparr>sm_console := c, bsp_at := bsp_after (bsp_at s), bsp_locked := False,
      bsp_cpu := (if bsp_at s = Announcing then sti (bsp_cpu s) else bsp_cpu s)\<rparr>)"
| bsp_fails: "bsp_call tagged entry_at (bsp_at s) = Some f \<Longrightarrow> bsp_locked s \<Longrightarrow> f (unlocked s) = Inl x \<Longrightarrow>
    smp_step tagged reload entry_at s (s\<lparr>bsp_at := BspStopped x\<rparr>)"
| bsp_wakes: "bsp_at s = Waking \<Longrightarrow> sm_next s < unat (cpu_count (sm_mp s)) \<Longrightarrow> wake_cpu entry_at (sm_next s) (sm_mp s) = Inr r \<Longrightarrow>
    smp_step tagged reload entry_at s (s\<lparr>sm_mp := r, sm_next := Suc (sm_next s)\<rparr>)"
| bsp_lost: "bsp_at s = Waking \<Longrightarrow> sm_next s < unat (cpu_count (sm_mp s)) \<Longrightarrow> wake_cpu entry_at (sm_next s) (sm_mp s) = Inl x \<Longrightarrow>
    smp_step tagged reload entry_at s (s\<lparr>bsp_at := BspStopped x\<rparr>)"
| bsp_woke_all: "bsp_at s = Waking \<Longrightarrow> sm_next s = unat (cpu_count (sm_mp s)) \<Longrightarrow>
    smp_step tagged reload entry_at s (s\<lparr>bsp_at := Clearing\<rparr>)"
| bsp_publishes: "bsp_at s = Publishing \<Longrightarrow>
    smp_step tagged reload entry_at s (s\<lparr>sm_safe := ktrue, bsp_at := Welcoming\<rparr>)"
| ap_enters: "i < length (cpus (sm_mp s)) \<Longrightarrow> ap_phase s i = Parked \<Longrightarrow> goto_address (cpus (sm_mp s) ! i) \<noteq> 0 \<Longrightarrow>
    ap_start (cpus (sm_mp s) ! i) (run_on (ap_cpu s i) (sm_shared s)) = Inr b \<Longrightarrow>
    smp_step tagged reload entry_at s
      (s\<lparr>sm_shared := b, ap_phase := (ap_phase s)(i := Waiting), ap_cpu := (ap_cpu s)(i := mc_cpu (bt_machine b))\<rparr>)"
| ap_stops: "i < length (cpus (sm_mp s)) \<Longrightarrow> ap_phase s i = Parked \<Longrightarrow> goto_address (cpus (sm_mp s) ! i) \<noteq> 0 \<Longrightarrow>
    ap_start (cpus (sm_mp s) ! i) (run_on (ap_cpu s i) (sm_shared s)) = Inl x \<Longrightarrow>
    smp_step tagged reload entry_at s (s\<lparr>ap_phase := (ap_phase s)(i := Stopped x)\<rparr>)"
| ap_looks: "ap_phase s i = Waiting \<Longrightarrow> \<not> GPReady (sm_safe s) \<Longrightarrow>
    smp_step tagged reload entry_at s (s\<lparr>ap_phase := (ap_phase s)(i := Spinning)\<rparr>)"
| ap_goes: "ap_phase s i = Waiting \<or> ap_phase s i = Spinning \<and> reload \<Longrightarrow> GPReady (sm_safe s) \<Longrightarrow>
    smp_step tagged reload entry_at s (s\<lparr>ap_phase := (ap_phase s)(i := Greeting), ap_cpu := (ap_cpu s)(i := sti (ap_cpu s i))\<rparr>)"
| ap_calls: "ap_phase s i = Greeting \<Longrightarrow> ConsoleLock (sm_console s) = 0 \<Longrightarrow>
    smp_step tagged reload entry_at s (s\<lparr>sm_console := (sm_console s)\<lparr>ConsoleLock := 1\<rparr>, ap_phase := (ap_phase s)(i := Printing)\<rparr>)"
| ap_prints: "ap_phase s i = Printing \<Longrightarrow> greet (cpus (sm_mp s) ! i) (unlocked s) = Inr c \<Longrightarrow>
    smp_step tagged reload entry_at s (s\<lparr>sm_console := c, ap_phase := (ap_phase s)(i := Greeted)\<rparr>)"
| ap_fails: "ap_phase s i = Printing \<Longrightarrow> greet (cpus (sm_mp s) ! i) (unlocked s) = Inl x \<Longrightarrow>
    smp_step tagged reload entry_at s (s\<lparr>ap_phase := (ap_phase s)(i := Stopped x)\<rparr>)"
| ap_halts: "ap_phase s i = Greeted \<Longrightarrow>
    smp_step tagged reload entry_at s (s\<lparr>ap_phase := (ap_phase s)(i := Halted), ap_cpu := (ap_cpu s)(i := cli (ap_cpu s i))\<rparr>)"

inductive_cases smp_stepE: "smp_step tagged reload entry_at s t"

section \<open>The woken processors\<close>

definition woken :: "u64 \<Rightarrow> nat \<Rightarrow> limine_mp_response \<Rightarrow> limine_mp_response" where
  "woken entry_at k r = r\<lparr>cpus := map (\<lambda>(i, c). if i < k \<and> lapic_id c \<noteq> bsp_lapic_id r then c\<lparr>goto_address := entry_at\<rparr> else c)
     (enumerate 0 (cpus r))\<rparr>"

lemma woken_simps [simp]:
  "length (cpus (woken e k r)) = length (cpus r)" "bsp_lapic_id (woken e k r) = bsp_lapic_id r"
  "cpu_count (woken e k r) = cpu_count r"
  by (simp_all add: woken_def)

lemma woken_nth:
  "i < length (cpus r) \<Longrightarrow> cpus (woken e k r) ! i =
    (if i < k \<and> lapic_id (cpus r ! i) \<noteq> bsp_lapic_id r then (cpus r ! i)\<lparr>goto_address := e\<rparr> else cpus r ! i)"
  by (simp add: woken_def nth_enumerate_eq)

lemma woken_cpus: "r\<lparr>cpus := cpus (woken e k r)\<rparr> = woken e k r"
  by (simp add: woken_def)

lemma woken_0 [simp]: "woken e 0 r = r"
proof -
  have "cpus (woken e 0 r) = cpus r" by (rule nth_equalityI) (simp_all add: woken_nth)
  then show ?thesis using woken_cpus [of e 0 r] by simp
qed

lemma wake_cpu_woken:
  assumes "k < length (cpus r)"
  shows "wake_cpu e k (woken e k r) = Inr (woken e (Suc k) r)"
proof -
  let ?w = "woken e k r" and ?v = "woken e (Suc k) r"
  have c: "cpus ?w ! k = cpus r ! k" using assms by (simp add: woken_nth)
  have eq: "cpus ?v = (if lapic_id (cpus r ! k) = bsp_lapic_id r then cpus ?w
      else (cpus ?w)[k := (cpus r ! k)\<lparr>goto_address := e\<rparr>])"
    by (rule nth_equalityI) (use assms in \<open>auto simp: woken_nth nth_list_update less_Suc_eq\<close>)
  have v: "?w\<lparr>cpus := cpus ?v\<rparr> = ?v" by (simp add: woken_def)
  have "wake_cpu e k ?w = Inr (?w\<lparr>cpus := cpus ?v\<rparr>)" using assms c eq by (simp add: wake_cpu_def Let_def)
  then show ?thesis by (simp only: v)
qed

lemma wake_loop: "k \<le> length (cpus r) \<Longrightarrow> for_each (wake_cpu e) [0..<k] r = Inr (woken e k r)"
  by (induction k) (simp_all add: for_each_append wake_cpu_woken)

lemma wake_all_result: "unat (cpu_count r) \<le> length (cpus r) \<Longrightarrow> wake_all e r = Inr (woken e (unat (cpu_count r)) r)"
  by (simp add: wake_all_def wake_loop)

section \<open>The start of one application processor\<close>

lemma ap_start_result:
  assumes "unat (processor_id info) < length (CoreContextes b)" and "length (GDTTable (bt_gdt b)) = 3"
    and "bit (cpuid1_ecx (mc_cpu (bt_machine b))) 21"
  shows "\<exists>b'. ap_start info b = Inr b' \<and> length (GDTTable (bt_gdt b')) = 3 \<and>
    CoreContextes b' = (CoreContextes b)[unat (processor_id info) := \<lparr>CoreID = processor_id info, LapicID = lapic_id info\<rparr>] \<and>
    interrupts_on (mc_cpu (bt_machine b')) = interrupts_on (mc_cpu (bt_machine b))"
proof -
  let ?c = "LoadCoreContext (context_address (contexts_at b) (processor_id info)) (mc_cpu (bt_machine b))"
  obtain g where g: "InitGDT (bt_gdt b) ?c = Inr (g, LoadGDT g ?c)" "length (GDTTable g) = 3"
    using InitGDT_result [OF assms(2), of ?c] by auto
  let ?d = "LoadIDT (bt_idt b) (LoadGDT g ?c)"
  have keep: "cpuid1_ecx (snd ?d) = cpuid1_ecx (mc_cpu (bt_machine b))"
    "interrupts_on (snd ?d) = interrupts_on (mc_cpu (bt_machine b))"
    by (simp_all add: LoadIDT_def LoadGDT_def LoadCoreContext_def Let_def)
  obtain c where "InitLAPIC (snd ?d) = Inr c" "interrupts_on c = interrupts_on (snd ?d)"
    using assms(3) keep(1) by (simp add: InitLAPIC_enables_x2APIC)
  then show ?thesis using assms(1) g keep(2) by (simp add: ap_start_def set_context_def Let_def case_prod_unfold)
qed

section \<open>Reachable states\<close>

text \<open>
  A start the boot loader may hand over: its list is as long as it says, nobody has an entry address yet, the processor
  numbers are distinct and fit the context array, and every processor has an x2APIC and interrupts off.
\<close>

definition smp_ready :: "limine_mp_response \<Rightarrow> boot \<Rightarrow> (nat \<Rightarrow> cpu) \<Rightarrow> bool" where
  "smp_ready mp b cp \<longleftrightarrow>
     unat (cpu_count mp) = length (cpus mp) \<and> distinct (map processor_id (cpus mp)) \<and>
     (\<forall>c \<in> set (cpus mp). goto_address c = 0 \<and> unat (processor_id c) < length (CoreContextes b)) \<and>
     length (GDTTable (bt_gdt b)) = 3 \<and> (\<forall>i. \<not> interrupts_on (cp i) \<and> bit (cpuid1_ecx (cp i)) 21)"

definition smp_start :: "limine_mp_response \<Rightarrow> boot \<Rightarrow> (nat \<Rightarrow> cpu) \<Rightarrow> cpu \<Rightarrow> console \<Rightarrow> smp" where
  "smp_start mp b cp bc con = \<lparr>sm_mp = mp, sm_next = 0, sm_safe = kfalse, sm_shared = b, sm_console = con, bsp_at = Announcing,
     bsp_locked = False, bsp_cpu = bc, ap_phase = (\<lambda>_. Parked), ap_cpu = cp\<rparr>"

definition is_ap :: "limine_mp_response \<Rightarrow> nat \<Rightarrow> bool" where
  "is_ap mp i \<longleftrightarrow> i < length (cpus mp) \<and> lapic_id (cpus mp ! i) \<noteq> bsp_lapic_id mp"

definition own_context :: "limine_mp_info \<Rightarrow> boot \<Rightarrow> bool" where
  "own_context c b \<longleftrightarrow> CoreContextes b ! unat (processor_id c) = \<lparr>CoreID = processor_id c, LapicID = lapic_id c\<rparr>"

definition boot_part_inv :: "u64 \<Rightarrow> limine_mp_response \<Rightarrow> smp \<Rightarrow> bool" where
  "boot_part_inv e mp s \<longleftrightarrow> sm_mp s = woken e (sm_next s) mp \<and> sm_next s \<le> length (cpus mp) \<and>
     (GPReady (sm_safe s) \<or> bsp_at s \<in> {Clearing, Resetting, Publishing} \<longrightarrow> sm_next s = length (cpus mp)) \<and>
     (bsp_at s \<in> {Welcoming, Finishing, Done} \<longrightarrow> GPReady (sm_safe s))"

text \<open>What holds of each processor in its phase.\<close>

definition started :: "limine_mp_response \<Rightarrow> smp \<Rightarrow> nat \<Rightarrow> bool" where
  "started mp s i \<longleftrightarrow> is_ap mp i \<and> i < sm_next s \<and> own_context (cpus mp ! i) (sm_shared s)"

definition ap_inv :: "limine_mp_response \<Rightarrow> smp \<Rightarrow> nat \<Rightarrow> bool" where
  "ap_inv mp s i \<longleftrightarrow>
     (case ap_phase s i of
        Parked \<Rightarrow> \<not> interrupts_on (ap_cpu s i) \<and> bit (cpuid1_ecx (ap_cpu s i)) 21
      | Waiting \<Rightarrow> started mp s i \<and> \<not> interrupts_on (ap_cpu s i)
      | Spinning \<Rightarrow> started mp s i \<and> \<not> interrupts_on (ap_cpu s i)
      | Halted \<Rightarrow> started mp s i \<and> GPReady (sm_safe s) \<and> \<not> interrupts_on (ap_cpu s i)
      | _ \<Rightarrow> started mp s i \<and> GPReady (sm_safe s))"

definition smp_inv :: "u64 \<Rightarrow> limine_mp_response \<Rightarrow> nat \<Rightarrow> smp \<Rightarrow> bool" where
  "smp_inv e mp n s \<longleftrightarrow> boot_part_inv e mp s \<and> (\<forall>i. ap_inv mp s i) \<and>
     length (CoreContextes (sm_shared s)) = n \<and> length (GDTTable (bt_gdt (sm_shared s))) = 3"

lemma smp_inv_start: "smp_ready mp b cp \<Longrightarrow> smp_inv e mp (length (CoreContextes b)) (smp_start mp b cp bc con)"
  by (simp add: smp_inv_def boot_part_inv_def ap_inv_def smp_start_def smp_ready_def GPReady_def)

text \<open>What a processor relies on stays true under the steps of the others.\<close>

lemma ap_inv_frame:
  assumes "ap_inv mp s i" and "ap_phase t i = ap_phase s i" "ap_cpu t i = ap_cpu s i"
    and "sm_next s \<le> sm_next t" and "GPReady (sm_safe s) \<Longrightarrow> GPReady (sm_safe t)"
    and "is_ap mp i \<Longrightarrow> own_context (cpus mp ! i) (sm_shared s) \<Longrightarrow> own_context (cpus mp ! i) (sm_shared t)"
  shows "ap_inv mp t i"
  using assms by (auto simp: ap_inv_def started_def split: ap_phase.splits)

lemma run_on_simps [simp]:
  "CoreContextes (run_on c b) = CoreContextes b" "bt_gdt (run_on c b) = bt_gdt b" "mc_cpu (bt_machine (run_on c b)) = c"
  by (simp_all add: run_on_def)

lemma woken_ids: "i < length (cpus r) \<Longrightarrow> processor_id (cpus (woken e k r) ! i) = processor_id (cpus r ! i)"
  "i < length (cpus r) \<Longrightarrow> lapic_id (cpus (woken e k r) ! i) = lapic_id (cpus r ! i)"
  by (simp_all add: woken_nth)

text \<open>A parked processor with an entry address is an application processor that the loop has passed.\<close>

lemma goto_is_ap:
  assumes "smp_ready mp b cp" and "i < length (cpus mp)" and "goto_address (cpus (woken e k mp) ! i) \<noteq> 0"
  shows "is_ap mp i \<and> i < k"
  using assms by (auto simp: smp_ready_def woken_nth is_ap_def split: if_splits)

lemma own_context_other:
  assumes "smp_ready mp b cp" and "i < length (cpus mp)" and "j < length (cpus mp)" and "i \<noteq> j"
    and "CoreContextes b' = (CoreContextes b0)[unat (processor_id (cpus mp ! i)) := v]"
  shows "own_context (cpus mp ! j) b' = own_context (cpus mp ! j) b0"
proof -
  have "processor_id (cpus mp ! i) \<noteq> processor_id (cpus mp ! j)"
    using assms(1-4) nth_eq_iff_index_eq [of "map processor_id (cpus mp)" i j] by (simp add: smp_ready_def)
  then have "unat (processor_id (cpus mp ! i)) \<noteq> unat (processor_id (cpus mp ! j))" using word_eq_unatI by blast
  then show ?thesis using assms(5) by (simp add: own_context_def)
qed

lemma ap_enters_result:
  assumes "smp_ready mp b cp" and "smp_inv e mp (length (CoreContextes b)) s" and "i < length (cpus (sm_mp s))" and "ap_phase s i = Parked"
  shows "\<exists>b'. ap_start (cpus (sm_mp s) ! i) (run_on (ap_cpu s i) (sm_shared s)) = Inr b' \<and> length (GDTTable (bt_gdt b')) = 3 \<and>
    CoreContextes b' = (CoreContextes (sm_shared s))[unat (processor_id (cpus mp ! i)) :=
      \<lparr>CoreID = processor_id (cpus mp ! i), LapicID = lapic_id (cpus mp ! i)\<rparr>] \<and> \<not> interrupts_on (mc_cpu (bt_machine b'))"
proof -
  let ?c = "cpus (sm_mp s) ! i" and ?b = "run_on (ap_cpu s i) (sm_shared s)"
  have i: "i < length (cpus mp)" "sm_mp s = woken e (sm_next s) mp" using assms(2,3) by (auto simp: smp_inv_def boot_part_inv_def)
  have id: "processor_id ?c = processor_id (cpus mp ! i)" "lapic_id ?c = lapic_id (cpus mp ! i)" using i by (simp_all add: woken_ids)
  have p: "ap_inv mp s i" using assms(2) by (simp add: smp_inv_def)
  have "cpus mp ! i \<in> set (cpus mp)" using i(1) by simp
  then have "unat (processor_id ?c) < length (CoreContextes ?b)" using assms(1,2) id by (simp add: smp_ready_def smp_inv_def)
  moreover have "length (GDTTable (bt_gdt ?b)) = 3" using assms(2) by (simp add: smp_inv_def)
  moreover have "bit (cpuid1_ecx (mc_cpu (bt_machine ?b))) 21" "\<not> interrupts_on (mc_cpu (bt_machine ?b))"
    using p assms(4) by (simp_all add: ap_inv_def)
  ultimately show ?thesis using ap_start_result [of ?c ?b] by (auto simp: id)
qed

lemma smp_inv_phase:
  assumes inv: "smp_inv e mp n s" and "started mp s i" and "ap_phase s i \<noteq> Parked"
    and t: "sm_mp t = sm_mp s" "sm_next t = sm_next s" "sm_safe t = sm_safe s" "sm_shared t = sm_shared s" "bsp_at t = bsp_at s"
      "ap_phase t = (ap_phase s)(i := p)" "\<And>j. j \<noteq> i \<Longrightarrow> ap_cpu t j = ap_cpu s j"
    and p: "p \<notin> {Parked, Waiting, Spinning} \<Longrightarrow> GPReady (sm_safe s)" "p \<noteq> Parked" "p \<in> {Waiting, Spinning, Halted} \<Longrightarrow> \<not> interrupts_on (ap_cpu t i)"
  shows "smp_inv e mp n t"
proof -
  have "ap_inv mp t j" for j
  proof (cases "j = i")
    case True
    then show ?thesis using assms(2) t p by (cases p) (simp_all add: ap_inv_def started_def)
  next
    case False
    then show ?thesis using inv t by (intro ap_inv_frame [of mp s j t]) (simp_all add: smp_inv_def)
  qed
  then show ?thesis using inv t by (simp add: smp_inv_def boot_part_inv_def)
qed

lemma smp_inv_bsp:
  assumes inv: "smp_inv e mp n s" and "ap_phase t = ap_phase s" "ap_cpu t = ap_cpu s" "sm_shared t = sm_shared s"
    "sm_next s \<le> sm_next t" "GPReady (sm_safe s) \<Longrightarrow> GPReady (sm_safe t)" and "boot_part_inv e mp t"
  shows "smp_inv e mp n t"
proof -
  have "ap_inv mp t j" for j using assms by (intro ap_inv_frame [of mp s j t]) (simp_all add: smp_inv_def)
  then show ?thesis using assms by (simp add: smp_inv_def)
qed

lemma smp_inv_enters:
  assumes r: "smp_ready mp b cp" and inv: "smp_inv e mp (length (CoreContextes b)) s"
    and i: "i < length (cpus (sm_mp s))" "ap_phase s i = Parked" "goto_address (cpus (sm_mp s) ! i) \<noteq> 0"
    and st: "ap_start (cpus (sm_mp s) ! i) (run_on (ap_cpu s i) (sm_shared s)) = Inr b'"
  shows "smp_inv e mp (length (CoreContextes b))
    (s\<lparr>sm_shared := b', ap_phase := (ap_phase s)(i := Waiting), ap_cpu := (ap_cpu s)(i := mc_cpu (bt_machine b'))\<rparr>)"
proof -
  let ?t = "s\<lparr>sm_shared := b', ap_phase := (ap_phase s)(i := Waiting), ap_cpu := (ap_cpu s)(i := mc_cpu (bt_machine b'))\<rparr>"
  have b': "length (GDTTable (bt_gdt b')) = 3" "\<not> interrupts_on (mc_cpu (bt_machine b'))"
    and cs: "CoreContextes b' = (CoreContextes (sm_shared s))[unat (processor_id (cpus mp ! i)) :=
        \<lparr>CoreID = processor_id (cpus mp ! i), LapicID = lapic_id (cpus mp ! i)\<rparr>]"
    using ap_enters_result [OF r inv i(1,2)] st by auto
  have mp: "sm_mp s = woken e (sm_next s) mp" using inv by (simp add: smp_inv_def boot_part_inv_def)
  have il: "i < length (cpus mp)" using i(1) mp by simp
  have ap: "is_ap mp i" "i < sm_next s" using goto_is_ap [OF r il] i(3) mp by auto
  have "unat (processor_id (cpus mp ! i)) < length (CoreContextes (sm_shared s))"
    using r inv il by (auto simp: smp_ready_def smp_inv_def)
  then have own: "own_context (cpus mp ! i) b'" by (simp add: own_context_def cs)
  have "ap_inv mp ?t j" for j
  proof (cases "j = i")
    case True
    then show ?thesis using ap own b' by (simp add: ap_inv_def started_def)
  next
    case False
    then have "own_context (cpus mp ! j) b' = own_context (cpus mp ! j) (sm_shared s)" if "is_ap mp j"
      using own_context_other [OF r il _ _ cs] that by (simp add: is_ap_def)
    then show ?thesis using inv False by (intro ap_inv_frame [of mp s j ?t]) (simp_all add: smp_inv_def)
  qed
  then show ?thesis using inv b' cs by (simp add: smp_inv_def boot_part_inv_def)
qed

lemma ap_inv_started: "ap_inv mp s i \<Longrightarrow> ap_phase s i \<noteq> Parked \<Longrightarrow> started mp s i"
  by (cases "ap_phase s i") (simp_all add: ap_inv_def)

lemma smp_inv_step:
  assumes r: "smp_ready mp b cp" and "smp_step tg rl e s t" and inv: "smp_inv e mp (length (CoreContextes b)) s"
  shows "smp_inv e mp (length (CoreContextes b)) t"
proof -
  have bp: "boot_part_inv e mp s" and p: "\<And>i. ap_inv mp s i" using inv by (simp_all add: smp_inv_def)
  have len: "unat (cpu_count mp) = length (cpus mp)" using r by (simp add: smp_ready_def)
  have mp: "sm_mp s = woken e (sm_next s) mp" using bp by (simp add: boot_part_inv_def)
  then have cnt: "cpu_count (sm_mp s) = cpu_count mp" by (metis woken_simps(3))
  show ?thesis
    using assms(2)
  proof (cases rule: smp_step.cases)
    case (bsp_calls f)
    show ?thesis unfolding bsp_calls(1) by (rule smp_inv_bsp [OF inv]) (use bp in \<open>simp_all add: boot_part_inv_def\<close>)
  next
    case (bsp_prints f c)
    have "boot_part_inv e mp t" using bp bsp_prints(1,2) by (cases "bsp_at s") (auto simp: boot_part_inv_def)
    then show ?thesis by (rule smp_inv_bsp [OF inv, rotated -1]) (simp_all add: bsp_prints(1))
  next
    case (bsp_fails f x)
    show ?thesis unfolding bsp_fails(1) by (rule smp_inv_bsp [OF inv]) (use bp in \<open>simp_all add: boot_part_inv_def\<close>)
  next
    case (bsp_wakes r')
    then have "r' = woken e (Suc (sm_next s)) mp" "sm_next s < length (cpus mp)"
      using len cnt mp wake_cpu_woken [of "sm_next s" mp e] by simp_all
    then show ?thesis unfolding bsp_wakes(1)
      by (intro smp_inv_bsp [OF inv]) (use bp bsp_wakes(2) in \<open>auto simp: boot_part_inv_def\<close>)
  next
    case (bsp_lost x)
    show ?thesis unfolding bsp_lost(1) by (rule smp_inv_bsp [OF inv]) (use bp in \<open>simp_all add: boot_part_inv_def\<close>)
  next
    case bsp_woke_all
    then show ?thesis unfolding bsp_woke_all(1)
      by (intro smp_inv_bsp [OF inv]) (use bp cnt len in \<open>simp_all add: boot_part_inv_def\<close>)
  next
    case bsp_publishes
    then show ?thesis unfolding bsp_publishes(1)
      by (intro smp_inv_bsp [OF inv]) (use bp in \<open>auto simp: boot_part_inv_def GPReady_def\<close>)
  next
    case (ap_enters i b')
    show ?thesis unfolding ap_enters(1) by (rule smp_inv_enters [OF r inv ap_enters(2-5)])
  next
    case (ap_stops i x)
    then show ?thesis using ap_enters_result [OF r inv ap_stops(2,3)] by auto
  next
    case (ap_looks i)
    then show ?thesis using p [of i] ap_inv_started [OF p, of i]
      by (intro smp_inv_phase [OF inv, of i t Spinning]) (simp_all add: ap_inv_def)
  next
    case (ap_goes i)
    then show ?thesis using ap_inv_started [OF p, of i] by (intro smp_inv_phase [OF inv, of i t Greeting]) auto
  next
    case (ap_calls i)
    then show ?thesis using p [of i] ap_inv_started [OF p, of i]
      by (intro smp_inv_phase [OF inv, of i t Printing]) (simp_all add: ap_inv_def)
  next
    case (ap_prints i c)
    then show ?thesis using p [of i] ap_inv_started [OF p, of i]
      by (intro smp_inv_phase [OF inv, of i t Greeted]) (simp_all add: ap_inv_def)
  next
    case (ap_fails i x)
    then show ?thesis using p [of i] ap_inv_started [OF p, of i]
      by (intro smp_inv_phase [OF inv, of i t "Stopped x"]) (simp_all add: ap_inv_def)
  next
    case (ap_halts i)
    then show ?thesis using p [of i] ap_inv_started [OF p, of i]
      by (intro smp_inv_phase [OF inv, of i t Halted]) (simp_all add: ap_inv_def cli_def)
  qed
qed

lemma smp_inv_reachable:
  assumes "smp_ready mp b cp" and "(smp_step tg rl e)\<^sup>*\<^sup>* (smp_start mp b cp bc con) s"
  shows "smp_inv e mp (length (CoreContextes b)) s"
  using assms(2) by (induction rule: rtranclp_induct) (auto intro: smp_inv_start [OF assms(1)] smp_inv_step [OF assms(1)])

section \<open>Progress\<close>

fun rank :: "ap_phase \<Rightarrow> nat" where
  "rank Parked = 0"
| "rank Waiting = 1"
| "rank Spinning = 2"
| "rank Greeting = 3"
| "rank Printing = 4"
| "rank Greeted = 5"
| "rank Halted = 6"
| "rank (Stopped _) = 6"

fun bsp_rank :: "bsp_phase \<Rightarrow> nat" where
  "bsp_rank Announcing = 0"
| "bsp_rank Waking = 2"
| "bsp_rank Clearing = 3"
| "bsp_rank Resetting = 5"
| "bsp_rank Publishing = 7"
| "bsp_rank Welcoming = 8"
| "bsp_rank Finishing = 10"
| "bsp_rank Done = 12"
| "bsp_rank (BspStopped _) = 12"

definition progress :: "nat \<Rightarrow> smp \<Rightarrow> nat" where
  "progress n s = sm_next s + bsp_rank (bsp_at s) + (if bsp_locked s then 1 else 0) + (\<Sum>i<n. rank (ap_phase s i))"

lemma rank_le: "rank p \<le> 6" "bsp_rank q \<le> 12"
  by (cases p; simp) (cases q; simp)

lemma sum_update:
  fixes g :: "'a \<Rightarrow> nat" and n :: nat
  assumes "i < n"
  shows "(\<Sum>j<n. g ((f(i := p)) j)) + g (f i) = (\<Sum>j<n. g (f j)) + g p"
proof -
  have "(\<Sum>j\<in>{..<n} - {i}. g ((f(i := p)) j)) = (\<Sum>j\<in>{..<n} - {i}. g (f j))" by (rule sum.cong) auto
  then show ?thesis
    using assms sum.remove [of "{..<n}" i "\<lambda>j. g ((f(i := p)) j)"] sum.remove [of "{..<n}" i "\<lambda>j. g (f j)"] by simp
qed

lemma progress_phase:
  assumes "i < n" and "rank (ap_phase s i) < rank p"
    and "sm_next t = sm_next s" "bsp_at t = bsp_at s" "bsp_locked t = bsp_locked s" "ap_phase t = (ap_phase s)(i := p)"
  shows "progress n s < progress n t"
  using assms sum_update [OF assms(1), of rank "ap_phase s" p] by (simp add: progress_def)

lemma progress_step:
  assumes r: "smp_ready mp b cp" and inv: "smp_inv e mp (length (CoreContextes b)) s" and "smp_step tg rl e s t"
  shows "progress (length (cpus mp)) s < progress (length (cpus mp)) t"
proof -
  have p: "\<And>i. ap_inv mp s i" using inv by (simp add: smp_inv_def)
  have i: "i < length (cpus mp)" if "ap_phase s i \<noteq> Parked" for i
    using ap_inv_started [OF p that] by (simp add: started_def is_ap_def)
  show ?thesis
    using assms(3)
  proof (cases rule: smp_step.cases)
    case (bsp_prints f c)
    then show ?thesis by (cases "bsp_at s") (simp_all add: progress_def)
  next
    case (bsp_fails f x)
    then show ?thesis by (cases "bsp_at s") (simp_all add: progress_def)
  next
    case (ap_enters j b')
    have "sm_mp s = woken e (sm_next s) mp" using inv by (simp add: smp_inv_def boot_part_inv_def)
    then have "j < length (cpus mp)" using ap_enters(2) by simp
    then show ?thesis using ap_enters(1,3) by (intro progress_phase [of j _ s Waiting]) simp_all
  next
    case (ap_stops j x)
    then show ?thesis using ap_enters_result [OF r inv ap_stops(2,3)] by auto
  next
    case (ap_looks j)
    then show ?thesis using i [of j] by (intro progress_phase [of j _ s Spinning]) simp_all
  next
    case (ap_goes j)
    then show ?thesis using i [of j] by (intro progress_phase [of j _ s Greeting]) auto
  next
    case (ap_calls j)
    then show ?thesis using i [of j] by (intro progress_phase [of j _ s Printing]) simp_all
  next
    case (ap_prints j c)
    then show ?thesis using i [of j] by (intro progress_phase [of j _ s Greeted]) simp_all
  next
    case (ap_fails j x)
    then show ?thesis using i [of j] by (intro progress_phase [of j _ s "Stopped x"]) simp_all
  next
    case (ap_halts j)
    then show ?thesis using i [of j] by (intro progress_phase [of j _ s Halted]) simp_all
  qed (simp_all add: progress_def)
qed

lemma progress_run:
  assumes r: "smp_ready mp b cp" and "(smp_step tg rl e ^^ k) (smp_start mp b cp bc con) s"
  shows "k \<le> progress (length (cpus mp)) s \<and> smp_inv e mp (length (CoreContextes b)) s"
  using assms(2)
proof (induction k arbitrary: s)
  case 0
  then show ?case using smp_inv_start [OF r] by auto
next
  case (Suc k)
  then obtain u where u: "(smp_step tg rl e ^^ k) (smp_start mp b cp bc con) u" "smp_step tg rl e u s" by auto
  then show ?case using Suc.IH [OF u(1)] progress_step [OF r _ u(2)] smp_inv_step [OF r u(2)] by fastforce
qed

lemma progress_bound:
  assumes "smp_inv e mp n s"
  shows "progress (length (cpus mp)) s \<le> 7 * length (cpus mp) + 13"
proof -
  have "(\<Sum>i<length (cpus mp). rank (ap_phase s i)) \<le> (\<Sum>i<length (cpus mp). 6)" by (rule sum_mono) (rule rank_le)
  moreover have "sm_next s \<le> length (cpus mp)" using assms by (simp add: smp_inv_def boot_part_inv_def)
  ultimately show ?thesis using rank_le(2) [of "bsp_at s"] by (simp add: progress_def)
qed

section \<open>Runs in which every console call returns\<close>

text \<open>What is still to be printed: by the boot processor, by each application processor.\<close>

definition announce_text :: "u64 \<Rightarrow> u8 list" where
  "announce_text e = line_text KLog (cstr ''Starting APs at address '' @ hexadecimal e @ cstr ''!'')"

definition welcome_text :: "u8 list" where
  "welcome_text = line_text KOk (cstr ''Welcome to GooseOS on x86_64'')"

definition finish_text :: "u8 list" where
  "finish_text = line_text KLog (cstr ''Finished Arch::LateInit!'')"

definition greet_text :: "limine_mp_info \<Rightarrow> u8 list" where
  "greet_text info = line_text KLog (cstr ''Hi from AP '' @ decimal (ucast (processor_id info)) @ cstr ''!'')"

fun bsp_rest :: "u64 \<Rightarrow> bsp_phase \<Rightarrow> u8 list" where
  "bsp_rest e Announcing = announce_text e @ welcome_text @ finish_text"
| "bsp_rest e Finishing = finish_text"
| "bsp_rest e Done = []"
| "bsp_rest e (BspStopped _) = []"
| "bsp_rest e _ = welcome_text @ finish_text"

definition ap_rest :: "limine_mp_response \<Rightarrow> (nat \<Rightarrow> ap_phase) \<Rightarrow> nat \<Rightarrow> u8 list" where
  "ap_rest mp ph i = (if is_ap mp i \<and> rank (ph i) < 5 then greet_text (cpus mp ! i) else [])"

definition aps_rest :: "limine_mp_response \<Rightarrow> (nat \<Rightarrow> ap_phase) \<Rightarrow> u8 list" where
  "aps_rest mp ph = concat (map (ap_rest mp ph) [0..<length (cpus mp)])"

text \<open>All the text of the start.\<close>

definition start_text :: "u64 \<Rightarrow> limine_mp_response \<Rightarrow> u8 list" where
  "start_text e mp = bsp_rest e Announcing @ aps_rest mp (\<lambda>_. Parked)"

text \<open>The two calls whose strings end in a tag return on a good screen and take no room.\<close>

definition tags_return :: "nat \<Rightarrow> nat \<Rightarrow> (u8 list \<Rightarrow> console \<Rightarrow> console res) \<Rightarrow> bool" where
  "tags_return cols rows tg \<longleftrightarrow> (\<forall>c. \<forall>f \<in> {tg (cstr ''C[c,3]''), tg (cstr ''C[r,]'')}. screen_ok cols rows c \<longrightarrow>
     (\<exists>c'. f c = Inr c' \<and> screen_ok cols rows c' \<and> cursor_index cols c' \<le> cursor_index cols c))"

lemma prints_room:
  assumes "prints cols rows s st r" and "has_room cols rows (s @ t) st"
  shows "\<exists>st'. r = Inr st' \<and> screen_ok cols rows st' \<and> has_room cols rows t st'"
  using assms by (auto simp: prints_def has_room_def)

lemma log_returns:
  assumes "screen_ok cols rows st" and "plain fmt" "render fmt args = Some out" "ascii out"
    and "has_room cols rows (line_text k out @ t) st"
  shows "\<exists>st'. log_call k fmt args st = Inr st' \<and> screen_ok cols rows st' \<and> has_room cols rows t st'"
proof -
  have "has_room cols rows (line_text k out) st" using assms(5) by (simp add: has_room_def)
  from prints_room [OF prints_line [OF assms(1-4) this] assms(5)] show ?thesis .
qed

lemma bsp_call_returns:
  assumes tg: "tags_return cols rows tg" and c: "bsp_call tg e p = Some f" and st: "screen_ok cols rows st"
    and room: "has_room cols rows (bsp_rest e p @ t) st"
  shows "\<exists>st'. f st = Inr st' \<and> screen_ok cols rows st' \<and> has_room cols rows (bsp_rest e (bsp_after p) @ t) st'"
proof -
  have tagged: "\<exists>st'. f st = Inr st' \<and> screen_ok cols rows st' \<and> has_room cols rows u st'"
    if "f \<in> {tg (cstr ''C[c,3]''), tg (cstr ''C[r,]'')}" "has_room cols rows u st" for u
    using tg st that unfolding tags_return_def has_room_def by (meson le_trans add_le_mono1)
  show ?thesis
  proof (cases p)
    case Announcing
    then show ?thesis
      using c room log_returns [OF st, of "cstr ''Starting APs at address %x!''" "[VWord e]" _ KLog]
      by (auto simp: announce_text_def at_tag_def)
  next
    case Clearing
    then show ?thesis using c room tagged by auto
  next
    case Resetting
    then show ?thesis using c room tagged by auto
  next
    case Welcoming
    then show ?thesis
      using c room log_returns [OF st, of "cstr ''Welcome to GooseOS on x86_64''" "[]" _ KOk] by (auto simp: welcome_text_def at_tag_def)
  next
    case Finishing
    then show ?thesis
      using c room log_returns [OF st, of "cstr ''Finished Arch::LateInit!''" "[]" _ KLog] by (auto simp: finish_text_def at_tag_def)
  qed (use c in simp_all)
qed

lemma greet_returns:
  assumes "screen_ok cols rows st" and "has_room cols rows (greet_text info @ t) st"
  shows "\<exists>st'. greet info st = Inr st' \<and> screen_ok cols rows st' \<and> has_room cols rows t st'"
  using log_returns [OF assms(1), of "cstr ''Hi from AP %u!''" "[VWord (ucast (processor_id info))]" _ KLog] assms(2)
  by (auto simp: greet_def greet_text_def at_tag_def)

lemma text_room_aps: "text_room cols (aps_rest mp ph) = (\<Sum>j<length (cpus mp). text_room cols (ap_rest mp ph j))"
proof -
  have "text_room cols (concat (map g [0..<n])) = (\<Sum>j<n. text_room cols (g j))" for g :: "nat \<Rightarrow> u8 list" and n
    by (induction n) simp_all
  then show ?thesis by (simp add: aps_rest_def)
qed

lemma aps_rest_same: "(rank p < 5) = (rank (ph i) < 5) \<Longrightarrow> aps_rest mp (ph(i := p)) = aps_rest mp ph"
  unfolding aps_rest_def by (rule arg_cong [of _ _ concat], rule map_cong) (auto simp: ap_rest_def)

lemma aps_rest_greeted:
  assumes "is_ap mp i" and "rank (ph i) < 5" and "\<not> rank p < 5"
  shows "text_room cols (aps_rest mp ph) = text_room cols (greet_text (cpus mp ! i)) + text_room cols (aps_rest mp (ph(i := p)))"
proof -
  let ?r = "\<lambda>ph j. text_room cols (ap_rest mp ph j)"
  have "(\<Sum>j\<in>{..<length (cpus mp)} - {i}. ?r (ph(i := p)) j) = (\<Sum>j\<in>{..<length (cpus mp)} - {i}. ?r ph j)"
    by (rule sum.cong) (auto simp: ap_rest_def)
  moreover have "i < length (cpus mp)" using assms(1) by (simp add: is_ap_def)
  moreover have "ap_rest mp ph i = greet_text (cpus mp ! i)" "ap_rest mp (ph(i := p)) i = []" using assms by (simp_all add: ap_rest_def)
  ultimately show ?thesis
    using sum.remove [of "{..<length (cpus mp)}" i "?r ph"] sum.remove [of "{..<length (cpus mp)}" i "?r (ph(i := p))"]
    by (simp add: text_room_aps)
qed

text \<open>The screen is good when the lock is free, with room for what is to come; a taken lock has a holder that will release it; nobody has
  stopped.\<close>

definition going_well :: "(u8 list \<Rightarrow> console \<Rightarrow> console res) \<Rightarrow> nat \<Rightarrow> nat \<Rightarrow> u64 \<Rightarrow> limine_mp_response \<Rightarrow> smp \<Rightarrow> bool" where
  "going_well tg cols rows e mp s \<longleftrightarrow> screen_ok cols rows (unlocked s) \<and>
     has_room cols rows (bsp_rest e (bsp_at s) @ aps_rest mp (ap_phase s)) (unlocked s) \<and>
     (ConsoleLock (sm_console s) \<noteq> 0 \<longrightarrow> bsp_locked s \<or> (\<exists>i. ap_phase s i = Printing)) \<and>
     (bsp_locked s \<longrightarrow> bsp_call tg e (bsp_at s) \<noteq> None) \<and> (\<forall>x. bsp_at s \<noteq> BspStopped x) \<and> (\<forall>i x. ap_phase s i \<noteq> Stopped x)"

lemma going_well_start:
  "screen_ok cols rows con \<Longrightarrow> has_room cols rows (start_text e mp) con \<Longrightarrow> going_well tg cols rows e mp (smp_start mp b cp bc con)"
proof -
  assume s: "screen_ok cols rows con" "has_room cols rows (start_text e mp) con"
  then have "unlocked (smp_start mp b cp bc con) = con" by (simp add: unlocked_def smp_start_def screen_ok_def)
  then show ?thesis using s by (simp add: going_well_def) (simp add: smp_start_def start_text_def screen_ok_def)
qed

lemma screen_ok_unlocked: "screen_ok cols rows c \<Longrightarrow> c\<lparr>ConsoleLock := 0\<rparr> = c"
  by (simp add: screen_ok_def)

lemma unlocked_cong:
  "sm_console t = (sm_console s)\<lparr>ConsoleLock := 1\<rparr> \<or> sm_console t = sm_console s \<Longrightarrow> unlocked t = unlocked s"
  by (auto simp: unlocked_def)

lemma going_well_phase:
  assumes w: "going_well tg cols rows e mp s" and "ap_phase s i \<noteq> Printing" and p: "(rank p < 5) = (rank (ap_phase s i) < 5)" "\<forall>x. p \<noteq> Stopped x"
    and t: "unlocked t = unlocked s" "ConsoleLock (sm_console t) \<noteq> ConsoleLock (sm_console s) \<Longrightarrow> p = Printing"
      "bsp_at t = bsp_at s" "bsp_locked t = bsp_locked s" "ap_phase t = (ap_phase s)(i := p)"
  shows "going_well tg cols rows e mp t"
proof -
  have "aps_rest mp (ap_phase t) = aps_rest mp (ap_phase s)" using aps_rest_same [of p "ap_phase s" i mp] p(1) t(5) by simp
  moreover have "bsp_locked t \<or> (\<exists>i. ap_phase t i = Printing)" if l: "ConsoleLock (sm_console t) \<noteq> 0"
  proof (cases "p = Printing")
    case False
    then have "bsp_locked s \<or> (\<exists>j. ap_phase s j = Printing)" using l w t(2) by (auto simp: going_well_def)
    then show ?thesis using assms(2) t(4,5) by (metis fun_upd_other)
  qed (use t(5) in auto)
  ultimately show ?thesis using w p(2) t by (auto simp: going_well_def)
qed

lemma going_well_step:
  assumes r: "smp_ready mp b cp" and tg: "tags_return cols rows tg" and inv: "smp_inv e mp (length (CoreContextes b)) s"
    and w: "going_well tg cols rows e mp s" and "smp_step tg rl e s t"
  shows "going_well tg cols rows e mp t"
proof -
  have p: "\<And>i. ap_inv mp s i" using inv by (simp add: smp_inv_def)
  have mp: "sm_mp s = woken e (sm_next s) mp" using inv by (simp add: smp_inv_def boot_part_inv_def)
  have scr: "screen_ok cols rows (unlocked s)"
    and room: "has_room cols rows (bsp_rest e (bsp_at s) @ aps_rest mp (ap_phase s)) (unlocked s)" using w by (simp_all add: going_well_def)
  have greets: "\<exists>c. greet (cpus (sm_mp s) ! i) (unlocked s) = Inr c \<and> screen_ok cols rows c \<and>
      has_room cols rows (bsp_rest e (bsp_at s) @ aps_rest mp ((ap_phase s)(i := Greeted))) c" if "ap_phase s i = Printing" for i
  proof -
    have i: "is_ap mp i" "i < length (cpus mp)" using ap_inv_started [OF p, of i] that by (simp_all add: started_def is_ap_def)
    then have "greet (cpus (sm_mp s) ! i) = greet (cpus mp ! i)" using mp by (simp add: greet_def woken_ids)
    moreover have "has_room cols rows (greet_text (cpus mp ! i) @ bsp_rest e (bsp_at s) @ aps_rest mp ((ap_phase s)(i := Greeted))) (unlocked s)"
      using room aps_rest_greeted [OF i(1), of "ap_phase s" Greeted cols] that by (simp add: has_room_def)
    ultimately show ?thesis using greet_returns [OF scr] by simp
  qed
  show ?thesis
    using assms(5)
  proof (cases rule: smp_step.cases)
    case (bsp_calls f)
    then have "unlocked t = unlocked s" by (intro unlocked_cong) simp
    then show ?thesis using w bsp_calls(1,2) by (simp add: going_well_def)
  next
    case (bsp_prints f c)
    from bsp_call_returns [OF tg bsp_prints(2) scr room] bsp_prints(4)
    have c: "screen_ok cols rows c" "has_room cols rows (bsp_rest e (bsp_after (bsp_at s)) @ aps_rest mp (ap_phase s)) c" by auto
    moreover have "unlocked t = c" using screen_ok_unlocked [OF c(1)] bsp_prints(1) by (simp add: unlocked_def)
    moreover have "bsp_after (bsp_at s) \<noteq> BspStopped x" for x using bsp_prints(2) by (cases "bsp_at s") simp_all
    ultimately show ?thesis using w bsp_prints(1) by (simp add: going_well_def screen_ok_def)
  next
    case (bsp_fails f x)
    then show ?thesis using bsp_call_returns [OF tg bsp_fails(2) scr room] by auto
  next
    case (bsp_wakes r')
    then have "unlocked t = unlocked s" by (intro unlocked_cong) simp
    then show ?thesis using w bsp_wakes(1) by (simp add: going_well_def)
  next
    case (bsp_lost x)
    have "unat (cpu_count (sm_mp s)) = length (cpus mp)" unfolding mp using r by (simp add: smp_ready_def)
    then show ?thesis using bsp_lost(3,4) wake_cpu_woken [of "sm_next s" mp e] mp by simp
  next
    case bsp_woke_all
    then have "unlocked t = unlocked s" by (intro unlocked_cong) simp
    then show ?thesis using w bsp_woke_all(1,2) by (auto simp: going_well_def)
  next
    case bsp_publishes
    then have "unlocked t = unlocked s" by (intro unlocked_cong) simp
    then show ?thesis using w bsp_publishes(1,2) by (auto simp: going_well_def)
  next
    case (ap_enters i b')
    then show ?thesis by (intro going_well_phase [OF w, of i Waiting t]) (simp_all add: unlocked_def)
  next
    case (ap_stops i x)
    then show ?thesis using ap_enters_result [OF r inv ap_stops(2,3)] by auto
  next
    case (ap_looks i)
    then show ?thesis by (intro going_well_phase [OF w, of i Spinning t]) (simp_all add: unlocked_def)
  next
    case (ap_goes i)
    then show ?thesis by (intro going_well_phase [OF w, of i Greeting t]) (auto simp: unlocked_def)
  next
    case (ap_calls i)
    then show ?thesis by (intro going_well_phase [OF w, of i Printing t]) (simp_all add: unlocked_def)
  next
    case (ap_prints i c)
    from greets [OF ap_prints(2)] ap_prints(3)
    have c: "screen_ok cols rows c" "has_room cols rows (bsp_rest e (bsp_at s) @ aps_rest mp ((ap_phase s)(i := Greeted))) c" by auto
    moreover have "unlocked t = c" using screen_ok_unlocked [OF c(1)] ap_prints(1) by (simp add: unlocked_def)
    ultimately show ?thesis using w ap_prints(1) by (auto simp: going_well_def screen_ok_def)
  next
    case (ap_fails i x)
    then show ?thesis using greets [OF ap_fails(2)] by auto
  next
    case (ap_halts i)
    then show ?thesis by (intro going_well_phase [OF w, of i Halted t]) (simp_all add: unlocked_def)
  qed
qed

lemma going_well_run:
  assumes "smp_ready mp b cp" and "tags_return cols rows tg" and "screen_ok cols rows con" and "has_room cols rows (start_text e mp) con"
    and "(smp_step tg rl e)\<^sup>*\<^sup>* (smp_start mp b cp bc con) s"
  shows "going_well tg cols rows e mp s"
  using assms(5)
proof (induction rule: rtranclp_induct)
  case base
  then show ?case by (rule going_well_start [OF assms(3,4)])
next
  case (step y z)
  then show ?case using going_well_step [OF assms(1,2) smp_inv_reachable [OF assms(1) step(1)]] by blast
qed

text \<open>A state that cannot move is the end.\<close>

lemma smp_stuck:
  assumes r: "smp_ready mp b cp" and inv: "smp_inv e mp (length (CoreContextes b)) s" and "e \<noteq> 0"
    and w: "going_well tg cols rows e mp s" and stuck: "\<nexists>t. smp_step tg True e s t"
  shows "bsp_at s = Done \<and> GPReady (sm_safe s)" and "ap_phase s i = (if is_ap mp i then Halted else Parked)"
proof -
  have bp: "boot_part_inv e mp s" and p: "\<And>i. ap_inv mp s i" using inv by (simp_all add: smp_inv_def)
  have mp: "sm_mp s = woken e (sm_next s) mp" "sm_next s \<le> length (cpus mp)" using bp by (simp_all add: boot_part_inv_def)
  have cnt: "unat (cpu_count (sm_mp s)) = length (cpus mp)" unfolding mp(1) using r by (simp add: smp_ready_def)
  have no_bsp: "\<not> bsp_locked s"
  proof
    assume l: "bsp_locked s"
    then obtain f where f: "bsp_call tg e (bsp_at s) = Some f" using w by (auto simp: going_well_def)
    show False
      by (cases "f (unlocked s)") (use smp_step.bsp_prints [OF f l] smp_step.bsp_fails [OF f l] stuck in blast)+
  qed
  have no_ap: "ap_phase s j \<noteq> Printing" for j
  proof
    assume j: "ap_phase s j = Printing"
    show False
      by (cases "greet (cpus (sm_mp s) ! j) (unlocked s)")
        (use smp_step.ap_prints [OF j] smp_step.ap_fails [OF j] stuck in blast)+
  qed
  have lock: "ConsoleLock (sm_console s) = 0" using w no_bsp no_ap by (auto simp: going_well_def)
  have no_call: "bsp_call tg e (bsp_at s) = None"
    using smp_step.bsp_calls [OF _ no_bsp lock] stuck by (metis option.exhaust)
  have "bsp_at s \<noteq> Waking"
  proof
    assume k: "bsp_at s = Waking"
    show False
    proof (cases "sm_next s < length (cpus mp)")
      case True
      then have "wake_cpu e (sm_next s) (sm_mp s) = Inr (woken e (Suc (sm_next s)) mp)" using wake_cpu_woken mp(1) by simp
      from smp_step.bsp_wakes [OF k _ this] show False using True cnt stuck by metis
    next
      case False
      then show False using smp_step.bsp_woke_all [OF k] mp(2) cnt stuck by auto
    qed
  qed
  moreover have "bsp_at s \<noteq> Publishing" using smp_step.bsp_publishes stuck by blast
  ultimately have d: "bsp_at s = Done" using no_call w by (cases "bsp_at s") (auto simp: going_well_def)
  then have g: "GPReady (sm_safe s)" "sm_next s = length (cpus mp)" using bp by (auto simp: boot_part_inv_def)
  then show "bsp_at s = Done \<and> GPReady (sm_safe s)" using d by simp
  have "ap_phase s i \<noteq> Parked" if "is_ap mp i"
  proof
    assume pk: "ap_phase s i = Parked"
    have i: "i < length (cpus (sm_mp s))" "goto_address (cpus (sm_mp s) ! i) \<noteq> 0"
      using that \<open>e \<noteq> 0\<close> mp(1) g(2) by (auto simp: is_ap_def woken_nth)
    then show False using ap_enters_result [OF r inv i(1) pk] smp_step.ap_enters [OF i(1) pk i(2)] stuck by blast
  qed
  moreover have "ap_phase s i \<noteq> Waiting" "ap_phase s i \<noteq> Spinning" using smp_step.ap_goes [of s i True] g(1) stuck by blast+
  moreover have "ap_phase s i \<noteq> Greeting" using smp_step.ap_calls [OF _ lock] stuck by blast
  moreover have "ap_phase s i \<noteq> Greeted" using smp_step.ap_halts stuck by blast
  moreover have "ap_phase s i \<noteq> Stopped x" for x using w by (simp add: going_well_def)
  moreover have "is_ap mp i" if "ap_phase s i \<noteq> Parked" using ap_inv_started [OF p that] by (simp add: started_def)
  ultimately show "ap_phase s i = (if is_ap mp i then Halted else Parked)" using no_ap [of i] by (cases "ap_phase s i") auto
qed

lemma smp_end_reachable:
  assumes r: "smp_ready mp b cp"
  shows "\<exists>k s. (smp_step tg rl e ^^ k) (smp_start mp b cp bc con) s \<and> (\<nexists>t. smp_step tg rl e s t)"
proof (rule ccontr)
  assume none: "\<not> ?thesis"
  have "\<exists>s. (smp_step tg rl e ^^ k) (smp_start mp b cp bc con) s" for k
  proof (induction k)
    case (Suc k)
    then obtain s t where "(smp_step tg rl e ^^ k) (smp_start mp b cp bc con) s" "smp_step tg rl e s t" using none by blast
    then show ?case by auto
  qed simp
  then obtain s where s: "(smp_step tg rl e ^^ (7 * length (cpus mp) + 14)) (smp_start mp b cp bc con) s" by blast
  show False using progress_run [OF r s] progress_bound by fastforce
qed

text \<open>Two processors are never inside the console at the same time.\<close>

definition one_caller :: "smp \<Rightarrow> bool" where
  "one_caller s \<longleftrightarrow> (ConsoleLock (sm_console s) = 0 \<longrightarrow> \<not> bsp_locked s \<and> (\<forall>i. ap_phase s i \<noteq> Printing)) \<and>
     (\<forall>i. ap_phase s i = Printing \<longrightarrow> \<not> bsp_locked s \<and> (\<forall>j. ap_phase s j = Printing \<longrightarrow> j = i))"

lemma one_caller_step: "smp_step tg rl e s t \<Longrightarrow> one_caller s \<Longrightarrow> one_caller t"
  by (induction rule: smp_step.induct) (auto simp: one_caller_def)

lemma console_calls_exclude: "(smp_step tg rl e)\<^sup>*\<^sup>* (smp_start mp b cp bc con) s \<Longrightarrow> one_caller s"
proof (induction rule: rtranclp_induct)
  case base
  then show ?case by (simp add: one_caller_def smp_start_def)
qed (rule one_caller_step)

section \<open>LateInit's own strings\<close>

text \<open>The clear-screen string of LateInit ends in its tag, so the print call reads past the string.\<close>

lemma PrintString_clear_tag: "PrintString (cstr ''C[c,3]'') [] st \<noteq> Inr st'"
proof
  assume "PrintString (cstr ''C[c,3]'') [] st = Inr st'"
  then obtain st1 st2 where p: "print_loop (cstr ''C[c,3]'') [] st1 = Inr st2"
    by (auto simp: PrintString_def PrintStringInternal_def and_then_eq_Inr)
  have tag: "at_tag (cstr ''C[c,3]'')" by (simp add: at_tag_def)
  have "u = []" if "ParseStyling (cstr ''C[c,3]'') st1 = Inr (u, st3)" for u st3
    using that by (auto simp: ParseStyling_def and_then_eq_Inr Let_def)
  then show False using p tag by (subst (asm) print_loop.simps) (auto simp: and_then_eq_Inr peek_def)
qed

text \<open>So the flag that the application processors wait for is not reached by any run that keeps to its strings.\<close>

lemma LateInit_reads_past_its_string: "LateInit a s \<noteq> Inr s'"
  by (auto simp: LateInit_def and_then_eq_Inr Let_def PrintString_clear_tag [simplified])

text \<open>So with these calls as the strings define them, the start does not come as far as the flag.\<close>

lemma tags_never_publish:
  assumes "(smp_step (\<lambda>s. PrintString s []) rl e)\<^sup>*\<^sup>* (smp_start mp b cp bc con) s"
  shows "\<not> GPReady (sm_safe s) \<and> (bsp_at s \<in> {Announcing, Waking, Clearing} \<or> (\<exists>x. bsp_at s = BspStopped x))"
  using assms
proof (induction rule: rtranclp_induct)
  case base
  then show ?case by (simp add: smp_start_def GPReady_def)
next
  case (step s t)
  from step(2) show ?case
  proof (cases rule: smp_step.cases)
    case (bsp_prints f c)
    then have "bsp_at s \<noteq> Clearing" using PrintString_clear_tag by auto
    then show ?thesis using step(3) bsp_prints(1,2) by auto
  qed (use step(3) in auto)
qed

section \<open>Properties\<close>

text \<open>C11: whatever the interleaving, the boot processor is never started a second time, no application processor stops on
  an error or turns interrupts on before the flag is set, which is after every application processor has its entry
  address, and each one past its start owns the core context of its own number. This does not depend on what the console calls do or on
  how often the flag is loaded.\<close>

theorem smp_safety:
  assumes "smp_ready mp b cp" and "(smp_step tg rl e)\<^sup>*\<^sup>* (smp_start mp b cp bc con) s"
  shows "(\<forall>i. ap_phase s i \<noteq> Parked \<longrightarrow> is_ap mp i \<and> own_context (cpus mp ! i) (sm_shared s)) \<and>
    (\<forall>i. interrupts_on (ap_cpu s i) \<longrightarrow> GPReady (sm_safe s) \<and>
      (\<forall>j. is_ap mp j \<longrightarrow> goto_address (cpus (sm_mp s) ! j) = e)) \<and>
    (\<forall>i x. ap_phase s i = Stopped x \<longrightarrow> GPReady (sm_safe s))"
proof -
  have inv: "smp_inv e mp (length (CoreContextes b)) s" by (rule smp_inv_reachable [OF assms])
  have p: "ap_inv mp s i" for i using inv by (simp add: smp_inv_def)
  have "goto_address (cpus (sm_mp s) ! j) = e" if "GPReady (sm_safe s)" "is_ap mp j" for j
    using inv that by (auto simp: smp_inv_def boot_part_inv_def is_ap_def woken_nth)
  moreover have "is_ap mp i \<and> own_context (cpus mp ! i) (sm_shared s)" if "ap_phase s i \<noteq> Parked" for i
    using ap_inv_started [OF p that] by (simp add: started_def)
  moreover have "GPReady (sm_safe s)" if "interrupts_on (ap_cpu s i) \<or> (\<exists>x. ap_phase s i = Stopped x)" for i
    using p [of i] that by (cases "ap_phase s i") (auto simp: ap_inv_def)
  ultimately show ?thesis by blast
qed

text \<open>Two processors, number 1 the application processor.\<close>

definition two_cpus :: limine_mp_response where
  "two_cpus = \<lparr>bsp_lapic_id = 0, cpu_count = 2, cpus = [\<lparr>processor_id = 0, lapic_id = 0, goto_address = 0\<rparr>,
     \<lparr>processor_id = 1, lapic_id = 4, goto_address = 0\<rparr>]\<rparr>"

definition boot0 :: boot where
  "boot0 = \<lparr>bt_machine = demo_machine, bt_pmm = demo_pmm, bt_gdt = gdt_globals 0x8000, bt_idt = idt_globals 0x9000,
     CoreContextes = replicate 256 \<lparr>CoreID = 0, LapicID = 0\<rparr>, contexts_at = 0x7000\<rparr>"

lemma two_cpus_ready: "smp_ready two_cpus boot0 (\<lambda>_. cpu0)"
  by (simp add: smp_ready_def two_cpus_def boot0_def gdt_globals_def cpu0_def bit_iff_odd)

lemma two_cpus_ap: "is_ap two_cpus i \<longleftrightarrow> i = 1"
  by (cases i; cases "i - 1") (auto simp: is_ap_def two_cpus_def)

definition two_start :: smp where
  "two_start = smp_start two_cpus boot0 (\<lambda>_. cpu0) cpu0 page_console"

text \<open>Two tagged calls that do nothing.\<close>

definition quiet_tags :: "u8 list \<Rightarrow> console \<Rightarrow> console res" where
  "quiet_tags s st = Inr st"

lemma quiet_tags_return: "tags_return cols rows quiet_tags"
  by (simp add: tags_return_def quiet_tags_def)

lemma two_room: "has_room 80 25 (start_text 0xF000 two_cpus) page_console"
proof -
  have "hexadecimal 0xF000 = cstr ''F000''" by (simp add: hexadecimal_def numeral_in_def digits_of.simps hex_char_def)
  moreover have "decimal (ucast (1 :: u32)) = cstr ''1''" by (simp add: decimal_def numeral_in_def digits_of.simps dec_char_def)
  moreover have "[0..<length (cpus two_cpus)] = [0, 1]" by (simp add: two_cpus_def upt_rec)
  moreover have "aps_rest two_cpus (\<lambda>_. Parked) = greet_text (cpus two_cpus ! 1)"
    unfolding aps_rest_def calculation(3) by (simp add: ap_rest_def two_cpus_ap)
  ultimately show ?thesis
    by (simp add: has_room_def start_text_def cursor_index_def announce_text_def welcome_text_def finish_text_def greet_text_def
        line_text_def two_cpus_def)
qed

lemma two_cpus_end:
  "\<exists>k s. (smp_step quiet_tags True 0xF000 ^^ k) two_start s \<and> (\<nexists>t. smp_step quiet_tags True 0xF000 s t) \<and>
    (smp_step quiet_tags True 0xF000)\<^sup>*\<^sup>* two_start s \<and> ap_phase s 1 = Halted"
proof -
  obtain k s where s: "(smp_step quiet_tags True 0xF000 ^^ k) two_start s" "\<nexists>t. smp_step quiet_tags True 0xF000 s t"
    using smp_end_reachable [OF two_cpus_ready] unfolding two_start_def by blast
  note run = relpowp_imp_rtranclp [OF s(1), unfolded two_start_def]
  have "ap_phase s 1 = Halted"
    using smp_stuck(2) [OF two_cpus_ready smp_inv_reachable [OF two_cpus_ready run] _
        going_well_run [OF two_cpus_ready quiet_tags_return page_screen two_room run] s(2), of 1] by (simp add: two_cpus_ap)
  then show ?thesis using s relpowp_imp_rtranclp [OF s(1)] by auto
qed

theorem smp_safety_witness:
  "\<exists>s. (smp_step quiet_tags True 0xF000)\<^sup>*\<^sup>* two_start s \<and> ap_phase s 1 = Halted \<and>
    CoreContextes (sm_shared s) ! 1 = \<lparr>CoreID = 1, LapicID = 4\<rparr> \<and> ap_phase s 0 = Parked"
proof -
  obtain s where s: "(smp_step quiet_tags True 0xF000)\<^sup>*\<^sup>* two_start s" "ap_phase s 1 = Halted"
    using two_cpus_end by blast
  have "own_context (cpus two_cpus ! 1) (sm_shared s)" "ap_phase s 0 = Parked"
    using smp_safety [OF two_cpus_ready s(1) [unfolded two_start_def]] s(2) two_cpus_ap [of 0] by auto
  then show ?thesis using s by (auto simp: own_context_def two_cpus_def)
qed



text \<open>C37: with the two calls that clear the screen as their strings define them, so that reading behind the end of one stops the call, no run of the start sets the flag: the boot
  processor does not get past the first of them, and every application processor that has started waits, with interrupts off.\<close>

theorem smp_flag_never_set:
  assumes "smp_ready mp b cp" and "(smp_step (\<lambda>s. PrintString s []) rl e)\<^sup>*\<^sup>* (smp_start mp b cp bc con) s"
  shows "\<not> GPReady (sm_safe s) \<and> bsp_at s \<notin> {Resetting, Publishing, Welcoming, Finishing, Done} \<and>
    (\<forall>i. ap_phase s i \<in> {Parked, Waiting, Spinning} \<and> \<not> interrupts_on (ap_cpu s i))"
proof -
  note no = tags_never_publish [OF assms(2)]
  have p: "ap_inv mp s i" for i using smp_inv_reachable [OF assms] by (simp add: smp_inv_def)
  have "ap_phase s i \<in> {Parked, Waiting, Spinning} \<and> \<not> interrupts_on (ap_cpu s i)" for i
    using p [of i] no by (cases "ap_phase s i") (simp_all add: ap_inv_def)
  then show ?thesis using no by auto
qed

theorem smp_flag_never_set_witness:
  "\<exists>s. (smp_step (\<lambda>s. PrintString s []) True 0xF000)\<^sup>*\<^sup>* two_start s \<and> (\<nexists>t. smp_step (\<lambda>s. PrintString s []) True 0xF000 s t) \<and>
    \<not> GPReady (sm_safe s) \<and> ap_phase s 1 \<in> {Parked, Waiting, Spinning}"
proof -
  obtain k s where s: "(smp_step (\<lambda>s. PrintString s []) True 0xF000 ^^ k) two_start s"
      "\<nexists>t. smp_step (\<lambda>s. PrintString s []) True 0xF000 s t"
    using smp_end_reachable [OF two_cpus_ready] unfolding two_start_def by blast
  then show ?thesis
    using smp_flag_never_set [OF two_cpus_ready relpowp_imp_rtranclp [OF s(1) [unfolded two_start_def]]]
      relpowp_imp_rtranclp [OF s(1)] by blast
qed

end
