(* ===== verification/Heap.thy ===== *)
theory Heap
  imports Vmm Errno
begin

text \<open>
  The kernel heap: \<^verbatim>\<open>kernel/mem/alloc.cpp\<close> (kmalloc, kfree, Init, a bump allocator) over
  \<^verbatim>\<open>kernel/arch/x86_64/mem/alloc-backend.cpp\<close>, which takes a frame from the physical
  memory manager and maps it. The theorems: Init maps distinct frames behind the heap's pages but the first, kmalloc hands
  out disjoint blocks in order, and growing the heap leaves a page unmapped.
\<close>

section \<open>The backend\<close>

text \<open>
  What the backend reads: the frame allocator, the page-table base register, Limine's
  direct-map offset, and the linker symbol \<^verbatim>\<open>kernel_end\<close> (no file of the repository defines it).
\<close>

record backend =
  bk_pmm :: pmm
  bk_cr3 :: u64
  bk_hhdm :: u64
  kernel_end :: u64

definition pml4_of :: "backend \<Rightarrow> u64" where
  "pml4_of b = (bk_cr3 b AND PTE_ADDRESS) + bk_hhdm b"

definition GetHeapStartPage :: "backend \<Rightarrow> u64" where
  "GetHeapStartPage b = kernel_end b"

definition AllocatePageAt :: "backend \<Rightarrow> u64 \<Rightarrow> paging \<Rightarrow> (u64 \<times> paging) res" where
  "AllocatePageAt b virt_addr st =
     and_then (AllocatePage (bk_pmm b) (pmem st)) (\<lambda>(AllocatedPagePointer, m).
     and_then (MapPage (bk_pmm b) (pml4_of b) virt_addr AllocatedPagePointer PTE_WRITABLE (bk_hhdm b)
                 (st\<lparr>pmem := m\<rparr>)) (\<lambda>st.
     Inr (virt_addr, st)))"

definition MapVirtual :: "backend \<Rightarrow> u64 \<Rightarrow> u64 \<Rightarrow> paging \<Rightarrow> paging res" where
  "MapVirtual b virt_addr phys_addr st =
     MapPage (bk_pmm b) (pml4_of b) virt_addr phys_addr PTE_WRITABLE (bk_hhdm b) st"

section \<open>The allocator\<close>

text \<open>
  The globals of alloc.cpp. The initial value of \<^verbatim>\<open>MEM_HeapSizeInKiB\<close> (which counts bytes) comes from
  \<^verbatim>\<open>KRNL_MEM_HEAP_SIZE\<close>, a macro no file of the repository defines.
\<close>

record heap =
  MEM_HeapSizeInKiB :: u64
  MEM_HeapStartPointer :: u64
  MEM_HeapEndPointer :: u64
  MEM_CurrentHeapPointer :: u64
  heap_paging :: paging
  heap_log :: "log_event list"

definition heap_globals :: "u64 \<Rightarrow> paging \<Rightarrow> heap" where
  "heap_globals KRNL_MEM_HEAP_SIZE pg =
     \<lparr>MEM_HeapSizeInKiB = KRNL_MEM_HEAP_SIZE * 1024, MEM_HeapStartPointer = 0, MEM_HeapEndPointer = 0,
      MEM_CurrentHeapPointer = 0, heap_paging = pg, heap_log = []\<rparr>"

definition say :: "log_kind \<Rightarrow> string \<Rightarrow> u64 list \<Rightarrow> heap \<Rightarrow> heap" where
  "say k s args hp = hp\<lparr>heap_log := heap_log hp @ [(k, s, args)]\<rparr>"

definition IsOverflowingHeap :: "u64 \<Rightarrow> heap \<Rightarrow> bl" where
  "IsOverflowingHeap amount hp =
     (if MEM_CurrentHeapPointer hp + amount \<ge> MEM_HeapEndPointer hp then ktrue else kfalse)"

text \<open>One turn of the loop that grows the heap.\<close>

definition grow_page :: "backend \<Rightarrow> nat \<Rightarrow> heap \<Rightarrow> heap res" where
  "grow_page b PageIndex hp =
     and_then (AllocatePageAt b (MEM_HeapEndPointer hp + 4 * 1024) (heap_paging hp)) (\<lambda>(page, pg).
       Inr (say KInfo ''ALLOC: Allocated new heap page at %x'' [page]
             (hp\<lparr>heap_paging := pg, MEM_HeapEndPointer := page\<rparr>)))"

definition kmalloc :: "backend \<Rightarrow> u64 \<Rightarrow> heap \<Rightarrow> (u64 \<times> heap) res" where
  "kmalloc b amount hp =
     and_then (kassert (MEM_HeapStartPointer hp \<noteq> 0)
        ''MEM: Attempt to allocate memory before initilizing allocator'') (\<lambda>_.
     and_then
       (if truthy (IsOverflowingHeap amount hp)
        then for_each (grow_page b) [0..<unat ((amount + 4095) div 4096)] hp
        else Inr hp) (\<lambda>hp.
     let hp = hp\<lparr>MEM_CurrentHeapPointer := MEM_CurrentHeapPointer hp + amount\<rparr>
     in Inr (MEM_CurrentHeapPointer hp - amount, hp)))"

definition kfree :: "u64 \<Rightarrow> heap \<Rightarrow> int \<times> heap" where
  "kfree ptr hp =
     (if ptr = 0 then (EINVAL, hp)
      else (ENOSYS, say KError ''Attempt to call kfree, but bump allocator doesnt support it!'' [] hp))"

text \<open>One turn of Init's loop; the local \<^verbatim>\<open>LastAllocatedPage\<close> is threaded with the state.\<close>

definition init_page :: "backend \<Rightarrow> nat \<Rightarrow> u64 \<times> heap \<Rightarrow> (u64 \<times> heap) res" where
  "init_page b PageIndex = (\<lambda>(LastAllocatedPage, hp).
     and_then (AllocatePageAt b (LastAllocatedPage + 4 * 1024) (heap_paging hp)) (\<lambda>(page, pg).
       Inr (page, say KInfo ''ALLOC: Allocated new heap page at %x'' [page] (hp\<lparr>heap_paging := pg\<rparr>))))"

definition heap_Init :: "backend \<Rightarrow> heap \<Rightarrow> heap res" where
  "heap_Init b hp =
     (let hp = say KInfo ''KMALLOC: Initilizing allocator!'' [] hp;
          LastAllocatedPage = GetHeapStartPage b;
          hp = say KInfo ''ALLOC: Inital heap page at %x'' [LastAllocatedPage] hp;
          hp = hp\<lparr>MEM_HeapStartPointer := LastAllocatedPage, MEM_CurrentHeapPointer := LastAllocatedPage\<rparr>;
          AmountOfNeededPages = MEM_HeapSizeInKiB hp div 4096
      in and_then (for_each (init_page b) [0..<unat (AmountOfNeededPages - 1)] (LastAllocatedPage, hp))
           (\<lambda>(LastAllocatedPage, hp).
         Inr (hp\<lparr>MEM_HeapEndPointer := LastAllocatedPage + 1024 * 4\<rparr>)))"

section \<open>Mapping one fresh frame\<close>

lemma no_large_page_cong:
  "walk m' h r (path va) = walk m h r (path va) \<Longrightarrow> no_large_page h r m' va = no_large_page h r m va"
  by (simp add: no_large_page_def)

text \<open>The frames of a page-table world: its allocator, direct map and root, as the backend sees them.\<close>

definition backend_ok :: "backend \<Rightarrow> nat \<Rightarrow> paging \<Rightarrow> bool" where
  "backend_ok b n pg \<longleftrightarrow> pt_ok (bk_pmm b) n (bk_hhdm b) (pml4_of b) (pmem pg)"

definition translation :: "backend \<Rightarrow> paging \<Rightarrow> u64 \<Rightarrow> (nat \<times> pt_entry) option" where
  "translation b pg va = walk (pmem pg) (bk_hhdm b) (pml4_of b) (path va)"

definition free_of :: "backend \<Rightarrow> paging \<Rightarrow> u64 set" where
  "free_of b pg = free_frames (bk_pmm b) (pmem pg)"

lemma AllocatePageAt_maps:
  assumes ok: "backend_ok b n pg" and free: "4 \<le> card (free_of b pg)"
    and small: "translation b pg va = None"
  shows "\<exists>f pg'. AllocatePageAt b va pg = Inr (va, pg') \<and> backend_ok b n pg' \<and>
    f \<in> free_of b pg \<and> free_of b pg' \<subseteq> free_of b pg - {f} \<and> card (free_of b pg) \<le> card (free_of b pg') + 4 \<and>
    translation b pg' va = Some (0, f OR PTE_WRITABLE OR PTE_PRESENT) \<and>
    (\<forall>vb. path vb \<noteq> path va \<longrightarrow> translation b pg' vb = translation b pg vb)"
proof -
  let ?s = "bk_pmm b" and ?h = "bk_hhdm b" and ?r = "pml4_of b"
  have ok0: "pt_ok ?s n ?h ?r (pmem pg)" using ok by (simp add: backend_ok_def)
  have "free_frames ?s (pmem pg) \<noteq> {}" using free by (auto simp: free_of_def)
  then obtain f m1 where a: "AllocatePage ?s (pmem pg) = Inr (f, m1)"
    using AllocatePage_some [OF pt_okD(1) [OF ok0]] by blast
  note fr = AllocatePage_frame [OF pt_okD(1) [OF ok0] a]
  note ok1 = take_frame_pt_ok [OF ok0 a]
  let ?pg1 = "pg\<lparr>pmem := m1\<rparr>"
  have card1: "card (free_frames ?s (pmem pg)) = Suc (card (free_frames ?s m1))"
    using fr(3) card.remove [OF pages.finite_free fr(2)] by simp
  have "no_large_page ?h ?r m1 va"
    using small ok1(2) [OF page_path_path] by (simp add: no_large_page_def translation_def)
  then obtain m2 where m2: "MapPage ?s ?r va f PTE_WRITABLE ?h ?pg1 = Inr (invlpg va (?pg1\<lparr>pmem := m2\<rparr>))"
      "pt_ok ?s n ?h ?r m2" "walk m2 ?h ?r (path va) = Some (0, pte_for f PTE_WRITABLE)"
      "\<forall>p. page_path p \<longrightarrow> p \<noteq> path va \<longrightarrow> walk m2 ?h ?r p = walk m1 ?h ?r p"
      "card (free_frames ?s m1) \<le> card (free_frames ?s m2) + 3" "free_frames ?s m2 \<subseteq> free_frames ?s m1"
    using MapPage_memory [of ?s n ?h ?r ?pg1 va f PTE_WRITABLE] ok1(1) free card1 by (auto simp: free_of_def)
  let ?pg2 = "invlpg va (?pg1\<lparr>pmem := m2\<rparr>)"
  have "pmem ?pg2 = m2" by (simp add: invlpg_def)
  moreover have "AllocatePageAt b va pg = Inr (va, ?pg2)" using a m2(1) by (simp add: AllocatePageAt_def)
  moreover have "pte_for f PTE_WRITABLE = f OR PTE_WRITABLE OR PTE_PRESENT"
    using pt_okD(7) [OF ok0 fr(2)] by (simp add: pte_for_def)
  moreover have "card (free_frames ?s (pmem pg)) \<le> card (free_frames ?s m2) + 4" using card1 m2(5) by simp
  moreover have "free_frames ?s m2 \<subseteq> free_frames ?s (pmem pg) - {f}" using m2(6) fr(3) by simp
  moreover have "walk m2 ?h ?r (path vb) = walk (pmem pg) ?h ?r (path vb)" if "path vb \<noteq> path va" for vb
    using m2(4) ok1(2) [OF page_path_path] page_path_path that by metis
  ultimately have "AllocatePageAt b va pg = Inr (va, ?pg2) \<and> backend_ok b n ?pg2 \<and>
    f \<in> free_of b pg \<and> free_of b ?pg2 \<subseteq> free_of b pg - {f} \<and> card (free_of b pg) \<le> card (free_of b ?pg2) + 4 \<and>
    translation b ?pg2 va = Some (0, f OR PTE_WRITABLE OR PTE_PRESENT) \<and>
    (\<forall>vb. path vb \<noteq> path va \<longrightarrow> translation b ?pg2 vb = translation b pg vb)"
    using m2(2,3) fr(2) by (simp add: backend_ok_def free_of_def translation_def)
  then show ?thesis by blast
qed

section \<open>Runs of pages\<close>

lemma page_number: "unat (take_bit 36 (drop_bit 12 v) :: u64) = unat v div 4096 mod 2 ^ 36"
  by (simp add: unsigned_take_bit_eq unsigned_drop_bit_eq take_bit_eq_mod drop_bit_eq_div unat_mod_distrib unat_div_distrib)

lemma page_number_add: "unat (a + of_nat i * 4096 :: u64) div 4096 mod 2 ^ 36 = (unat a div 4096 + i) mod 2 ^ 36"
proof -
  have "a + of_nat i * 4096 = a + of_nat (i * 4096)" by simp
  then have "unat (a + of_nat i * 4096) = (unat a + i * 4096) mod 2 ^ 64"
    by (simp only: unat_word_ariths unat_of_nat len_bit0 len_num1 mod_add_right_eq take_bit_eq_mod) simp
  then have "unat (a + of_nat i * 4096) = (unat a + i * 4096) mod (4096 * 2 ^ 52)" by simp
  then have "unat (a + of_nat i * 4096) div 4096 = (unat a + i * 4096) div 4096 mod 2 ^ 52"
    by (simp only: mod_mult2_eq)
  also have "(unat a + i * 4096) div 4096 = unat a div 4096 + i" by simp
  finally have "unat (a + of_nat i * 4096) div 4096 mod 2 ^ 36 = (unat a div 4096 + i) mod 2 ^ 52 mod 2 ^ 36" by simp
  also have "\<dots> = (unat a div 4096 + i) mod 2 ^ 36" by (rule mod_mod_cancel) (simp add: le_imp_power_dvd)
  finally show ?thesis .
qed

lemma shifted_mod_inject:
  fixes i j x n :: nat
  assumes "i < n" "j < n" "(x + i) mod n = (x + j) mod n"
  shows "i = j"
proof -
  have "j \<le> i" if "i < n" "j < n" "(x + i) mod n = (x + j) mod n" for i j
  proof (rule ccontr)
    assume "\<not> j \<le> i"
    then have "n dvd j - i" using that(3) mod_eq_dvd_iff_nat [of "x + i" "x + j" n] by simp
    then show False using that(2) \<open>\<not> j \<le> i\<close> by (auto dest: dvd_imp_le)
  qed
  then show ?thesis using assms by (metis antisym)
qed

lemma path_pages_distinct:
  assumes "i < 2 ^ 36" "j < 2 ^ 36" "path (a + of_nat i * 4096) = path (a + of_nat j * 4096)"
  shows "i = j"
proof -
  have "take_bit 36 (drop_bit 12 (a + of_nat i * 4096)) = take_bit 36 (drop_bit 12 (a + of_nat j * 4096))"
    using assms(3) by (simp add: path_eq_page_number)
  then have "(unat a div 4096 + i) mod 2 ^ 36 = (unat a div 4096 + j) mod 2 ^ 36"
    by (metis page_number page_number_add)
  then show ?thesis by (rule shifted_mod_inject [OF assms(1,2)])
qed

text \<open>The pages that Init's loop has mapped after \<open>k\<close> turns.\<close>

definition run_mapped :: "backend \<Rightarrow> nat \<Rightarrow> u64 \<Rightarrow> paging \<Rightarrow> nat \<Rightarrow> u64 list \<Rightarrow> paging \<Rightarrow> bool" where
  "run_mapped b n a pg k fs pg' \<longleftrightarrow>
     backend_ok b n pg' \<and> length fs = k \<and> distinct fs \<and> set fs \<subseteq> free_of b pg \<and>
     free_of b pg' \<subseteq> free_of b pg - set fs \<and> card (free_of b pg) \<le> card (free_of b pg') + 4 * k \<and>
     (\<forall>i < k. translation b pg' (a + of_nat (Suc i) * 4096) = Some (0, fs ! i OR PTE_WRITABLE OR PTE_PRESENT)) \<and>
     (\<forall>vb. (\<forall>i < k. path vb \<noteq> path (a + of_nat (Suc i) * 4096)) \<longrightarrow> translation b pg' vb = translation b pg vb)"

definition unmapped_pages :: "backend \<Rightarrow> paging \<Rightarrow> u64 \<Rightarrow> nat \<Rightarrow> bool" where
  "unmapped_pages b pg a k \<longleftrightarrow> list_all (\<lambda>i. translation b pg (a + of_nat (Suc i) * 4096) = None) [0..<k]"

lemma init_run:
  assumes ok: "backend_ok b n (heap_paging hp)" and k: "Suc k \<le> 2 ^ 36"
    and free: "4 * k \<le> card (free_of b (heap_paging hp))"
    and un: "unmapped_pages b (heap_paging hp) a k"
  shows "\<exists>hp' fs. for_each (init_page b) [0..<k] (a, hp) = Inr (a + of_nat k * 4096, hp') \<and>
    run_mapped b n a (heap_paging hp) k fs (heap_paging hp') \<and>
    MEM_HeapSizeInKiB hp' = MEM_HeapSizeInKiB hp \<and> MEM_HeapStartPointer hp' = MEM_HeapStartPointer hp \<and>
    MEM_CurrentHeapPointer hp' = MEM_CurrentHeapPointer hp"
  using k free un
proof (induction k)
  case 0
  then show ?case using ok by (intro exI [of _ hp] exI [of _ "[]"]) (simp add: run_mapped_def)
next
  case (Suc k)
  let ?pg = "heap_paging hp"
  obtain hp1 fs where run: "for_each (init_page b) [0..<k] (a, hp) = Inr (a + of_nat k * 4096, hp1)"
      and rm: "run_mapped b n a ?pg k fs (heap_paging hp1)"
      and same: "MEM_HeapSizeInKiB hp1 = MEM_HeapSizeInKiB hp" "MEM_HeapStartPointer hp1 = MEM_HeapStartPointer hp"
        "MEM_CurrentHeapPointer hp1 = MEM_CurrentHeapPointer hp"
    using Suc by (auto simp: unmapped_pages_def)
  let ?va = "a + of_nat (Suc k) * 4096"
  have apart: "path ?va \<noteq> path (a + of_nat (Suc i) * 4096)" if "i < k" for i
    using path_pages_distinct [of "Suc k" "Suc i" a] Suc.prems(1) that by (auto simp del: of_nat_Suc)
  have "translation b (heap_paging hp1) ?va = translation b ?pg ?va"
    using rm apart unfolding run_mapped_def by blast
  then have none: "translation b (heap_paging hp1) ?va = None"
    using Suc.prems(3) by (simp add: unmapped_pages_def)
  have "card (free_of b ?pg) \<le> card (free_of b (heap_paging hp1)) + 4 * k" "backend_ok b n (heap_paging hp1)"
    using rm by (simp_all add: run_mapped_def)
  then obtain f pg' where st: "AllocatePageAt b ?va (heap_paging hp1) = Inr (?va, pg')" "backend_ok b n pg'"
      "f \<in> free_of b (heap_paging hp1)" "free_of b pg' \<subseteq> free_of b (heap_paging hp1) - {f}"
      "card (free_of b (heap_paging hp1)) \<le> card (free_of b pg') + 4"
      "translation b pg' ?va = Some (0, f OR PTE_WRITABLE OR PTE_PRESENT)"
      "\<forall>vb. path vb \<noteq> path ?va \<longrightarrow> translation b pg' vb = translation b (heap_paging hp1) vb"
    using AllocatePageAt_maps [of b n "heap_paging hp1" ?va] none Suc.prems(2) by auto
  let ?hp = "say KInfo ''ALLOC: Allocated new heap page at %x'' [?va] (hp1\<lparr>heap_paging := pg'\<rparr>)"
  have va: "a + of_nat k * 4096 + 4096 = ?va" by (simp add: algebra_simps)
  have "for_each (init_page b) [0..<Suc k] (a, hp) = Inr (?va, ?hp)"
    using run st(1) by (simp add: for_each_append init_page_def va del: of_nat_Suc)
  moreover have "run_mapped b n a ?pg (Suc k) (fs @ [f]) pg'"
  proof -
    have "translation b pg' (a + of_nat (Suc i) * 4096) = Some (0, (fs @ [f]) ! i OR PTE_WRITABLE OR PTE_PRESENT)"
      if "i < Suc k" for i
    proof (cases "i = k")
      case True
      then show ?thesis using st(6) rm by (simp add: run_mapped_def nth_append)
    next
      case False
      then have "i < k" using that by simp
      then show ?thesis using st(7) apart [of i] rm by (simp add: run_mapped_def nth_append)
    qed
    moreover have "translation b pg' vb = translation b ?pg vb"
      if "\<forall>i < Suc k. path vb \<noteq> path (a + of_nat (Suc i) * 4096)" for vb
      using that st(7) rm by (simp add: run_mapped_def)
    ultimately show ?thesis using rm st(2-5) unfolding run_mapped_def by auto
  qed
  ultimately show ?case
    using same by (intro exI [of _ ?hp] exI [of _ "fs @ [f]"]) (simp add: say_def)
qed

text \<open>Allocations one after the other.\<close>

fun kmalloc_many :: "backend \<Rightarrow> u64 list \<Rightarrow> heap \<Rightarrow> (u64 list \<times> heap) res" where
  "kmalloc_many b [] hp = Inr ([], hp)"
| "kmalloc_many b (n # ns) hp =
     and_then (kmalloc b n hp) (\<lambda>(p, hp). and_then (kmalloc_many b ns hp) (\<lambda>(ps, hp). Inr (p # ps, hp)))"

lemma kmalloc_inside:
  assumes "MEM_HeapStartPointer hp \<noteq> 0"
    and "unat (MEM_CurrentHeapPointer hp) + unat amount < unat (MEM_HeapEndPointer hp)"
  shows "kmalloc b amount hp = Inr (MEM_CurrentHeapPointer hp,
    hp\<lparr>MEM_CurrentHeapPointer := MEM_CurrentHeapPointer hp + amount\<rparr>)"
proof -
  have "unat (MEM_CurrentHeapPointer hp + amount) = unat (MEM_CurrentHeapPointer hp) + unat amount"
    using assms(2) less_trans [OF assms(2) unat_u64_lt] by (simp add: unat_add64)
  then have "\<not> MEM_HeapEndPointer hp \<le> MEM_CurrentHeapPointer hp + amount"
    using assms(2) by (simp add: word_le_nat_alt)
  then show ?thesis using assms(1) by (simp add: kmalloc_def IsOverflowingHeap_def Let_def)
qed

definition total :: "u64 list \<Rightarrow> nat" where
  "total ns = sum_list (map unat ns)"

lemma kmalloc_many_inside:
  assumes "MEM_HeapStartPointer hp \<noteq> 0"
    and "unat (MEM_CurrentHeapPointer hp) + total ns < unat (MEM_HeapEndPointer hp)"
  shows "kmalloc_many b ns hp =
    Inr (map (\<lambda>i. MEM_CurrentHeapPointer hp + of_nat (total (take i ns))) [0..<length ns],
         hp\<lparr>MEM_CurrentHeapPointer := MEM_CurrentHeapPointer hp + of_nat (total ns)\<rparr>)"
  using assms
proof (induction ns arbitrary: hp)
  case Nil
  then show ?case by (simp add: total_def)
next
  case (Cons n ns)
  let ?c = "MEM_CurrentHeapPointer hp"
  let ?hp = "hp\<lparr>MEM_CurrentHeapPointer := ?c + n\<rparr>"
  have lt: "unat ?c + unat n + total ns < unat (MEM_HeapEndPointer hp)" using Cons.prems(2) by (simp add: total_def)
  then have k: "kmalloc b n hp = Inr (?c, ?hp)" by (intro kmalloc_inside Cons.prems(1)) simp
  have "unat ?c + unat n < 2 ^ 64" using lt less_trans [OF lt unat_u64_lt] by simp
  then have "unat (?c + n) = unat ?c + unat n" by (rule unat_add64)
  then have "kmalloc_many b ns ?hp =
      Inr (map (\<lambda>i. ?c + n + of_nat (total (take i ns))) [0..<length ns],
           ?hp\<lparr>MEM_CurrentHeapPointer := ?c + n + of_nat (total ns)\<rparr>)"
    using Cons.IH [of ?hp] Cons.prems(1) lt by simp
  moreover have "map (\<lambda>i. ?c + of_nat (total (take i (n # ns)))) [0..<length (n # ns)] =
      ?c # map (\<lambda>i. ?c + n + of_nat (total (take i ns))) [0..<length ns]"
    by (simp add: upt_conv_Cons map_Suc_upt [symmetric] total_def add.assoc del: upt_Suc)
  ultimately show ?case using k by (simp add: total_def add.assoc)
qed

section \<open>Properties\<close>

text \<open>C17: with enough frames (a frame and at most three tables per page), the allocator's Init returns with a heap of \<open>N\<close> pages
  from \<^verbatim>\<open>kernel_end\<close> on, of which it has mapped \<open>N - 1\<close>: the pages behind the first, each writable to a frame of its own that was
  free before. Every other translation is as it was, so the page of \<^verbatim>\<open>kernel_end\<close>, where the heap begins, is only mapped if it was
  before; and so is the page of the heap's end, of which the heap has a part when \<^verbatim>\<open>kernel_end\<close> is not on a page boundary.\<close>

theorem heap_Init_maps_pages:
  assumes "backend_ok b n (heap_paging hp)" and "1 \<le> N" and "N < 2 ^ 36"
    and "unat (MEM_HeapSizeInKiB hp div 4096) = N"
    and "4 * (N - 1) \<le> card (free_of b (heap_paging hp))"
    and "unmapped_pages b (heap_paging hp) (kernel_end b) (N - 1)"
  shows "\<exists>hp' fs. heap_Init b hp = Inr hp' \<and>
    MEM_HeapStartPointer hp' = kernel_end b \<and> MEM_CurrentHeapPointer hp' = kernel_end b \<and>
    MEM_HeapEndPointer hp' = kernel_end b + of_nat N * 4096 \<and>
    distinct fs \<and> set fs \<subseteq> free_of b (heap_paging hp) \<and> length fs = N - 1 \<and>
    (\<forall>i < N - 1. translation b (heap_paging hp') (kernel_end b + of_nat (Suc i) * 4096) =
       Some (0, fs ! i OR PTE_WRITABLE OR PTE_PRESENT)) \<and>
    (\<forall>va. (\<forall>i < N - 1. path va \<noteq> path (kernel_end b + of_nat (Suc i) * 4096)) \<longrightarrow>
       translation b (heap_paging hp') va = translation b (heap_paging hp) va) \<and>
    translation b (heap_paging hp') (MEM_HeapStartPointer hp') = translation b (heap_paging hp) (kernel_end b) \<and>
    translation b (heap_paging hp') (MEM_HeapEndPointer hp') = translation b (heap_paging hp) (MEM_HeapEndPointer hp') \<and>
    backend_ok b n (heap_paging hp')"
proof -
  let ?a = "kernel_end b" and ?pages = "MEM_HeapSizeInKiB hp div 4096"
  let ?hp = "(say KInfo ''ALLOC: Inital heap page at %x'' [?a] (say KInfo ''KMALLOC: Initilizing allocator!'' [] hp))
    \<lparr>MEM_HeapStartPointer := ?a, MEM_CurrentHeapPointer := ?a\<rparr>"
  have "?pages \<noteq> 0" using assms(2,4) by auto
  then have u: "unat (?pages - 1) = N - 1" using assms(4) by (simp add: unat_minus_one)
  have pg: "heap_paging ?hp = heap_paging hp" by (simp add: say_def)
  obtain hp1 fs where run: "for_each (init_page b) [0..<N - 1] (?a, ?hp) = Inr (?a + of_nat (N - 1) * 4096, hp1)"
      and rm: "run_mapped b n ?a (heap_paging hp) (N - 1) fs (heap_paging hp1)"
      and f: "MEM_HeapStartPointer hp1 = ?a" "MEM_CurrentHeapPointer hp1 = ?a"
    using init_run [of b n ?hp "N - 1" ?a] assms by (auto simp: pg)
  have e: "?a + of_nat (N - 1) * 4096 + 1024 * 4 = ?a + of_nat N * 4096"
    using assms(2) by (simp add: of_nat_diff algebra_simps)
  have "heap_Init b hp = Inr (hp1\<lparr>MEM_HeapEndPointer := ?a + of_nat N * 4096\<rparr>)"
    using run u e by (simp add: heap_Init_def GetHeapStartPage_def Let_def say_def)
  moreover have "path ?a \<noteq> path (?a + of_nat (Suc i) * 4096)" "path (?a + of_nat N * 4096) \<noteq> path (?a + of_nat (Suc i) * 4096)"
    if "i < N - 1" for i
    using path_pages_distinct [of 0 "Suc i" ?a] path_pages_distinct [of N "Suc i" ?a] assms(3) that by (force simp del: of_nat_Suc)+
  then have "translation b (heap_paging hp1) ?a = translation b (heap_paging hp) ?a"
    "translation b (heap_paging hp1) (?a + of_nat N * 4096) = translation b (heap_paging hp) (?a + of_nat N * 4096)"
    using rm unfolding run_mapped_def by blast+
  ultimately show ?thesis using rm f by (intro exI [of _ "hp1\<lparr>MEM_HeapEndPointer := ?a + of_nat N * 4096\<rparr>"] exI [of _ fs])
      (simp add: run_mapped_def)
qed

text \<open>Two heap pages over the machine of \<open>demo_vm\<close>.\<close>

definition demo_backend :: backend where
  "demo_backend = \<lparr>bk_pmm = demo_vm, bk_cr3 = 0x1000, bk_hhdm = 0x100000, kernel_end = 0xFFFFFFFFC0000000\<rparr>"

lemma demo_pml4: "pml4_of demo_backend = 0x101000"
  by (simp add: pml4_of_def demo_backend_def PTE_ADDRESS_def)

lemma demo_backend_ok: "backend_ok demo_backend 1 demo_paging"
  using demo_pt_ok by (simp add: backend_ok_def demo_pml4) (simp add: demo_backend_def demo_paging_def)

lemma demo_free_of: "card (free_of demo_backend demo_paging) = 4"
  using demo_free_frames by (simp add: free_of_def demo_backend_def demo_paging_def)

lemma demo_translation: "translation demo_backend demo_paging va = None"
  using demo_walk [OF page_path_path]
  by (simp add: translation_def demo_pml4) (simp add: demo_backend_def demo_paging_def)

theorem heap_Init_maps_pages_witness:
  "\<exists>hp'. heap_Init demo_backend (heap_globals 8 demo_paging) = Inr hp' \<and>
    MEM_HeapStartPointer hp' = 0xFFFFFFFFC0000000 \<and> MEM_HeapEndPointer hp' = 0xFFFFFFFFC0002000 \<and>
    translation demo_backend (heap_paging hp') 0xFFFFFFFFC0000000 = None \<and>
    translation demo_backend (heap_paging hp') 0xFFFFFFFFC0001000 \<noteq> None"
proof -
  let ?hp = "heap_globals 8 demo_paging"
  have pg: "heap_paging ?hp = demo_paging" "MEM_HeapSizeInKiB ?hp = 8192" by (simp_all add: heap_globals_def)
  have "unmapped_pages demo_backend demo_paging (kernel_end demo_backend) (2 - 1)"
    by (simp add: unmapped_pages_def demo_translation)
  then obtain hp' fs where hp': "heap_Init demo_backend ?hp = Inr hp'" "MEM_HeapStartPointer hp' = kernel_end demo_backend"
      "MEM_HeapEndPointer hp' = kernel_end demo_backend + of_nat 2 * 4096"
      "\<forall>i < 2 - 1. translation demo_backend (heap_paging hp') (kernel_end demo_backend + of_nat (Suc i) * 4096) =
        Some (0, fs ! i OR PTE_WRITABLE OR PTE_PRESENT)"
      "translation demo_backend (heap_paging hp') (MEM_HeapStartPointer hp') = None"
    using heap_Init_maps_pages [of demo_backend 1 ?hp 2] demo_backend_ok demo_free_of demo_translation by (auto simp: pg)
  have k: "kernel_end demo_backend = 0xFFFFFFFFC0000000" by (simp add: demo_backend_def)
  show ?thesis using hp' spec [OF hp'(4), of 0] unfolding k by simp
qed

text \<open>C18: while they fit strictly below the end of the heap, any sequence of kmalloc calls succeeds without
  mapping anything; the blocks are laid end to end from the current pointer, so they do not overlap.\<close>

theorem kmalloc_lays_blocks_end_to_end:
  assumes "MEM_HeapStartPointer hp \<noteq> 0"
    and "unat (MEM_CurrentHeapPointer hp) + total ns < unat (MEM_HeapEndPointer hp)"
  shows "kmalloc_many b ns hp =
    Inr (map (\<lambda>i. MEM_CurrentHeapPointer hp + of_nat (total (take i ns))) [0..<length ns],
         hp\<lparr>MEM_CurrentHeapPointer := MEM_CurrentHeapPointer hp + of_nat (total ns)\<rparr>)"
  by (rule kmalloc_many_inside [OF assms])

definition small_heap :: heap where
  "small_heap = (heap_globals 8 demo_paging)\<lparr>MEM_HeapStartPointer := 0x1000, MEM_CurrentHeapPointer := 0x1000,
     MEM_HeapEndPointer := 0x2000\<rparr>"

theorem kmalloc_lays_blocks_end_to_end_witness:
  "\<exists>hp'. kmalloc_many demo_backend [16, 8, 100] small_heap = Inr ([0x1000, 0x1010, 0x1018], hp') \<and>
    MEM_CurrentHeapPointer hp' = 0x107C"
proof -
  have "kmalloc_many demo_backend [16, 8, 100] small_heap =
    Inr (map (\<lambda>i. 0x1000 + of_nat (total (take i [16, 8, 100]))) [0..<length [16 :: u64, 8, 100]],
         small_heap\<lparr>MEM_CurrentHeapPointer := 0x1000 + of_nat (total [16, 8, 100])\<rparr>)"
    using kmalloc_lays_blocks_end_to_end [of small_heap "[16, 8, 100]" demo_backend]
    by (simp add: small_heap_def total_def del: kmalloc_many.simps)
  moreover have "[0..<length [16 :: u64, 8, 100]] = [0, 1, 2]" by (simp add: upt_rec)
  ultimately show ?thesis by (simp add: total_def small_heap_def del: kmalloc_many.simps)
qed

text \<open>C40: when kmalloc grows the heap by a page it maps the page after the old end instead of the one
  at it: the heap's end moves up by a page and the page at the old end, now inside the heap,
  is still unmapped.\<close>

theorem kmalloc_growth_leaves_hole:
  assumes "backend_ok b n (heap_paging hp)" and "4 \<le> card (free_of b (heap_paging hp))"
    and "MEM_HeapStartPointer hp \<noteq> 0" and "truthy (IsOverflowingHeap amount hp)"
    and "0 < unat amount" and "unat amount \<le> 4096"
    and "translation b (heap_paging hp) (MEM_HeapEndPointer hp) = None"
    and "translation b (heap_paging hp) (MEM_HeapEndPointer hp + 4096) = None"
  shows "\<exists>hp'. kmalloc b amount hp = Inr (MEM_CurrentHeapPointer hp, hp') \<and>
    MEM_HeapEndPointer hp' = MEM_HeapEndPointer hp + 4096 \<and>
    translation b (heap_paging hp') (MEM_HeapEndPointer hp) = None \<and>
    translation b (heap_paging hp') (MEM_HeapEndPointer hp + 4096) \<noteq> None"
proof -
  let ?e = "MEM_HeapEndPointer hp"
  have "unat (amount + 4095) = unat amount + 4095" using assms(6) by (simp add: unat_word_ariths)
  then have "unat ((amount + 4095) div 4096) = (unat amount + 4095) div 4096" by (simp add: unat_div_distrib)
  also have "(unat amount + 4095) div 4096 = 1"
  proof -
    have "4096 \<le> unat amount + 4095" "unat amount + 4095 < 2 * 4096" using assms(5,6) by simp_all
    then show ?thesis by (simp add: div_nat_eqI)
  qed
  finally have one: "[0..<unat ((amount + 4095) div 4096)] = [0]" by simp
  have apart: "path ?e \<noteq> path (?e + 4096)" using path_pages_distinct [of 0 1 ?e] by auto
  obtain f pg' where "AllocatePageAt b (?e + 4096) (heap_paging hp) = Inr (?e + 4096, pg')"
      "translation b pg' (?e + 4096) = Some (0, f OR PTE_WRITABLE OR PTE_PRESENT)"
      "\<forall>vb. path vb \<noteq> path (?e + 4096) \<longrightarrow> translation b pg' vb = translation b (heap_paging hp) vb"
    using AllocatePageAt_maps [OF assms(1,2,8)] by blast
  then show ?thesis
    using assms(3,4,7) apart by (simp add: kmalloc_def one grow_page_def say_def Let_def)
qed

theorem kmalloc_growth_leaves_hole_witness:
  "\<exists>hp'. kmalloc demo_backend 0x1000 small_heap = Inr (0x1000, hp') \<and> MEM_HeapEndPointer hp' = 0x3000 \<and>
    translation demo_backend (heap_paging hp') 0x2000 = None"
proof -
  have h: "heap_paging small_heap = demo_paging" "MEM_HeapEndPointer small_heap = 0x2000"
    "MEM_CurrentHeapPointer small_heap = 0x1000" "MEM_HeapStartPointer small_heap = 0x1000"
    by (simp_all add: small_heap_def heap_globals_def)
  have "truthy (IsOverflowingHeap 0x1000 small_heap)" by (simp add: IsOverflowingHeap_def h)
  then show ?thesis
    using kmalloc_growth_leaves_hole [of demo_backend 1 small_heap "0x1000"] demo_backend_ok demo_free_of
    by (auto simp: h demo_translation)
qed

end
