(* ===== verification/Vfs.thy ===== *)
theory Vfs
  imports Utils Errno
begin

text \<open>
  The mount table, \<^verbatim>\<open>kernel/block/vfs.cpp\<close>: 32 slots of a prefix string and a
  filesystem, a counter of the slots given out, mount and unmount. The contract \<open>mount_table\<close> is what the
  table is meant to do; the model meets it only where the null page reads
  as a zero byte, because the search compares the prefix with the null pointers of empty
  slots. Where the null page is unmapped, as in the kernel, every search for a new prefix faults and no mount succeeds.
\<close>

section \<open>State\<close>

definition KRNL_MAX_MOUNTS :: nat where
  "KRNL_MAX_MOUNTS = 32"

record MountedFS =
  mnt_prefix :: u64
  mnt_fs :: u64

definition no_fs :: MountedFS where
  "no_fs = \<lparr>mnt_prefix = 0, mnt_fs = 0\<rparr>"

text \<open>
  The globals of vfs.cpp, the memory its string pointers reach, and the address of the
  literal \<^verbatim>\<open>"/"\<close>.
\<close>

record vfs =
  MountedFilesystems :: "MountedFS list"
  MountedFSIndex :: u8
  vfs_mem :: mem
  root_literal :: u64
  vfs_log :: "log_event list"

definition vfs_start :: "mem \<Rightarrow> u64 \<Rightarrow> vfs" where
  "vfs_start m lit = \<lparr>MountedFilesystems = replicate KRNL_MAX_MOUNTS no_fs, MountedFSIndex = 0,
     vfs_mem = m, root_literal = lit, vfs_log = []\<rparr>"

definition vfs_error :: "string \<Rightarrow> u64 list \<Rightarrow> vfs \<Rightarrow> vfs" where
  "vfs_error s args v = v\<lparr>vfs_log := vfs_log v @ [(KError, s, args)]\<rparr>"

section \<open>Code\<close>

fun mounted_scan :: "mem \<Rightarrow> u64 \<Rightarrow> MountedFS list \<Rightarrow> bl res" where
  "mounted_scan m p [] = Inr kfalse"
| "mounted_scan m p (f # fs) =
     and_then (strcmp m p (mnt_prefix f)) (\<lambda>eq. if truthy eq then Inr ktrue else mounted_scan m p fs)"

definition AllreadyMounted :: "u64 \<Rightarrow> vfs \<Rightarrow> bl res" where
  "AllreadyMounted p v = mounted_scan (vfs_mem v) p (MountedFilesystems v)"

definition mount :: "u64 \<Rightarrow> u64 \<Rightarrow> vfs \<Rightarrow> (int \<times> vfs) res" where
  "mount p fs v =
     (if p = 0 then Inr (EINVAL, v)
      else if unat (MountedFSIndex v) + 1 \<ge> KRNL_MAX_MOUNTS then
        Inr (- ENFILE, vfs_error ''VFS: Attempt to mount more partitons than allowed! KRNL_MAX_MOUNTS: %u, prefix: %s, filesystem: %x''
               [of_nat KRNL_MAX_MOUNTS, p, fs] v)
      else
        and_then (AllreadyMounted p v) (\<lambda>found.
          if truthy found then
            Inr (- EEXIST, vfs_error (''VFS: A partition is allready mounted at '' @ [CHR 0x27] @ ''%s'' @ [CHR 0x27]) [p] v)
          else
            Inr (- SUCCESS, v\<lparr>MountedFilesystems :=
                   (MountedFilesystems v)[unat (MountedFSIndex v) := \<lparr>mnt_prefix = p, mnt_fs = fs\<rparr>],
                 MountedFSIndex := MountedFSIndex v + 1\<rparr>)))"

text \<open>The clearing loop of unmount.\<close>

definition clear_slot :: "u64 \<Rightarrow> nat \<Rightarrow> vfs \<Rightarrow> vfs res" where
  "clear_slot p i v =
     and_then (strcmp (vfs_mem v) p (mnt_prefix (MountedFilesystems v ! i))) (\<lambda>eq.
       if truthy eq then Inr (v\<lparr>MountedFilesystems := (MountedFilesystems v)[i := no_fs]\<rparr>) else Inr v)"

definition unmount :: "u64 \<Rightarrow> vfs \<Rightarrow> (int \<times> vfs) res" where
  "unmount p v =
     (if p = 0 then Inr (EINVAL, v)
      else
        and_then (AllreadyMounted p v) (\<lambda>found.
          if \<not> truthy found then Inr (- ENOENT, vfs_error ''Cannot unmount non mounted prefix %s'' [p] v)
          else
            and_then (strcmp (vfs_mem v) p (root_literal v)) (\<lambda>is_root.
              if truthy is_root then Inr (- EBUSY, vfs_error ''Attempt to unmount root!'' [] v)
              else
                and_then (for_each (clear_slot p) [0..<KRNL_MAX_MOUNTS] v) (\<lambda>v. Inr (- SUCCESS, v)))))"

section \<open>What a mount table promises\<close>

text \<open>
  Over the set of mounted prefixes: lookup is membership, mounting a new prefix adds it,
  unmounting removes it. The client lemmas are the ones a user of the table needs.
\<close>

locale mount_table =
  fixes ok :: "'v \<Rightarrow> bool" and mounts :: "'v \<Rightarrow> 'k set" and has_room :: "'v \<Rightarrow> bool"
    and valid :: "'v \<Rightarrow> 'k \<Rightarrow> 'p \<Rightarrow> bool" and permanent :: "'k \<Rightarrow> bool"
    and lookup :: "'p \<Rightarrow> 'v \<Rightarrow> bl res"
    and add :: "'p \<Rightarrow> 'f \<Rightarrow> 'v \<Rightarrow> (int \<times> 'v) res" and remove :: "'p \<Rightarrow> 'v \<Rightarrow> (int \<times> 'v) res"
  assumes lookup_iff: "ok v \<Longrightarrow> valid v k p \<Longrightarrow> lookup p v = Inr (to_bl (k \<in> mounts v))"
    and add_new: "ok v \<Longrightarrow> valid v k p \<Longrightarrow> k \<notin> mounts v \<Longrightarrow> has_room v \<Longrightarrow>
      \<exists>v'. add p f v = Inr (0, v') \<and> ok v' \<and> mounts v' = insert k (mounts v) \<and> valid v' = valid v"
    and add_old: "ok v \<Longrightarrow> valid v k p \<Longrightarrow> k \<in> mounts v \<Longrightarrow> has_room v \<Longrightarrow>
      \<exists>v'. add p f v = Inr (- EEXIST, v') \<and> mounts v' = mounts v"
    and remove_old: "ok v \<Longrightarrow> valid v k p \<Longrightarrow> k \<in> mounts v \<Longrightarrow> \<not> permanent k \<Longrightarrow>
      \<exists>v'. remove p v = Inr (0, v') \<and> ok v' \<and> mounts v' = mounts v - {k} \<and> valid v' = valid v"
    and remove_new: "ok v \<Longrightarrow> valid v k p \<Longrightarrow> k \<notin> mounts v \<Longrightarrow>
      \<exists>v'. remove p v = Inr (- ENOENT, v') \<and> mounts v' = mounts v"
begin

lemma add_then_lookup:
  assumes "ok v" "valid v k p" "k \<notin> mounts v" "has_room v"
  shows "\<exists>v'. add p f v = Inr (0, v') \<and> lookup p v' = Inr ktrue"
proof -
  obtain v' where v': "add p f v = Inr (0, v')" "ok v'" "mounts v' = insert k (mounts v)" "valid v' = valid v"
    using add_new [OF assms] by blast
  then show ?thesis using lookup_iff [of v' k p] assms(2) by (auto simp: to_bl_def)
qed

lemma add_then_remove:
  assumes "ok v" "valid v k p" "k \<notin> mounts v" "has_room v" "\<not> permanent k"
  shows "\<exists>v' v''. add p f v = Inr (0, v') \<and> remove p v' = Inr (0, v'') \<and> mounts v'' = mounts v \<and>
    lookup p v'' = Inr kfalse"
proof -
  obtain v' where v': "add p f v = Inr (0, v')" "ok v'" "mounts v' = insert k (mounts v)" "valid v' = valid v"
    using add_new [OF assms(1-4)] by blast
  then have k: "valid v' k p" "k \<in> mounts v'" using assms(2) by simp_all
  obtain v'' where v'': "remove p v' = Inr (0, v'')" "ok v''" "mounts v'' = mounts v' - {k}" "valid v'' = valid v'"
    using remove_old [OF v'(2) k assms(5)] by blast
  then have "valid v'' k p" using k by simp
  then show ?thesis using v' v'' assms(3) lookup_iff [OF v''(2), of k p] by (auto simp: to_bl_def)
qed

end

section \<open>The table where the null page reads as zero\<close>

text \<open>
  Every slot is empty or holds a string other than the empty one, no string twice, and the slots not yet
  given out are empty.
\<close>

definition slot_string :: "mem \<Rightarrow> MountedFS \<Rightarrow> u8 list \<Rightarrow> bool" where
  "slot_string m f s \<longleftrightarrow> mnt_prefix f \<noteq> 0 \<and> s \<noteq> [] \<and> cstring_at m (mnt_prefix f) s"

definition mounted_set :: "vfs \<Rightarrow> u8 list set" where
  "mounted_set v = {s. \<exists>f \<in> set (MountedFilesystems v). slot_string (vfs_mem v) f s}"

definition null_page_zero :: "mem \<Rightarrow> bool" where
  "null_page_zero m \<longleftrightarrow> m 0 = Some 0"

definition vfs_ok :: "vfs \<Rightarrow> bool" where
  "vfs_ok v \<longleftrightarrow> null_page_zero (vfs_mem v) \<and> length (MountedFilesystems v) = KRNL_MAX_MOUNTS \<and>
     cstring_at (vfs_mem v) (root_literal v) [47] \<and>
     (\<forall>f \<in> set (MountedFilesystems v). f = no_fs \<or> (\<exists>s. slot_string (vfs_mem v) f s)) \<and>
     (\<forall>i < KRNL_MAX_MOUNTS. unat (MountedFSIndex v) \<le> i \<longrightarrow> MountedFilesystems v ! i = no_fs)"

definition prefix_ok :: "vfs \<Rightarrow> u8 list \<Rightarrow> u64 \<Rightarrow> bool" where
  "prefix_ok v s p \<longleftrightarrow> p \<noteq> 0 \<and> s \<noteq> [] \<and> cstring_at (vfs_mem v) p s"

lemma cstring_unique: "cstring_at m p s \<Longrightarrow> cstring_at m p t \<Longrightarrow> s = t"
proof (induction s arbitrary: p t)
  case Nil
  then show ?case by (cases t) auto
next
  case (Cons c s)
  then show ?case by (cases t) auto
qed

lemma strcmp_slot:
  assumes "null_page_zero m" and "s \<noteq> []" and "cstring_at m p s" and "f = no_fs \<or> (\<exists>t. slot_string m f t)"
  shows "strcmp m p (mnt_prefix f) = Inr (to_bl (slot_string m f s))"
proof (cases "f = no_fs")
  case True
  have "cstring_at m 0 []" using assms(1) by (simp add: null_page_zero_def)
  then show ?thesis using strcmp_result [OF assms(3), of 0 "[]"] assms(2) True by (simp add: no_fs_def slot_string_def)
next
  case False
  then obtain t where t: "slot_string m f t" using assms(4) by blast
  then have "slot_string m f s \<longleftrightarrow> s = t" using cstring_unique assms(2) by (auto simp: slot_string_def)
  then show ?thesis using strcmp_result [OF assms(3)] t by (simp add: slot_string_def)
qed

lemma mounted_scan_result:
  assumes "null_page_zero m" "s \<noteq> []" "cstring_at m p s"
  shows "\<forall>f \<in> set fs. f = no_fs \<or> (\<exists>t. slot_string m f t) \<Longrightarrow>
    mounted_scan m p fs = Inr (to_bl (\<exists>f \<in> set fs. slot_string m f s))"
proof (induction fs)
  case Nil
  then show ?case by (simp add: to_bl_def)
next
  case (Cons f fs)
  then show ?case using strcmp_slot [OF assms, of f] by (simp add: to_bl_def)
qed

lemma AllreadyMounted_iff:
  assumes "vfs_ok v" and "prefix_ok v s p"
  shows "AllreadyMounted p v = Inr (to_bl (s \<in> mounted_set v))"
  using mounted_scan_result [of "vfs_mem v" s p "MountedFilesystems v"] assms
  by (simp add: AllreadyMounted_def vfs_ok_def prefix_ok_def mounted_set_def)

lemma no_fs_string [simp]: "\<not> slot_string m no_fs s"
  by (simp add: slot_string_def no_fs_def)

lemma mount_new:
  assumes ok: "vfs_ok v" and p: "prefix_ok v s p" and new: "s \<notin> mounted_set v"
    and room: "unat (MountedFSIndex v) + 1 < KRNL_MAX_MOUNTS"
  shows "\<exists>v'. mount p fs v = Inr (0, v') \<and> vfs_ok v' \<and> mounted_set v' = insert s (mounted_set v) \<and>
    prefix_ok v' = prefix_ok v \<and> MountedFSIndex v' = MountedFSIndex v + 1"
proof -
  let ?i = "unat (MountedFSIndex v)" and ?f = "\<lparr>mnt_prefix = p, mnt_fs = fs\<rparr>"
  let ?v = "v\<lparr>MountedFilesystems := (MountedFilesystems v)[?i := ?f], MountedFSIndex := MountedFSIndex v + 1\<rparr>"
  have l: "length (MountedFilesystems v) = KRNL_MAX_MOUNTS" "?i < KRNL_MAX_MOUNTS"
    using ok room by (simp_all add: vfs_ok_def)
  have empty: "MountedFilesystems v ! ?i = no_fs" using ok l(2) by (simp add: vfs_ok_def)
  have u: "unat (MountedFSIndex v + 1) = ?i + 1"
    using room by (simp add: KRNL_MAX_MOUNTS_def unat_word_ariths)
  have f: "slot_string (vfs_mem v) ?f t \<longleftrightarrow> t = s" for t
    using p cstring_unique by (auto simp: slot_string_def prefix_ok_def)
  have mem: "g \<in> set ((MountedFilesystems v)[?i := ?f]) \<longleftrightarrow>
      g = ?f \<or> (\<exists>j < KRNL_MAX_MOUNTS. j \<noteq> ?i \<and> g = MountedFilesystems v ! j)" for g
  proof
    assume "g \<in> set ((MountedFilesystems v)[?i := ?f])"
    then show "g = ?f \<or> (\<exists>j < KRNL_MAX_MOUNTS. j \<noteq> ?i \<and> g = MountedFilesystems v ! j)"
      using l by (auto simp: in_set_conv_nth nth_list_update split: if_splits)
  next
    assume "g = ?f \<or> (\<exists>j < KRNL_MAX_MOUNTS. j \<noteq> ?i \<and> g = MountedFilesystems v ! j)"
    then obtain j where "j < KRNL_MAX_MOUNTS" "(MountedFilesystems v)[?i := ?f] ! j = g"
      using l by (metis nth_list_update_eq nth_list_update_neq)
    then show "g \<in> set ((MountedFilesystems v)[?i := ?f])" using l(1) by (metis length_list_update nth_mem)
  qed
  have old: "g \<in> set (MountedFilesystems v) \<longleftrightarrow> (\<exists>j < KRNL_MAX_MOUNTS. g = MountedFilesystems v ! j)" for g
    using l by (auto simp: in_set_conv_nth)
  have "mounted_set ?v = insert s (mounted_set v)"
  proof (rule set_eqI)
    fix t
    have "t \<in> mounted_set ?v \<longleftrightarrow> t = s \<or> (\<exists>j < KRNL_MAX_MOUNTS. j \<noteq> ?i \<and> slot_string (vfs_mem v) (MountedFilesystems v ! j) t)"
      unfolding mounted_set_def Bex_def using f by (simp add: mem) blast
    also have "\<dots> \<longleftrightarrow> t = s \<or> (\<exists>j < KRNL_MAX_MOUNTS. slot_string (vfs_mem v) (MountedFilesystems v ! j) t)"
      using empty no_fs_string by metis
    also have "\<dots> \<longleftrightarrow> t \<in> insert s (mounted_set v)"
      unfolding mounted_set_def Bex_def by (simp add: old) blast
    finally show "t \<in> mounted_set ?v \<longleftrightarrow> t \<in> insert s (mounted_set v)" .
  qed
  moreover have "vfs_ok ?v"
  proof -
    have "g = no_fs \<or> (\<exists>t. slot_string (vfs_mem v) g t)" if "g \<in> set ((MountedFilesystems v)[?i := ?f])" for g
      using that f ok old [of g] unfolding mem vfs_ok_def by blast
    then show ?thesis using ok u l by (auto simp: vfs_ok_def nth_list_update)
  qed
  moreover have "mount p fs v = Inr (0, ?v)"
    using p new room AllreadyMounted_iff [OF ok p] by (simp add: mount_def prefix_ok_def SUCCESS_def)
  ultimately show ?thesis by (auto simp: prefix_ok_def fun_eq_iff)
qed

text \<open>What the clearing loop has done after its first \<open>k\<close> turns.\<close>

definition clear_slots :: "mem \<Rightarrow> u8 list \<Rightarrow> MountedFS list \<Rightarrow> nat \<Rightarrow> MountedFS list" where
  "clear_slots m s fs k = map (\<lambda>i. if i < k \<and> slot_string m (fs ! i) s then no_fs else fs ! i) [0..<length fs]"

lemma clear_loop:
  assumes ok: "vfs_ok v" and p: "prefix_ok v s p"
  shows "k \<le> KRNL_MAX_MOUNTS \<Longrightarrow> for_each (clear_slot p) [0..<k] v =
    Inr (v\<lparr>MountedFilesystems := clear_slots (vfs_mem v) s (MountedFilesystems v) k\<rparr>)"
proof (induction k)
  case 0
  have "clear_slots (vfs_mem v) s (MountedFilesystems v) 0 = MountedFilesystems v"
    by (simp add: clear_slots_def map_nth)
  then show ?case by simp
next
  case (Suc k)
  let ?fs = "MountedFilesystems v" and ?c = "clear_slots (vfs_mem v) s (MountedFilesystems v)"
  have l: "length ?fs = KRNL_MAX_MOUNTS" "k < KRNL_MAX_MOUNTS" using ok Suc.prems by (simp_all add: vfs_ok_def)
  have nth: "?c k ! k = ?fs ! k" using l by (simp add: clear_slots_def)
  have "strcmp (vfs_mem v) p (mnt_prefix (?fs ! k)) = Inr (to_bl (slot_string (vfs_mem v) (?fs ! k) s))"
    using strcmp_slot [of "vfs_mem v" s p "?fs ! k"] ok p l by (simp add: vfs_ok_def prefix_ok_def)
  moreover have "?c (Suc k) = (if slot_string (vfs_mem v) (?fs ! k) s then (?c k)[k := no_fs] else ?c k)"
    using l by (auto simp: clear_slots_def list_eq_iff_nth_eq nth_list_update less_Suc_eq)
  ultimately show ?case using Suc by (simp add: for_each_append clear_slot_def nth)
qed

lemma unmount_old:
  assumes ok: "vfs_ok v" and p: "prefix_ok v s p" and old: "s \<in> mounted_set v" and root: "s \<noteq> [47]"
  shows "\<exists>v'. unmount p v = Inr (0, v') \<and> vfs_ok v' \<and> mounted_set v' = mounted_set v - {s} \<and>
    prefix_ok v' = prefix_ok v \<and> MountedFSIndex v' = MountedFSIndex v"
proof -
  let ?m = "vfs_mem v" and ?fs = "MountedFilesystems v"
  let ?c = "clear_slots ?m s ?fs KRNL_MAX_MOUNTS"
  let ?v = "v\<lparr>MountedFilesystems := ?c\<rparr>"
  have l: "length ?fs = KRNL_MAX_MOUNTS" using ok by (simp add: vfs_ok_def)
  have c: "?c = map (\<lambda>f. if slot_string ?m f s then no_fs else f) ?fs"
    using l by (simp add: clear_slots_def list_eq_iff_nth_eq)
  have "strcmp ?m p (root_literal v) = Inr kfalse"
    using strcmp_result [of ?m p s "root_literal v" "[47]"] ok p root
    by (simp add: vfs_ok_def prefix_ok_def to_bl_def)
  then have "unmount p v = Inr (0, ?v)"
    using p old AllreadyMounted_iff [OF ok p] clear_loop [OF ok p order_refl]
    by (simp add: unmount_def prefix_ok_def SUCCESS_def)
  moreover have one: "t = s" if "slot_string ?m f s" "slot_string ?m f t" for f t
    using that cstring_unique by (auto simp: slot_string_def)
  then have "mounted_set ?v = mounted_set v - {s}" unfolding mounted_set_def c by auto
  moreover have "vfs_ok ?v" using ok unfolding vfs_ok_def c by auto
  ultimately show ?thesis by (auto simp: prefix_ok_def fun_eq_iff)
qed

interpretation vfs_table: mount_table vfs_ok mounted_set "\<lambda>v. unat (MountedFSIndex v) + 1 < KRNL_MAX_MOUNTS"
  prefix_ok "\<lambda>s. s = [47]" AllreadyMounted mount unmount
proof unfold_locales
  fix v s p fs
  assume ok: "vfs_ok v" and p: "prefix_ok v s p"
  note found = AllreadyMounted_iff [OF ok p]
  show "AllreadyMounted p v = Inr (to_bl (s \<in> mounted_set v))" by fact
  show "\<exists>v'. mount p fs v = Inr (0, v') \<and> vfs_ok v' \<and> mounted_set v' = insert s (mounted_set v) \<and> prefix_ok v' = prefix_ok v"
    if "s \<notin> mounted_set v" "unat (MountedFSIndex v) + 1 < KRNL_MAX_MOUNTS"
    using mount_new [OF ok p that] by blast
  show "\<exists>v'. mount p fs v = Inr (- EEXIST, v') \<and> mounted_set v' = mounted_set v"
    if "s \<in> mounted_set v" "unat (MountedFSIndex v) + 1 < KRNL_MAX_MOUNTS"
    using that p found by (auto simp: mount_def prefix_ok_def vfs_error_def mounted_set_def)
  show "\<exists>v'. unmount p v = Inr (0, v') \<and> vfs_ok v' \<and> mounted_set v' = mounted_set v - {s} \<and> prefix_ok v' = prefix_ok v"
    if "s \<in> mounted_set v" "s \<noteq> [47]"
    using unmount_old [OF ok p that] by blast
  show "\<exists>v'. unmount p v = Inr (- ENOENT, v') \<and> mounted_set v' = mounted_set v" if "s \<notin> mounted_set v"
    using that p found by (auto simp: unmount_def prefix_ok_def vfs_error_def mounted_set_def)
qed

section \<open>The table where the null page is unmapped\<close>

lemma mounted_scan_null:
  assumes "m 0 = None" and "cstring_at m p s"
  shows "\<forall>f \<in> set used. \<exists>t. t \<noteq> s \<and> cstring_at m (mnt_prefix f) t \<Longrightarrow>
    mounted_scan m p (used @ no_fs # rest) = Inl (PageFault 0)"
proof (induction used)
  case Nil
  have "m p \<noteq> None" using cstring_at_first [OF assms(2)] by auto
  then show ?case using strcmp_second_unmapped [of m p 0] assms(1) by (simp add: no_fs_def)
next
  case (Cons f used)
  then obtain t where "t \<noteq> s" "cstring_at m (mnt_prefix f) t" by auto
  then show ?case using Cons strcmp_result [OF assms(2)] by (simp add: to_bl_def)
qed

section \<open>Runs of operations\<close>

datatype vfs_op = Do_mount u64 u64 | Do_unmount u64

fun vfs_do :: "vfs_op \<Rightarrow> vfs \<Rightarrow> (int \<times> vfs) res" where
  "vfs_do (Do_mount p fs) v = mount p fs v"
| "vfs_do (Do_unmount p) v = unmount p v"

fun vfs_run :: "vfs_op list \<Rightarrow> vfs \<Rightarrow> (int list \<times> vfs) res" where
  "vfs_run [] v = Inr ([], v)"
| "vfs_run (q # qs) v =
     and_then (vfs_do q v) (\<lambda>(r, v). and_then (vfs_run qs v) (\<lambda>(rs, v). Inr (r # rs, v)))"

text \<open>How many of the mounts reported success.\<close>

fun mounts_done :: "vfs_op list \<Rightarrow> int list \<Rightarrow> nat" where
  "mounts_done (Do_mount p fs # qs) (r # rs) = (if r = 0 then 1 else 0) + mounts_done qs rs"
| "mounts_done (Do_unmount p # qs) (r # rs) = mounts_done qs rs"
| "mounts_done _ _ = 0"

lemma clear_slot_index:
  "clear_slot p i v = Inr v' \<Longrightarrow> MountedFSIndex v' = MountedFSIndex v"
  by (auto simp: clear_slot_def and_then_eq_Inr split: if_splits)

lemma mount_index:
  assumes "mount p fs v = Inr (r, v')" and "unat (MountedFSIndex v) < KRNL_MAX_MOUNTS"
  shows "unat (MountedFSIndex v') = unat (MountedFSIndex v) + (if r = 0 then 1 else 0) \<and>
    unat (MountedFSIndex v') < KRNL_MAX_MOUNTS"
proof -
  have u: "unat (MountedFSIndex v + 1) = Suc (unat (MountedFSIndex v))"
    using assms(2) by (simp add: KRNL_MAX_MOUNTS_def unat_word_ariths)
  show ?thesis
    using assms u
    by (auto simp: mount_def and_then_eq_Inr vfs_error_def errno_values split: if_splits)
qed

lemma unmount_index:
  assumes "unmount p v = Inr (r, v')"
  shows "MountedFSIndex v' = MountedFSIndex v"
proof -
  have "MountedFSIndex w = MountedFSIndex v" if "for_each (clear_slot p) [0..<KRNL_MAX_MOUNTS] v = Inr w" for w
    by (rule for_each_invariant [OF that, of "\<lambda>w. MountedFSIndex w = MountedFSIndex v"])
      (auto dest: clear_slot_index)
  then show ?thesis
    using assms by (auto simp: unmount_def and_then_eq_Inr vfs_error_def split: if_splits)
qed

lemma vfs_run_index:
  "vfs_run qs v = Inr (rs, v') \<Longrightarrow> unat (MountedFSIndex v) < KRNL_MAX_MOUNTS \<Longrightarrow>
   unat (MountedFSIndex v') = unat (MountedFSIndex v) + mounts_done qs rs \<and>
   unat (MountedFSIndex v') < KRNL_MAX_MOUNTS"
proof (induction qs arbitrary: v rs)
  case Nil
  then show ?case by simp
next
  case (Cons q qs)
  then obtain r v1 rs' where step: "vfs_do q v = Inr (r, v1)" "vfs_run qs v1 = Inr (rs', v')" "rs = r # rs'"
    by (auto simp: and_then_eq_Inr)
  show ?case
  proof (cases q)
    case (Do_mount p fs)
    then have "mount p fs v = Inr (r, v1)" using step(1) by simp
    note m = mount_index [OF this Cons.prems(2)]
    then show ?thesis using Cons.IH [OF step(2)] step(3) Do_mount by simp
  next
    case (Do_unmount p)
    then have "MountedFSIndex v1 = MountedFSIndex v" using step(1) unmount_index by simp
    then show ?thesis using Cons.IH [OF step(2)] Cons.prems(2) step(3) Do_unmount by simp
  qed
qed

section \<open>Properties\<close>

text \<open>The intended behaviour, where the null page reads as zero (in the kernel it does not): a new prefix can be mounted while there is
  room, is then found, can be unmounted unless it is the root, and is then gone, with the set of mounted prefixes as before.\<close>

lemma mount_unmount_roundtrip:
  assumes "vfs_ok v" and "prefix_ok v s p" and "s \<notin> mounted_set v"
    and "unat (MountedFSIndex v) + 1 < KRNL_MAX_MOUNTS" and "s \<noteq> [47]"
  shows "\<exists>v' v''. mount p fs v = Inr (0, v') \<and> AllreadyMounted p v' = Inr ktrue \<and>
    unmount p v' = Inr (0, v'') \<and> mounted_set v'' = mounted_set v \<and> AllreadyMounted p v'' = Inr kfalse"
proof -
  obtain v' where "mount p fs v = Inr (0, v')" "AllreadyMounted p v' = Inr ktrue"
    using vfs_table.add_then_lookup [OF assms(1-4)] by blast
  moreover obtain w v'' where "mount p fs v = Inr (0, w)" "unmount p w = Inr (0, v'')"
      "mounted_set v'' = mounted_set v" "AllreadyMounted p v'' = Inr kfalse"
    using vfs_table.add_then_remove [OF assms] by blast
  ultimately show ?thesis by auto
qed

text \<open>A memory with the strings \<^verbatim>\<open>/\<close> and \<^verbatim>\<open>/d\<close>, with and without a null page.\<close>

definition vfs_mem0 :: mem where
  "vfs_mem0 = map_of [(0x10, 47), (0x11, 0), (0x20, 47), (0x21, 100), (0x22, 0)]"

lemma vfs_start_ok: "vfs_ok (vfs_start (vfs_mem0(0 \<mapsto> 0)) 0x10)"
  by (simp add: vfs_ok_def vfs_start_def null_page_zero_def vfs_mem0_def)

lemma mount_unmount_roundtrip_witness:
  "\<exists>v' v''. mount 0x20 7 (vfs_start (vfs_mem0(0 \<mapsto> 0)) 0x10) = Inr (0, v') \<and>
    AllreadyMounted 0x20 v' = Inr ktrue \<and> unmount 0x20 v' = Inr (0, v'') \<and> AllreadyMounted 0x20 v'' = Inr kfalse"
proof -
  let ?v = "vfs_start (vfs_mem0(0 \<mapsto> 0)) 0x10"
  have "prefix_ok ?v [47, 100] 0x20" by (simp add: prefix_ok_def vfs_start_def vfs_mem0_def)
  moreover have "[47, 100] \<notin> mounted_set ?v" by (simp add: mounted_set_def vfs_start_def)
  moreover have "unat (MountedFSIndex ?v) + 1 < KRNL_MAX_MOUNTS" by (simp add: vfs_start_def KRNL_MAX_MOUNTS_def)
  ultimately show ?thesis using mount_unmount_roundtrip [OF vfs_start_ok] by fastforce
qed

text \<open>With the null page unmapped, mounting a prefix that is not in the slots before the first empty
  one faults at address 0, and so does unmounting it: in particular the very first mount.\<close>

lemma new_prefix_faults:
  assumes "vfs_mem v 0 = None" and "p \<noteq> 0" and "cstring_at (vfs_mem v) p s"
    and "MountedFilesystems v = used @ no_fs # rest"
    and "\<forall>f \<in> set used. \<exists>t. t \<noteq> s \<and> cstring_at (vfs_mem v) (mnt_prefix f) t"
    and "unat (MountedFSIndex v) + 1 < KRNL_MAX_MOUNTS"
  shows "mount p fs v = Inl (PageFault 0) \<and> unmount p v = Inl (PageFault 0)"
  using mounted_scan_null [of "vfs_mem v" p s used rest] assms
  by (simp add: mount_def unmount_def AllreadyMounted_def)

lemma new_prefix_faults_witness:
  "mount 0x10 7 (vfs_start vfs_mem0 0x10) = Inl (PageFault 0)"
  using new_prefix_faults [of "vfs_start vfs_mem0 0x10" "0x10" "[47]" "[]" "replicate 31 no_fs" 7]
  by (simp add: vfs_start_def vfs_mem0_def KRNL_MAX_MOUNTS_def flip: replicate_Suc)

lemma fresh_table_refuses:
  assumes "m 0 = None" and "p \<noteq> 0"
  shows "\<exists>x. mount p fs (vfs_start m lit) = Inl (PageFault x) \<and> unmount p (vfs_start m lit) = Inl (PageFault x) \<and> (m p \<noteq> None \<longrightarrow> x = 0)"
proof -
  have r: "MountedFilesystems (vfs_start m lit) = no_fs # replicate 31 no_fs"
    by (simp add: vfs_start_def KRNL_MAX_MOUNTS_def flip: replicate_Suc)
  have "strcmp m p 0 = Inl (PageFault (if m p = None then p else 0))"
    using assms(1) strcmp_second_unmapped [of m p 0] strcmp_first_unmapped [of m p 0] by simp
  then have "AllreadyMounted p (vfs_start m lit) = Inl (PageFault (if m p = None then p else 0))"
    using r by (simp add: AllreadyMounted_def no_fs_def) (simp add: vfs_start_def)
  then show ?thesis
    using assms(2) by (simp add: mount_def unmount_def) (simp add: vfs_start_def KRNL_MAX_MOUNTS_def)
qed

text \<open>C19: in the kernel, where the null page is not mapped, the mount table cannot be used: on the table as it starts, mounting any
  prefix that can be read, and unmounting it, faults at address 0, because the search compares the prefix with the null pointer of the first empty
  slot; so no run of mounts and unmounts that comes to an end has mounted anything: each of its calls was one with a null prefix and returned
  \<^verbatim>\<open>EINVAL\<close>.\<close>

theorem no_mount_succeeds:
  assumes "m 0 = None" and "p \<noteq> 0" and "m p \<noteq> None"
  shows "mount p fs (vfs_start m lit) = Inl (PageFault 0) \<and> unmount p (vfs_start m lit) = Inl (PageFault 0) \<and>
    (\<forall>qs rs v. vfs_run qs (vfs_start m lit) = Inr (rs, v) \<longrightarrow> v = vfs_start m lit \<and> mounts_done qs rs = 0 \<and> set rs \<subseteq> {EINVAL})"
proof -
  have one: "p = 0 \<and> v = vfs_start m lit \<and> r = EINVAL"
    if "mount p fs (vfs_start m lit) = Inr (r, v) \<or> unmount p (vfs_start m lit) = Inr (r, v)" for p fs r v
    using that fresh_table_refuses [of m p fs lit] assms(1) by (cases "p = 0") (auto simp: mount_def unmount_def)
  have "v = vfs_start m lit \<and> mounts_done qs rs = 0 \<and> set rs \<subseteq> {EINVAL}" if "vfs_run qs (vfs_start m lit) = Inr (rs, v)" for qs rs v
    using that
  proof (induction qs arbitrary: rs)
    case (Cons q qs)
    then obtain r v1 rs' where step: "vfs_do q (vfs_start m lit) = Inr (r, v1)" "vfs_run qs v1 = Inr (rs', v)" "rs = r # rs'"
      by (auto simp: and_then_eq_Inr)
    then have "v1 = vfs_start m lit" "r = EINVAL" using one by (cases q; auto)+
    then show ?case using Cons.IH [of rs'] step by (cases q) (auto simp: errno_values)
  qed simp
  then show ?thesis using fresh_table_refuses [of m p fs lit] assms by auto
qed

theorem no_mount_succeeds_witness:
  "mount 0x10 7 (vfs_start vfs_mem0 0x10) = Inl (PageFault 0) \<and> unmount 0x10 (vfs_start vfs_mem0 0x10) = Inl (PageFault 0)"
  using no_mount_succeeds [of vfs_mem0 "0x10" 7 "0x10"] by (simp add: vfs_mem0_def)

text \<open>No slot is ever reused: over any run of mounts and unmounts the slot counter grows by the number
  of successful mounts, so at most 31 mounts succeed after start-up, however many unmounts lie
  between them; once the counter is 31 every mount returns \<^verbatim>\<open>-ENFILE\<close>.\<close>

lemma at_most_31_mounts:
  assumes "vfs_run qs (vfs_start m lit) = Inr (rs, v)"
  shows "unat (MountedFSIndex v) = mounts_done qs rs \<and> mounts_done qs rs \<le> 31 \<and>
    (mounts_done qs rs = 31 \<longrightarrow> p \<noteq> 0 \<longrightarrow> (\<exists>v'. mount p fs v = Inr (- ENFILE, v')))"
  using vfs_run_index [OF assms]
  by (auto simp: vfs_start_def KRNL_MAX_MOUNTS_def mount_def)

lemma at_most_31_mounts_witness:
  "\<exists>v. vfs_run [Do_mount 0 1, Do_unmount 0] (vfs_start Map.empty 0) = Inr ([22, 22], v) \<and>
    unat (MountedFSIndex v) = 0"
proof -
  have "vfs_run [Do_mount 0 1, Do_unmount 0] (vfs_start Map.empty 0) = Inr ([22, 22], vfs_start Map.empty 0)"
    by (simp add: mount_def unmount_def errno_values)
  then show ?thesis using at_most_31_mounts [of "[Do_mount 0 1, Do_unmount 0]" Map.empty 0 "[22, 22]"] by auto
qed

end
