(* ===== verification/Spec2Isabelle.thy ===== *)
theory Spec2Isabelle
  imports Kernel_Entry Entry_Stubs Limine_Requests Smp Heap Vfs Spinlock Errno
begin

text \<open>
  A model of gooseOS, an x86-64 kernel started by the Limine boot protocol, and the properties that make its parts correct. The sources
  are under \<^verbatim>\<open>src/kernel\<close>; \<^verbatim>\<open>arch\<close> below stands for \<^verbatim>\<open>src/kernel/arch/x86_64\<close>.

  \<^bold>\<open>The program.\<close> Limine loads the kernel, answers its request objects (\<^verbatim>\<open>arch/boot/limine.cpp\<close>) and jumps to
  \<^verbatim>\<open>_start\<close> (\<^verbatim>\<open>arch/boot/entry.asm\<close>), which calls \<^verbatim>\<open>InitKernel\<close> (\<^verbatim>\<open>init.cpp\<close>).
  \<^verbatim>\<open>Arch::EarlyInit\<close> (\<^verbatim>\<open>arch/init.cpp\<close>) sets up the core context, the descriptor tables, the page allocator, a root table
  of the kernel's own, the local APIC and the I/O APIC. InitKernel goes on with the console, the keyboard and the ramdisk, reads a sector, and panics.
  \<^verbatim>\<open>Arch::LateInit\<close>, which starts the application processors, comes after that panic and is modelled on its own.
  Interrupts enter through the stubs of \<^verbatim>\<open>arch/cpu/int.asm\<close>, are dispatched by \<^verbatim>\<open>arch/cpu/int.cpp\<close> and reach the
  keyboard's handler. All messages go through the console, to the serial line and to the framebuffer.

  \<^bold>\<open>Theories.\<close> In the order in which they build on one another:
  \<^item> Prelude: integer types (\<^verbatim>\<open>include/types.hpp\<close>), \<open>assert\<close>, the results of routines that can stop, counted loops.
  \<^item> Machine_Memory: byte memory with loads and stores of 8, 32 and 64 bits (contract \<open>cell\<close>).
  \<^item> Utils: \<^verbatim>\<open>include/utils.hpp\<close> and \<^verbatim>\<open>math.cpp\<close> (memset, memcpy, strcmp, Clamp). Errno:
    \<^verbatim>\<open>include/core.hpp\<close>.
  \<^item> Pmm: \<^verbatim>\<open>arch/mem/pmm.cpp\<close>. Record \<open>pmm\<close> holds its globals; the bitmap is in memory (contracts \<open>bit_table\<close>,
    \<open>page_source\<close>). Init decides every page; against the pages that the entries of the map touch, it misses the last
    page of an unaligned one and leaves the bits behind its rounded-down size as they were. AllocatePage takes the lowest free page.
  \<^item> Vmm: \<^verbatim>\<open>arch/mem/vmm.cpp\<close>. GetNextTable and MapPage over page tables in memory, against the walk of the processor. The invariant
    \<open>pt_ok\<close>: the tables are a tree of distinct frames that the allocator will not give out again.
  \<^item> Heap: \<^verbatim>\<open>mem/alloc.cpp\<close> and \<^verbatim>\<open>arch/mem/alloc-backend.cpp\<close>, the bump allocator behind kmalloc, with what
    its Init and its growth leave unmapped.
  \<^item> Spinlock: \<^verbatim>\<open>arch/include/spinlock.hpp\<close>, as sequential code (contract \<open>lock\<close>) and as a step relation over any number of
    processors: mutual exclusion and progress.
  \<^item> Serial: \<^verbatim>\<open>arch/console/serial.cpp\<close> and the port instructions (contract \<open>polling\<close> of a wait for a device).
  \<^item> Framebuffer: \<^verbatim>\<open>arch/boot/framebuffer.cpp\<close> (contract \<open>canvas\<close>). Font: \<^verbatim>\<open>arch/include/console/font-8x8.h\<close>.
  \<^item> Console: \<^verbatim>\<open>arch/console/console.cpp\<close> and \<^verbatim>\<open>panic.cpp\<close>, function by function; record \<open>console\<close> holds
    the globals, ports and memory. Console_Output relates the print calls to the rendering of a format string, Console_Screen the drawing to pixels,
    Console_State shows what every print call keeps (contract \<open>console_invariant\<close>), Console_Log prints the messages the other parts log.
  \<^item> Vfs: \<^verbatim>\<open>block/vfs.cpp\<close> (contract \<open>mount_table\<close>, met only where the null page reads as zero; the kernel's does not, and
    there no mount succeeds). Ramdisk: \<^verbatim>\<open>block/ramdisk.cpp\<close>,
    \<^verbatim>\<open>arch/boot/ramdisk.cpp\<close> (contract \<open>block_store\<close>).
  \<^item> Cpu: what inline assembly touches: MSRs, CPUID, table registers, memory-mapped devices (contract \<open>slots\<close> of numbered tables).
  \<^item> Descriptors: \<^verbatim>\<open>arch/cpu/gdt.cpp\<close>, \<^verbatim>\<open>arch/cpu/idt.cpp\<close>, \<^verbatim>\<open>arch/cpu/cpu.asm\<close>, against what the
    processor decodes from the bytes.
  \<^item> Acpi: \<^verbatim>\<open>arch/acpi/init.cpp\<close> and ParseMADT. Apic: \<^verbatim>\<open>arch/apic/ioapic.cpp\<close>,
    \<^verbatim>\<open>arch/apic/lapic.cpp\<close>; the exact accesses of each operation.
  \<^item> Interrupts: \<^verbatim>\<open>arch/cpu/int.cpp\<close>; record \<open>kernel\<close> holds what handlers work on. Entry_Stubs: \<^verbatim>\<open>arch/cpu/int.asm\<close>,
    as instruction lists between the processor's delivery and iretq, with the call of the C++ handler on the interrupted stack.
  \<^item> Keyboard: \<^verbatim>\<open>keyboard.cpp\<close> and the PS/2 commands of \<^verbatim>\<open>arch/init.cpp\<close>, against a keyboard with shift state.
  \<^item> Boot: \<^verbatim>\<open>Arch::EarlyInit\<close> and the switch of page tables. Early_Init: what the boot loader must hand over and the state in
    which EarlyInit returns. Smp: LateInit and APEntry, as sequential code and as a step relation over all
    processors, in which every console call takes the lock in a step of its own.
  \<^item> Limine_Requests: \<^verbatim>\<open>arch/boot/limine.cpp\<close>, data only. Kernel_Entry: \<^verbatim>\<open>_start\<close> and \<^verbatim>\<open>InitKernel\<close>, a whole boot over one
    machine. This theory: the path of a key press and of an
    exception through the components.

  \<^bold>\<open>Conventions.\<close> A routine that can stop has type \<open>'a res\<close>: \<open>Inr\<close> its result, \<open>Inl\<close> the panic, page fault, C-array overrun
  or endless wait that ends it. Machine integers are words of their width; addresses are 64-bit words, and memory is a partial map from
  addresses to bytes, so an access outside is a fault and aliasing is that of the addresses. The kernel's pointers are direct-map addresses: the
  memory is indexed by them, and the translation of other addresses is what the walk of Vmm says. C strings that the kernel reads through a pointer are
  bytes in that memory; literal format strings are lists of their bytes, and reading past one is an overrun. Globals of a file are fields of a record that its operations take
  and return. What a device answers is a parameter: a function of the port and the number of reads, or of the writes so far. Stores to
  MSRs, ports and device registers are logged in order, and the logs are what the theorems speak of. Code behind a function pointer is
  looked up by its address.

  \<^bold>\<open>Loops.\<close> Counted loops are \<open>for_each\<close> over an index list; loops with a measure are \<open>function\<close> with a termination proof. A loop
  that waits for a device or follows untrusted data is a \<open>partial_function (option)\<close>, None when it never ends, and its callers turn None into a spin:
  the waits for the serial line and the PS/2 controller end exactly when the device answers at some moment, ParseMADT exactly when no entry
  on its way has length 0, Lock exactly when the lock is free. There is no fuel. Interleavings are inductive step relations; every interleaving of the
  start of the processors ends after at most seven steps per processor and 13 more.

  \<^bold>\<open>What is assumed.\<close> Atomic operations are atomic and sequentially consistent, and one step of an interleaving is one test-and-set, one turn of a loop,
  one part of APEntry between shared accesses, or the part of a console call that runs under its lock (two processors are never in one: \<open>console_calls_exclude\<close>). The TLB holds the translations it has been filled with until invlpg or a load of cr3 drops them. Compiled C++ code keeps to the calling
  convention; the return address of a handler's call, the stack it uses below it and the registers it changes are the parameter \<open>compiled\<close>. The
  interrupted stack is apart from the other memory the handlers use. The messages EarlyInit logs are
  printed when it returns; nothing between them touches a port or the framebuffer. Two calls of LateInit
  print a string that ends in a styling tag, behind which the code reads on past the string: in the interleaving what they do is a parameter. So is whether the wait
  for the flag, a plain variable, loads it more than once. The hand-over of the boot loader (\<open>limine_handoff\<close>) and the ACPI tables
  (\<open>ioapic_found\<close>) are hypotheses, and concrete machines show that they can hold; of the hand-over, two clauses are not the protocol's but what the rounded-down
  \<^verbatim>\<open>bitmap_size\<close> needs when the page count is no multiple of 8 (\<open>tail_ok\<close>, \<open>bitmap_inside\<close>).

  \<^bold>\<open>Not modelled.\<close> The rest of \<^verbatim>\<open>limine/limine.h\<close>, a third-party header: only the structures and constants the kernel
  uses are. Where the linker puts the two request markers. \<^verbatim>\<open>fs/testfs.cpp\<close>, one function with an empty body, and the file-handle types of
  \<^verbatim>\<open>storage/vfs.hpp\<close>, which no code uses. \<^verbatim>\<open>arch/misc/cpuid.cpp\<close>, a licence comment. Build files and the linker script; the two
  symbols the heap takes from elsewhere, \<^verbatim>\<open>KRNL_MEM_HEAP_SIZE\<close> and \<^verbatim>\<open>kernel_end\<close>, are defined by no file and are parameters.
\<close>

section \<open>The path of a key press\<close>

text \<open>The parts agree on the keyboard's vector: the I/O APIC sends pin 1 to the vector whose gate is the stub of interrupt
  33, and a frame with that number is dispatched to the handler that was registered for \<open>KRNL_KEYBOARD_INTERRUPT\<close>.\<close>

lemma keyboard_interrupt_path:
  assumes "ioapic_found (pmem (mc_paging w)) rsdp h sig madt e phys"
    and "MapPage s ((cr3 (mc_cpu w) AND PTE_ADDRESS) + h) (ucast phys + h) (ucast phys) IOAPIC_page_flags h (mc_paging w) = Inr pg"
    and "table_ok k" and "kbd \<noteq> 0"
  shows "\<exists>v l w' d k'. InitIOAPIC s (Some rsdp) sig h w = Inr w' \<and>
    mmio_log (mc_cpu w') = l @ redirection (IOAPICAddress w') 1 v (GetLocalApicId (mc_cpu w)) \<and>
    InitIDT a (idt_globals t) = Inr d \<and>
    vector_gate (fst (LoadIDT d c)) (snd (LoadIDT d c)) (unat v) =
      Some \<lparr>gate_handler = irq a (unat v), gate_selector = 8, gate_ist = 0, gate_type = 0x8E\<rparr> \<and>
    RegisterInterrupt KRNL_KEYBOARD_INTERRUPT kbd k = Inr k' \<and>
    (\<forall>call fr. int_no fr = ucast v \<longrightarrow>
      IRQHandler call fr k' = and_then (call kbd fr k') (\<lambda>k. Inr (k\<lparr>k_cpu := SendEOI (k_ioapic k) (k_cpu k)\<rparr>)))"
proof -
  obtain w' where w': "InitIOAPIC s (Some rsdp) sig h w = Inr w'" "IOAPICAddress w' = ucast phys + h"
      "mc_cpu w' = SetRedirectEntry (ucast phys + h) (of_nat 1) 33 (GetLocalApicId (mc_cpu w))
                 (SetRedirectEntry (ucast phys + h) 2 32 (GetLocalApicId (mc_cpu w)) (mc_cpu w))"
    using InitIOAPIC_result [OF assms(1,2)] by auto
  obtain d where d: "InitIDT a (idt_globals t) = Inr d" "\<forall>v < 255. vector_gate (fst (LoadIDT d c)) (snd (LoadIDT d c)) v =
      Some \<lparr>gate_handler = handler_of a v, gate_selector = 8, gate_ist = 0, gate_type = 0x8E\<rparr>"
    using InitIDT_result [of "idt_globals t" a] vector_gate_InitIDT [of "idt_globals t" a] by (fastforce simp: idt_globals_def)
  let ?k = "k\<lparr>ExternalInterruptHandlers := (ExternalInterruptHandlers k)[1 := kbd]\<rparr>"
  have "RegisterInterrupt KRNL_KEYBOARD_INTERRUPT kbd k = Inr ?k"
    using RegisterInterrupt_in_range [OF assms(3) _ assms(4), of 1] by (simp add: KRNL_KEYBOARD_INTERRUPT_def)
  moreover have "IRQHandler call fr ?k = and_then (call kbd fr ?k) (\<lambda>k. Inr (k\<lparr>k_cpu := SendEOI (k_ioapic k) (k_cpu k)\<rparr>))"
    if "int_no fr = 33" for call fr
    using assms(3,4) that by (simp add: IRQHandler_def table_ok_def)
  moreover have "handler_of a 33 = irq a 33" by (simp add: handler_of_def)
  ultimately show ?thesis
    using w' d SetRedirectEntry_log [of 1 "ucast phys + h" 33] by (intro exI [of _ 33]) (auto simp del: of_nat_1)
qed

lemma keyboard_interrupt_path_witness:
  "\<exists>v l w' d k'. InitIOAPIC demo_vm (Some 0x100100) 0x100500 0x100000 demo_machine = Inr w' \<and>
    mmio_log (mc_cpu w') = l @ redirection (IOAPICAddress w') 1 v 3 \<and> InitIDT demo_stubs (idt_globals 0x9000) = Inr d \<and>
    vector_gate (fst (LoadIDT d cpu0)) (snd (LoadIDT d cpu0)) (unat v) =
      Some \<lparr>gate_handler = 0x2000 + of_nat (unat v), gate_selector = 8, gate_ist = 0, gate_type = 0x8E\<rparr> \<and>
    RegisterInterrupt KRNL_KEYBOARD_INTERRUPT 0x5000 kernel0 = Inr k'"
proof -
  let ?m = "demo_vm_mem ++ acpi_mem0"
  note le = pt_ok_le [OF demo_pt_ok demo_machine_mem(2)]
  have m: "pmem (mc_paging demo_machine) = ?m" by (simp add: demo_machine_def)
  have small: "no_large_page 0x100000 0x101000 ?m va" for va
    using le(3) [OF page_path_path] demo_walk [OF page_path_path] by (simp add: no_large_page_def)
  have three: "3 \<le> card (free_frames demo_vm ?m)" using le(2) demo_three_frames by simp
  have root: "(cr3 (mc_cpu demo_machine) AND PTE_ADDRESS) + 0x100000 = 0x101000"
    by (simp add: demo_machine_def cpu0_def PTE_ADDRESS_def)
  obtain pg where "MapPage demo_vm ((cr3 (mc_cpu demo_machine) AND PTE_ADDRESS) + 0x100000) (ucast (0xFEC00000 :: u32) + 0x100000)
      (ucast (0xFEC00000 :: u32)) IOAPIC_page_flags 0x100000 (mc_paging demo_machine) = Inr pg"
    using MapPage_memory [of demo_vm 1 "0x100000" "0x101000" "mc_paging demo_machine" "ucast (0xFEC00000 :: u32) + 0x100000"
        "ucast (0xFEC00000 :: u32)" IOAPIC_page_flags, unfolded m, OF le(1) three small] unfolding root by blast
  moreover have "table_ok kernel0" by (simp add: kernel0_def table_ok_def)
  moreover have "GetLocalApicId (mc_cpu demo_machine) = 3" by (simp add: demo_machine_def cpu0_def GetLocalApicId_def)
  ultimately show ?thesis
    using keyboard_interrupt_path [of demo_machine "0x100100" "0x100000" "0x100500" "0x100400" "0x100434" "0xFEC00000" demo_vm pg kernel0
        "0x5000" demo_stubs "0x9000" cpu0, unfolded m, OF demo_ioapic]
    by (simp add: demo_stubs_def) blast
qed

text \<open>C12: after EarlyInit, and once the keyboard's handler is registered, a key press finds its way: the last redirection the I/O APIC
  was given sends pin 1 to a vector whose gate, in the table the processor uses, is the stub of interrupt 33; a frame with that
  number is dispatched to the handler, and both controllers are told that the interrupt is over.\<close>

theorem keyboard_wired_after_EarlyInit:
  assumes "boot_ready b" and "h \<noteq> 0" and "s = pmm_globals es h"
    and "limine_handoff es h (current_root h b) (pmem (mc_paging (bt_machine b)))"
    and "4 \<le> card (allocatable_frames es s)"
    and "ioapic_found am rsdp h sig madt e phys" and "acpi_kept es h am (pmem (mc_paging (bt_machine b)))"
    and "A = ucast phys + h" and "bit A 47" and "no_large_page h (current_root h b) (pmem (mc_paging (bt_machine b))) A"
    and "table_ok k" and "kbd \<noteq> 0"
  shows "\<exists>b' v l k'. EarlyInit stubs h es (Some rsdp) sig b = Inr b' \<and>
    mmio_log (mc_cpu (bt_machine b')) = l @ redirection (IOAPICAddress (bt_machine b')) 1 v (GetLocalApicId (mc_cpu (bt_machine b))) \<and>
    vector_gate (bt_idt b') (mc_cpu (bt_machine b')) (unat v) =
      Some \<lparr>gate_handler = irq stubs (unat v), gate_selector = 8, gate_ist = 0, gate_type = 0x8E\<rparr> \<and>
    RegisterInterrupt KRNL_KEYBOARD_INTERRUPT kbd (share b' k) = Inr k' \<and>
    (\<forall>call fr. int_no fr = ucast v \<longrightarrow>
      IRQHandler call fr k' = and_then (call kbd fr k') (\<lambda>k. Inr (k\<lparr>k_cpu := SendEOI (k_ioapic k) (k_cpu k)\<rparr>)))"
proof -
  obtain n where n: "madt_overrides am madt n" using ioapic_found_overrides [OF assms(6)] by blast
  obtain g d f m where E: "EarlyInit stubs h es (Some rsdp) sig b = Inr (b\<lparr>
      bt_machine := \<lparr>mc_cpu = early_cpu (tables_loaded b g d) f A,
        mc_ports = outb 0xA1 0xFF (outb 0x21 0xFF (mc_ports (bt_machine b))), mc_paging = \<lparr>pmem = m, ptlb = (\<lambda>_. None)\<rparr>,
        mc_madt = \<lparr>IOAPICData = e, madt_log = madt_log (mc_madt (bt_machine b)) @ ioapic_messages am madt e n\<rparr>, IOAPICAddress = A\<rparr>,
      bt_pmm := s, bt_gdt := g, bt_idt := fst (LoadIDT d cpu0), CoreContextes := (CoreContextes b)[0 := \<lparr>CoreID = 0, LapicID = 0\<rparr>]\<rparr>)"
      (is "_ = Inr ?b") and d: "InitIDT stubs (bt_idt b) = Inr d"
    using EarlyInit_result [OF assms(1-10) n] by blast
  have l: "mmio_log (mc_cpu (bt_machine ?b)) = (mmio_log (mc_cpu (bt_machine b)) @ redirection A 2 32 (GetLocalApicId (mc_cpu (bt_machine b)))) @
      redirection (IOAPICAddress (bt_machine ?b)) 1 33 (GetLocalApicId (mc_cpu (bt_machine b)))" by simp
  have i: "idtr (early_cpu (tables_loaded b g d) f A) = idtr (snd (LoadIDT d cpu0))" by (simp add: tables_loaded_def LoadIDT_def Let_def)
  have "length (IDTTable (bt_idt b)) = 256" using assms(1) by (simp add: boot_ready_def)
  from vector_gate_InitIDT [OF this d i, of 33]
  have gate: "vector_gate (bt_idt ?b) (mc_cpu (bt_machine ?b)) (unat (33 :: u8)) =
      Some \<lparr>gate_handler = irq stubs (unat (33 :: u8)), gate_selector = 8, gate_ist = 0, gate_type = 0x8E\<rparr>"
    by (simp add: handler_of_def)
  let ?k = "share ?b k" let ?k' = "?k\<lparr>ExternalInterruptHandlers := (ExternalInterruptHandlers ?k)[1 := kbd]\<rparr>"
  have t: "table_ok ?k" using assms(11) by (simp add: table_ok_def share_def Let_def)
  have r: "RegisterInterrupt KRNL_KEYBOARD_INTERRUPT kbd ?k = Inr ?k'"
    using RegisterInterrupt_in_range [OF t _ assms(12), of 1] by (simp add: KRNL_KEYBOARD_INTERRUPT_def)
  have "IRQHandler call fr ?k' = and_then (call kbd fr ?k') (\<lambda>k. Inr (k\<lparr>k_cpu := SendEOI (k_ioapic k) (k_cpu k)\<rparr>))"
    if "int_no fr = 33" for call fr
    using t assms(12) that by (simp add: IRQHandler_def table_ok_def)
  then have q: "\<forall>call fr. int_no fr = ucast (33 :: u8) \<longrightarrow>
      IRQHandler call fr ?k' = and_then (call kbd fr ?k') (\<lambda>k. Inr (k\<lparr>k_cpu := SendEOI (k_ioapic k) (k_cpu k)\<rparr>))" by simp
  show ?thesis by (intro exI conjI, rule E, rule l, rule gate, rule r, rule q)
qed

theorem keyboard_wired_after_EarlyInit_witness:
  "\<exists>b' v l k'. EarlyInit demo_stubs demo_hhdm demo_map (Some (demo_hhdm + 0x100)) (demo_hhdm + 0x500) (sy_boot boot_sys) = Inr b' \<and>
    mmio_log (mc_cpu (bt_machine b')) = l @ redirection (IOAPICAddress (bt_machine b')) 1 v 3 \<and>
    vector_gate (bt_idt b') (mc_cpu (bt_machine b')) (unat v) =
      Some \<lparr>gate_handler = 0x2000 + of_nat (unat v), gate_selector = 8, gate_ist = 0, gate_type = 0x8E\<rparr> \<and>
    RegisterInterrupt KRNL_KEYBOARD_INTERRUPT 0x5000 (share b' kernel0) = Inr k'"
proof -
  let ?b = "sy_boot boot_sys"
  have e: "boot_ready ?b" "demo_hhdm \<noteq> 0" "limine_handoff demo_map demo_hhdm (current_root demo_hhdm ?b) (pmem (mc_paging (bt_machine ?b)))"
      "acpi_kept demo_map demo_hhdm early_acpi (pmem (mc_paging (bt_machine ?b)))" "bit (ucast (0xFEC00000 :: u32) + demo_hhdm) 47"
      "no_large_page demo_hhdm (current_root demo_hhdm ?b) (pmem (mc_paging (bt_machine ?b))) (ucast (0xFEC00000 :: u32) + demo_hhdm)"
    using boot_early_ready(1) unfolding early_ready_def Let_def boot_sys_simps by blast+
  have "table_ok kernel0" "(0x5000 :: u64) \<noteq> 0" by (simp_all add: kernel0_def table_ok_def)
  from keyboard_wired_after_EarlyInit [OF e(1,2) demo_pmm_def e(3) early_four early_ioapic e(4) refl e(5,6) this, of demo_stubs]
  show ?thesis by (simp add: demo_stubs_def boot_sys_def early_boot_def demo_machine_def cpu0_def GetLocalApicId_def) blast
qed

section \<open>Typing into a running program\<close>

text \<open>A key event as the processor sees it: the controller holds the code, and interrupt 33 is taken in the middle of the program.\<close>

definition key_interrupt :: "u64 \<Rightarrow> compiled \<Rightarrow> u64 \<Rightarrow> u8 \<Rightarrow> exec_state \<Rightarrow> exec_state res" where
  "key_interrupt hnd cc target c s = take_irq (keyboard_at hnd) cc target 33 (s\<lparr>krn := Keyboard.deliver c (krn s)\<rparr>)"

lemma keyboard_dispatch: "int_no fr = 33 \<Longrightarrow> IRQHandler (keyboard_at hnd) fr (Keyboard.deliver c k) = key_event hnd c k"
  by (simp add: key_event_def IRQHandler_def frame_of_def keyboard_at_def KeyboardInterruptHandler_def)

lemma stack_room_cong: "rsp s' = rsp s \<Longrightarrow> dom (stack_mem s') = dom (stack_mem s) \<Longrightarrow> stack_room cc s' = stack_room cc s"
  "rsp s' = rsp s \<Longrightarrow> stack_base cc s' = stack_base cc s"
  using mapped_dom [of "stack_mem s'" "stack_mem s"] by (simp_all add: stack_room_def stack_base_def frame_base_def)

lemma key_interrupt_result:
  assumes "stack_room cc s" and "key_event hnd c (krn s) = Inr k"
  shows "\<exists>m. key_interrupt hnd cc target c s = Inr (s\<lparr>stack_mem := m, krn := k\<rparr>) \<and> dom m = dom (stack_mem s) \<and>
    (\<forall>x. \<not> in_region (stack_base cc s) (stack_used cc) x \<longrightarrow> m x = stack_mem s x)"
proof -
  let ?s = "s\<lparr>krn := Keyboard.deliver c (krn s)\<rparr>"
  have "stack_room cc ?s" "stack_base cc ?s = stack_base cc s" using assms(1) stack_room_cong [of ?s s cc] by simp_all
  with take_irq_result [of cc ?s "keyboard_at hnd" target 33] obtain m where
    m: "dom m = dom (stack_mem s)" "\<forall>x. \<not> in_region (stack_base cc s) (stack_used cc) x \<longrightarrow> m x = stack_mem s x"
      "key_interrupt hnd cc target c s = and_then (IRQHandler (keyboard_at hnd) (frame_for (of_nat 33) 0 ?s) (krn ?s))
        (\<lambda>k. Inr (?s\<lparr>stack_mem := m, krn := k\<rparr>))"
    unfolding key_interrupt_def by auto
  have "int_no (frame_for (of_nat 33) 0 ?s) = 33" by (simp add: frame_for_def)
  from keyboard_dispatch [OF this] show ?thesis using m assms(2) by (intro exI [of _ m]) simp
qed

lemma typing_interrupts:
  assumes "stack_room cc s" and "keyboard_ready hnd cols rows (krn s)"
    and "has_room cols rows (typed (shift (krn s)) cs) (k_console (krn s))"
  shows "\<exists>m k. for_each (key_interrupt hnd cc target) cs s = Inr (s\<lparr>stack_mem := m, krn := k\<rparr>) \<and>
    (\<forall>x. \<not> in_region (stack_base cc s) (stack_used cc) x \<longrightarrow> m x = stack_mem s x) \<and>
    sent (con_ports (k_console k)) = sent (con_ports (k_console (krn s))) @ typed (shift (krn s)) cs \<and>
    shift k = foldl shift_after (shift (krn s)) cs \<and> msr_log (k_cpu k) = msr_log (k_cpu (krn s)) @ replicate (length cs) (0x80B, 0)"
  using assms
proof (induction cs arbitrary: s)
  case Nil
  then show ?case by (intro exI [of _ "stack_mem s"] exI [of _ "krn s"]) simp
next
  case (Cons c cs)
  have t: "typed (shift (krn s)) (c # cs) = char_of_code (shift (krn s)) c @ typed (shift_after (shift (krn s)) c) cs" by simp
  obtain k where k: "key_event hnd c (krn s) = Inr k" "keyboard_ready hnd cols rows k" "shift k = shift_after (shift (krn s)) c"
      "sent (con_ports (k_console k)) = sent (con_ports (k_console (krn s))) @ char_of_code (shift (krn s)) c"
      "cursor_index cols (k_console k) \<le> cursor_index cols (k_console (krn s)) + text_room cols (char_of_code (shift (krn s)) c)"
      "msr_log (k_cpu k) = msr_log (k_cpu (krn s)) @ [(0x80B, 0)]"
    using key_event_types [OF Cons.prems(2), of c] Cons.prems(3) unfolding t by (auto simp: has_room_def)
  obtain m where m: "key_interrupt hnd cc target c s = Inr (s\<lparr>stack_mem := m, krn := k\<rparr>)" "dom m = dom (stack_mem s)"
      "\<forall>x. \<not> in_region (stack_base cc s) (stack_used cc) x \<longrightarrow> m x = stack_mem s x"
    using key_interrupt_result [OF Cons.prems(1) k(1)] by blast
  let ?s = "s\<lparr>stack_mem := m, krn := k\<rparr>"
  have b: "stack_room cc ?s" "stack_base cc ?s = stack_base cc s" using Cons.prems(1) m(2) stack_room_cong [of ?s s cc] by simp_all
  moreover have "has_room cols rows (typed (shift k) cs) (k_console k)" using Cons.prems(3) k(3,5) unfolding t by (simp add: has_room_def)
  ultimately show ?case using Cons.IH [of ?s] m(1,3) k(1-4,6) unfolding t by fastforce
qed

text \<open>C6: scan codes that arrive while a program runs, each as an interrupt through the entry stub, the dispatcher and the
  keyboard's handler, are typed on the console exactly as the abstract keyboard types them, Enter included, each with one
  end-of-interrupt signal: on a screen with room for the typed text, with a serial line that becomes ready, the handler in the table, and mapped stack
  for one interrupt. The program keeps all its registers, its flags and all of its memory but that stack below its stack pointer: the frame's 176 bytes,
  8 for the return address and what the compiled handlers use.\<close>

theorem typing_interrupts_transparent:
  assumes "stack_room cc s" and "keyboard_ready hnd cols rows (krn s)"
    and "has_room cols rows (typed (shift (krn s)) cs) (k_console (krn s))"
  shows "\<exists>m k. for_each (key_interrupt hnd cc target) cs s = Inr (s\<lparr>stack_mem := m, krn := k\<rparr>) \<and>
    (\<forall>x. \<not> in_region (stack_base cc s) (stack_used cc) x \<longrightarrow> m x = stack_mem s x) \<and>
    sent (con_ports (k_console k)) = sent (con_ports (k_console (krn s))) @ typed (shift (krn s)) cs \<and>
    shift k = foldl shift_after (shift (krn s)) cs \<and> msr_log (k_cpu k) = msr_log (k_cpu (krn s)) @ replicate (length cs) (0x80B, 0)"
  using typing_interrupts [OF assms] .

text \<open>Shift down, H, H up, shift up, Enter, I.\<close>

theorem typing_interrupts_transparent_witness:
  "\<exists>m k. for_each (key_interrupt 0x5000 compiled0 0x2021) [0x2A, 0x23, 0xA3, 0xAA, 0x1C, 0x17]
      (running0\<lparr>krn := keyboard_kernel\<lparr>k_console := page_console\<rparr>\<rparr>) =
    Inr (running0\<lparr>stack_mem := m, krn := k\<rparr>) \<and> sent (con_ports (k_console k)) = cstr ''H'' @ [10] @ cstr ''i''"
proof -
  let ?k = "keyboard_kernel\<lparr>k_console := page_console\<rparr>"
  let ?s = "running0\<lparr>krn := ?k\<rparr>" and ?cs = "[0x2A, 0x23, 0xA3, 0xAA, 0x1C, 0x17] :: u8 list"
  have t: "typed (shift (krn ?s)) ?cs = cstr ''H'' @ [10] @ cstr ''i''"
    by (simp add: keyboard_kernel_def kernel0_def char_of_code_def shift_after_def kbd_us_def kbd_us_uppercase_def
        ktrue_def kfalse_def truthy_def)
  have "has_room 80 25 (typed (shift (krn ?s)) ?cs) (k_console (krn ?s))" unfolding t by (simp add: has_room_def cursor_index_def)
  moreover have "keyboard_ready 0x5000 80 25 (krn ?s)"
    using page_grid by (simp add: keyboard_ready_def keyboard_kernel_def table_ok_def kernel0_def)
  ultimately obtain m k where
    "for_each (key_interrupt 0x5000 compiled0 0x2021) ?cs ?s = Inr (?s\<lparr>stack_mem := m, krn := k\<rparr>)"
    "sent (con_ports (k_console k)) = sent (con_ports (k_console (krn ?s))) @ typed (shift (krn ?s)) ?cs"
    using typing_interrupts_transparent [OF running0_room [of ?k], of "0x5000" 80 25 ?cs "0x2021"] by blast
  then show ?thesis unfolding t by (intro exI [of _ m] exI [of _ k]) (simp add: sent_def)
qed

section \<open>Exceptions\<close>

text \<open>What the panic screen of exception \<open>v\<close> says.\<close>

definition exception_text :: "nat \<Rightarrow> u8 list" where
  "exception_text v = cstr ''IMPROVING IN PROCESS'' @ cstr ''Core 0 has encountered a '' @ cstr (ISRNames ! v) @ [10, 10] @
     cstr ''========================'' @ [10, 10]"

lemma exception_text_ascii: "v < 32 \<Longrightarrow> ascii (exception_text v)"
proof -
  assume v: "v < 32"
  have "list_all (\<lambda>s. ascii (cstr s)) ISRNames" by (simp add: ISRNames_def)
  moreover have "length ISRNames = 32" by (simp add: ISRNames_def)
  ultimately show ?thesis using v by (simp add: exception_text_def list_all_length)
qed

text \<open>C31: on a ready console whose framebuffer is a usable grid with room for the panic text, with a live serial line and mapped
  stack for the entry, every processor exception ends in its panic screen, even if the interrupted code holds the console's lock: the screen
  with the exception's own name is printed and the processor stops with interrupts off; under these conditions nothing faults or spins on
  the way. Without room the text runs behind the framebuffer (lemma \<open>no_scrolling\<close>).\<close>

theorem exception_panics:
  assumes "stack_room cc s" and "v < 32"
    and "grid_ok cols rows (k_console (krn s))" and "truthy (IsConsoleReady (k_console (krn s)))"
    and "has_room cols rows (exception_text v) (k_console (krn s))"
  shows "\<exists>k. take_exception cc target v e s = Inr k \<and>
    sent (con_ports (k_console k)) = sent (con_ports (k_console (krn s))) @ exception_text v \<and>
    \<not> interrupts_on (k_cpu k) \<and> ExternalInterruptHandlers k = ExternalInterruptHandlers (krn s)"
proof -
  let ?c = "(k_console (krn s))\<lparr>ConsoleLock := 0\<rparr>"
  have "screen_ok cols rows ?c" using assms(3,4) by (simp add: screen_ok_def grid_ok_def console_ok_def cell_size_def)
  moreover have "has_room cols rows (exception_text v) ?c" using assms(5) by (simp add: has_room_def cursor_index_def)
  ultimately obtain c where c: "print_chars (exception_text v) ?c = Inr c" "printed (exception_text v) ?c c"
    using prints_chars [OF _ exception_text_ascii [OF assms(2)], of cols rows ?c] by (auto simp: prints_def)
  let ?f = "frame_for (of_nat v) (if pushes_error_code v then e else 0) s"
  have v: "unat (int_no ?f) = v" using assms(2) by (simp add: frame_for_def unat_of_nat64)
  have "ISRHandler ?f (krn s) = Inr ((krn s)\<lparr>k_console := c, k_cpu := cli (k_cpu (krn s))\<rparr>)"
    using ISRHandler_names_exception [of ?f "krn s"] assms(2,4) c(1) unfolding v exception_text_def by simp
  then show ?thesis
    using take_exception_result [OF assms(1,2)] c(2) by (simp add: printed_def cli_def)
qed

text \<open>A page fault while the lock is held.\<close>

theorem exception_panics_witness:
  "\<exists>k. take_exception compiled0 0x100E 14 6 (running0\<lparr>krn := kernel0\<lparr>k_console := page_console\<lparr>ConsoleLock := 1\<rparr>\<rparr>\<rparr>) = Inr k \<and>
    sent (con_ports (k_console k)) = cstr ''IMPROVING IN PROCESSCore 0 has encountered a Page Fault'' @ [10, 10] @
      cstr ''========================'' @ [10, 10] \<and> \<not> interrupts_on (k_cpu k)"
proof -
  let ?s = "running0\<lparr>krn := kernel0\<lparr>k_console := page_console\<lparr>ConsoleLock := 1\<rparr>\<rparr>\<rparr>"
  have "grid_ok 80 25 (k_console (krn ?s))"
    using page_grid by (simp add: grid_ok_def console_ok_def cell_size_def)
  moreover have "truthy (IsConsoleReady (k_console (krn ?s)))" "sent (con_ports (k_console (krn ?s))) = []"
    by (simp_all add: sent_def)
  moreover have t: "exception_text 14 = cstr ''IMPROVING IN PROCESSCore 0 has encountered a Page Fault'' @ [10, 10] @
      cstr ''========================'' @ [10, 10]"
    by (simp add: exception_text_def ISRNames_def)
  then have "has_room 80 25 (exception_text 14) (k_console (krn ?s))" by (simp add: has_room_def cursor_index_def)
  ultimately show ?thesis
    using exception_panics [OF running0_room [of "kernel0\<lparr>k_console := page_console\<lparr>ConsoleLock := 1\<rparr>\<rparr>"], of 14 80 25 "0x100E" 6] t by auto
qed

end
